(* ===== verification/TG_Prelude.thy ===== *)
theory TG_Prelude
  imports Main "HOL-Library.Word" "HOL-Library.Monad_Syntax"
begin

text \<open>
  Shared vocabulary of the development.

  \<^item> machine types: bytes, 32-bit and 64-bit words, and the C \<open>int\<close> as \<open>32 word\<close> where
    a wrap matters or as \<open>int\<close> where the code only compares it;
  \<^item> buffers: a C buffer is a byte list, and every access is checked: \<open>rd\<close>, \<open>rd1\<close> and
    \<open>wr\<close> return \<open>None\<close> for an access that is not wholly inside the buffer. \<open>None\<close>
    therefore means undefined behaviour, and a theorem that a routine returns \<open>Some\<close> is
    the statement that it touches no byte outside its buffers;
  \<^item> \<open>size_sub\<close>: subtraction on \<open>size_t\<close>, which wraps modulo \<open>2 ^ 64\<close>. The kernels
    compare \<open>len - i\<close> with a block size, so the proofs have to show that \<open>i\<close> never
    passes \<open>len\<close>;
  \<^item> the list lemmas on \<open>take\<close>, \<open>drop\<close> and block updates all components use, collected
    in \<open>buf_simps\<close>.
\<close>

unbundle bit_operations_syntax

named_theorems buf_simps \<open>facts on checked buffer accesses\<close>
named_theorems vec_simps \<open>facts on sixteen-lane vectors\<close>

type_synonym u8 = "8 word"
type_synonym u16 = "16 word"
type_synonym u32 = "32 word"
type_synonym u64 = "64 word"
type_synonym bytes = "8 word list"

section \<open>Unsigned subtraction on size_t\<close>

definition size_mod :: nat where
  "size_mod = 2 ^ 64"

definition size_sub :: "nat \<Rightarrow> nat \<Rightarrow> nat" where
  "size_sub a b = (a + size_mod - b) mod size_mod"

lemma size_sub_eq [simp]: "b \<le> a \<Longrightarrow> a < size_mod \<Longrightarrow> size_sub a b = a - b"
proof -
  assume le: "b \<le> a" and lt: "a < size_mod"
  have "a + size_mod - b = (a - b) + size_mod" using le by (rule add_diff_assoc2 [symmetric])
  moreover have "a - b < size_mod" using lt by (rule less_imp_diff_less)
  ultimately show ?thesis unfolding size_sub_def by (simp only: mod_add_self2 mod_less)
qed

lemma small_size [simp]: "n \<le> 65536 \<Longrightarrow> n < size_mod"
proof -
  have "(65536 :: nat) < 2 ^ 64" by simp
  then show "n \<le> 65536 \<Longrightarrow> n < size_mod" unfolding size_mod_def by (rule le_less_trans [rotated])
qed

section \<open>Checked buffer accesses\<close>

definition rd :: "'a list \<Rightarrow> nat \<Rightarrow> nat \<Rightarrow> 'a list option" where
  "rd p i n = (if i + n \<le> length p then Some (take n (drop i p)) else None)"

definition rd1 :: "'a list \<Rightarrow> nat \<Rightarrow> 'a option" where
  "rd1 p i = (if i < length p then Some (p ! i) else None)"

definition wr :: "'a list \<Rightarrow> nat \<Rightarrow> 'a list \<Rightarrow> 'a list option" where
  "wr p i v = (if i + length v \<le> length p
               then Some (take i p @ v @ drop (i + length v) p) else None)"

lemma rd_Some_iff [buf_simps]:
  "rd p i n = Some v \<longleftrightarrow> i + n \<le> length p \<and> v = take n (drop i p)"
  by (auto simp: rd_def)

lemma rd_length: "rd p i n = Some v \<Longrightarrow> length v = n"
  by (auto simp: rd_def split: if_splits)

lemma rd1_Some_iff [buf_simps]: "rd1 p i = Some b \<longleftrightarrow> i < length p \<and> b = p ! i"
  by (auto simp: rd1_def)

lemma wr_Some_iff [buf_simps]:
  "wr p i v = Some q \<longleftrightarrow> i + length v \<le> length p \<and> q = take i p @ v @ drop (i + length v) p"
  by (auto simp: wr_def)

lemma wr_length: "wr p i v = Some q \<Longrightarrow> length q = length p"
  by (auto simp: wr_def split: if_splits)

lemma wr_bound: "wr p i v = Some q \<Longrightarrow> i + length v \<le> length p"
  by (auto simp: wr_def split: if_splits)

lemma rd_bound: "rd p i n = Some v \<Longrightarrow> i + n \<le> length p"
  by (auto simp: rd_def split: if_splits)

text \<open>Writing right behind a finished prefix extends the prefix.\<close>

lemma wr_extend:
  assumes "wr p (length a) v = Some q" and "take (length a) p = a"
  shows "take (length a + length v) q = a @ v"
    and "drop (length a + length v) q = drop (length a + length v) p"
  using assms by (auto simp: wr_Some_iff)

lemma wr_prefix: "length v \<le> length r \<Longrightarrow> wr (a @ r) (length a) v = Some (a @ v @ drop (length v) r)"
  by (simp add: wr_def)

lemma rd_append: "n \<le> length r \<Longrightarrow> rd (a @ r) (length a) n = Some (take n r)"
  by (simp add: rd_def)

section \<open>Blocks of a list\<close>

lemma take_add_drop: "take (i + n) xs = take i xs @ take n (drop i xs)"
  by (simp add: take_add)

lemma map2_replicate:
  "length xs = n \<Longrightarrow> map2 f xs (replicate n c) = map (\<lambda>x. f x c) xs"
  by (induction xs arbitrary: n) auto

lemma map2_replicate_left:
  "length xs = n \<Longrightarrow> map2 f (replicate n c) xs = map (f c) xs"
  by (induction xs arbitrary: n) auto

lemma map2_eq_map_zip_length: "length (map2 f xs ys) = min (length xs) (length ys)"
  by simp

lemma list_16_nth:
  assumes "length xs = 16"
  shows "xs = [xs ! 0, xs ! 1, xs ! 2, xs ! 3, xs ! 4, xs ! 5, xs ! 6, xs ! 7,
               xs ! 8, xs ! 9, xs ! 10, xs ! 11, xs ! 12, xs ! 13, xs ! 14, xs ! 15]"
proof -
  have "xs = map ((!) xs) [0..<16]" using assms by (metis map_nth)
  also have "[0..<16] = [0, 1, 2, 3, 4, 5, 6, 7, 8, 9, 10, 11, 12, 13, 14, 15 :: nat]"
    by (simp add: upt_rec)
  finally show ?thesis by simp
qed

section \<open>Exhaustive checks over bytes\<close>

text \<open>A property of every byte is a finite check, which the kernel evaluates.\<close>

lemma all_u8: "(\<And>n. n < 256 \<Longrightarrow> P (word_of_nat n)) \<Longrightarrow> P (x :: u8)"
proof -
  assume h: "\<And>n. n < 256 \<Longrightarrow> P (word_of_nat n)"
  have "unat x < 256" using unsigned_less [of x, where ?'a = nat] by simp
  from h [OF this] show ?thesis by simp
qed

text \<open>All bytes, written out so that a check over them is plain rewriting.\<close>

definition u8_all :: "u8 list" where
  "u8_all =
    [255, 254, 253, 252, 251, 250, 249, 248, 247, 246, 245, 244, 243, 242, 241, 240, 239, 238,
     237, 236, 235, 234, 233, 232, 231, 230, 229, 228, 227, 226, 225, 224, 223, 222, 221, 220,
     219, 218, 217, 216, 215, 214, 213, 212, 211, 210, 209, 208, 207, 206, 205, 204, 203, 202,
     201, 200, 199, 198, 197, 196, 195, 194, 193, 192, 191, 190, 189, 188, 187, 186, 185, 184,
     183, 182, 181, 180, 179, 178, 177, 176, 175, 174, 173, 172, 171, 170, 169, 168, 167, 166,
     165, 164, 163, 162, 161, 160, 159, 158, 157, 156, 155, 154, 153, 152, 151, 150, 149, 148,
     147, 146, 145, 144, 143, 142, 141, 140, 139, 138, 137, 136, 135, 134, 133, 132, 131, 130,
     129, 128, 127, 126, 125, 124, 123, 122, 121, 120, 119, 118, 117, 116, 115, 114, 113, 112,
     111, 110, 109, 108, 107, 106, 105, 104, 103, 102, 101, 100, 99, 98, 97, 96, 95, 94, 93,
     92, 91, 90, 89, 88, 87, 86, 85, 84, 83, 82, 81, 80, 79, 78, 77, 76, 75, 74, 73, 72, 71,
     70, 69, 68, 67, 66, 65, 64, 63, 62, 61, 60, 59, 58, 57, 56, 55, 54, 53, 52, 51, 50, 49,
     48, 47, 46, 45, 44, 43, 42, 41, 40, 39, 38, 37, 36, 35, 34, 33, 32, 31, 30, 29, 28, 27,
     26, 25, 24, 23, 22, 21, 20, 19, 18, 17, 16, 15, 14, 13, 12, 11, 10, 9, 8, 7, 6, 5, 4, 3,
     2, 1, 0]"

lemma u8_all_upt: "u8_all = rev (map word_of_nat [0..<256])"
  unfolding u8_all_def by (simp add: upt_rec)

lemma all_u8_check: "list_all P u8_all \<Longrightarrow> P (x :: u8)"
  unfolding u8_all_upt list_all_iff using all_u8 [of P x] by auto

lemma small_u8_check:
  assumes "list_all P (drop 192 u8_all)" and "(v :: u8) < 64"
  shows "P v"
proof -
  have "drop 192 u8_all = rev (map word_of_nat [0..<64])"
    unfolding u8_all_upt drop_rev length_map length_upt take_map by simp
  moreover have "v \<in> word_of_nat ` {0..<64}"
    using assms(2) by (intro image_eqI [of _ _ "unat v"]) (simp_all add: word_less_nat_alt)
  ultimately show ?thesis using assms(1) unfolding list_all_iff by auto
qed

lemma bit_u8_less: "bit (x :: u8) n \<Longrightarrow> n < 8"
  by (drule bit_imp_le_length) simp

lemma bit_u8_ge: "8 \<le> n \<Longrightarrow> \<not> bit (x :: u8) n"
  using bit_u8_less by force

lemma bit_u32_less: "bit (x :: u32) n \<Longrightarrow> n < 32"
  by (drule bit_imp_le_length) simp

lemma nat_less_8_cases:
  "(n :: nat) < LENGTH(8) \<Longrightarrow> P 7 \<Longrightarrow> P 6 \<Longrightarrow> P 5 \<Longrightarrow> P 4 \<Longrightarrow> P 3 \<Longrightarrow> P 2 \<Longrightarrow> P 1 \<Longrightarrow> P 0 \<Longrightarrow> P n"
  by (auto simp: less_Suc_eq numeral_eq_Suc)

lemma nat_less_16_cases:
  "(n :: nat) < 16 \<Longrightarrow> P 15 \<Longrightarrow> P 14 \<Longrightarrow> P 13 \<Longrightarrow> P 12 \<Longrightarrow> P 11 \<Longrightarrow> P 10 \<Longrightarrow> P 9 \<Longrightarrow> P 8 \<Longrightarrow>
     P 7 \<Longrightarrow> P 6 \<Longrightarrow> P 5 \<Longrightarrow> P 4 \<Longrightarrow> P 3 \<Longrightarrow> P 2 \<Longrightarrow> P 1 \<Longrightarrow> P 0 \<Longrightarrow> P n"
  by (auto simp: less_Suc_eq numeral_eq_Suc)

end
