(* ===== verification/Vec16.thy ===== *)
theory Vec16
  imports TG_Prelude
begin

text \<open>
  The sixteen-lane byte vectors (\<open>u8x16\<close>, clang's \<open>vector_size(16)\<close>) the three C kernels are
  written with. A vector is the list of its lanes. Lane-wise operators follow clang: arithmetic
  wraps in each lane, a comparison gives the lane \<open>255\<close> or \<open>0\<close>, shifts are logical.

  The kernels are compiled for two instruction sets and differ in their inline assembly, so the
  instruction is a value of \<open>arch\<close>:
  \<^item> \<open>tbl\<close> (aarch64) looks an index up and gives 0 for an index of 16 or more;
  \<^item> \<open>pshufb\<close> (x86-64) gives 0 where bit 7 of the index is set and otherwise uses its low four
    bits;
  \<^item> \<open>pmovmskb\<close> (x86-64) collects bit 7 of every lane;
  \<^item> \<open>ushl\<close> (aarch64) shifts a lane left by a signed count, right for a negative one.
\<close>

datatype arch = AArch64 | X86_64

type_synonym u8x16 = "8 word list"

definition load16 :: "bytes \<Rightarrow> nat \<Rightarrow> u8x16 option" where
  "load16 p i = rd p i 16"

definition store16 :: "bytes \<Rightarrow> nat \<Rightarrow> u8x16 \<Rightarrow> bytes option" where
  "store16 p i v = wr p i v"

definition splat :: "u8 \<Rightarrow> u8x16" where
  "splat c = replicate 16 c"

definition vlift :: "(u8 \<Rightarrow> u8 \<Rightarrow> u8) \<Rightarrow> u8x16 \<Rightarrow> u8x16 \<Rightarrow> u8x16" where
  "vlift f a b = map2 f a b"

abbreviation vadd :: "u8x16 \<Rightarrow> u8x16 \<Rightarrow> u8x16" where "vadd \<equiv> vlift (+)"
abbreviation vsub :: "u8x16 \<Rightarrow> u8x16 \<Rightarrow> u8x16" where "vsub \<equiv> vlift (-)"
abbreviation vand :: "u8x16 \<Rightarrow> u8x16 \<Rightarrow> u8x16" where "vand \<equiv> vlift (AND)"
abbreviation vor :: "u8x16 \<Rightarrow> u8x16 \<Rightarrow> u8x16" where "vor \<equiv> vlift (OR)"
abbreviation vxor :: "u8x16 \<Rightarrow> u8x16 \<Rightarrow> u8x16" where "vxor \<equiv> vlift (XOR)"
abbreviation vmin :: "u8x16 \<Rightarrow> u8x16 \<Rightarrow> u8x16" where "vmin \<equiv> vlift min"

definition vcmp :: "(u8 \<Rightarrow> u8 \<Rightarrow> bool) \<Rightarrow> u8x16 \<Rightarrow> u8x16 \<Rightarrow> u8x16" where
  "vcmp r a b = map2 (\<lambda>x y. if r x y then 255 else 0) a b"

definition vshr :: "u8x16 \<Rightarrow> nat \<Rightarrow> u8x16" where
  "vshr v n = map (drop_bit n) v"

definition vshl :: "u8x16 \<Rightarrow> nat \<Rightarrow> u8x16" where
  "vshl v n = map (push_bit n) v"

definition shufflevector :: "u8x16 \<Rightarrow> u8x16 \<Rightarrow> nat list \<Rightarrow> u8x16" where
  "shufflevector a b idx = map (\<lambda>k. (a @ b) ! k) idx"

section \<open>Instructions\<close>

definition tbl :: "u8x16 \<Rightarrow> u8x16 \<Rightarrow> u8x16" where
  "tbl table idx = map (\<lambda>k. if unat k < 16 then table ! unat k else 0) idx"

definition pshufb :: "u8x16 \<Rightarrow> u8x16 \<Rightarrow> u8x16" where
  "pshufb table idx = map (\<lambda>k. if bit k 7 then 0 else table ! unat (k AND 15)) idx"

definition reduce_min :: "u8x16 \<Rightarrow> u8" where
  "reduce_min v = foldr min v (- 1)"

definition reduce_max :: "u8x16 \<Rightarrow> u8" where
  "reduce_max v = foldr max v 0"

definition pmovmskb :: "u8x16 \<Rightarrow> nat" where
  "pmovmskb v = foldr (\<lambda>x acc. of_bool (bit x 7) + 2 * acc) v 0"

definition ushl :: "u8x16 \<Rightarrow> int list \<Rightarrow> u8x16" where
  "ushl v s = map2 (\<lambda>x k. if 0 \<le> k then push_bit (nat k) x else drop_bit (nat (- k)) x) v s"

section \<open>Lane-wise facts\<close>

lemma length_splat [simp]: "length (splat c) = 16"
  by (simp add: splat_def)

lemma nth_splat [simp]: "i < 16 \<Longrightarrow> splat c ! i = c"
  by (simp add: splat_def)

lemma length_vlift [simp]: "length (vlift f a b) = min (length a) (length b)"
  by (simp add: vlift_def)

lemma length_vcmp [simp]: "length (vcmp r a b) = min (length a) (length b)"
  by (simp add: vcmp_def)

lemma length_vshr [simp]: "length (vshr v n) = length v"
  by (simp add: vshr_def)

lemma length_vshl [simp]: "length (vshl v n) = length v"
  by (simp add: vshl_def)

lemma length_shufflevector [simp]: "length (shufflevector a b idx) = length idx"
  by (simp add: shufflevector_def)

lemma length_tbl [simp]: "length (tbl t idx) = length idx"
  by (simp add: tbl_def)

lemma length_pshufb [simp]: "length (pshufb t idx) = length idx"
  by (simp add: pshufb_def)

lemma length_ushl [simp]: "length (ushl v s) = min (length v) (length s)"
  by (simp add: ushl_def)

lemma vlift_splat [vec_simps]:
  "length v = 16 \<Longrightarrow> vlift f v (splat c) = map (\<lambda>x. f x c) v"
  by (simp add: vlift_def splat_def map2_replicate)

lemma splat_vlift [vec_simps]: "length v = 16 \<Longrightarrow> vlift f (splat c) v = map (f c) v"
  by (simp add: vlift_def splat_def map2_replicate_left)

lemma vcmp_splat [vec_simps]:
  "length v = 16 \<Longrightarrow> vcmp r v (splat c) = map (\<lambda>x. if r x c then 255 else 0) v"
  by (simp add: vcmp_def splat_def map2_replicate)

lemma map2_map_map: "map2 h (map f v) (map g v) = map (\<lambda>x. h (f x) (g x)) v"
  by (induction v) auto

lemma vlift_map_map [vec_simps]: "vlift h (map f v) (map g v) = map (\<lambda>x. h (f x) (g x)) v"
  by (simp add: vlift_def map2_map_map)

lemma vlift_map_self [vec_simps]: "vlift h v (map g v) = map (\<lambda>x. h x (g x)) v"
  using vlift_map_map [of h id v g] by simp

lemma vlift_self_map [vec_simps]: "vlift h (map f v) v = map (\<lambda>x. h (f x) x) v"
  using vlift_map_map [of h f v id] by simp

lemma vshr_map [vec_simps]: "vshr v n = map (drop_bit n) v"
  by (simp add: vshr_def)

lemma vshl_map [vec_simps]: "vshl v n = map (push_bit n) v"
  by (simp add: vshl_def)

lemma nth_vlift [simp]: "i < length a \<Longrightarrow> i < length b \<Longrightarrow> vlift f a b ! i = f (a ! i) (b ! i)"
  by (simp add: vlift_def)

section \<open>Reductions\<close>

lemma foldr_max_zero: "foldr max v (0 :: u8) = 0 \<longleftrightarrow> (\<forall>x \<in> set v. x = 0)"
proof (induction v)
  case (Cons a v)
  have "max a (foldr max v 0) = 0 \<longleftrightarrow> a = 0 \<and> foldr max v (0 :: u8) = 0"
    by (metis max.cobounded1 max.cobounded2 max.idem word_zero_le order_antisym)
  with Cons show ?case by simp
qed simp

lemma reduce_max_nonzero: "reduce_max v \<noteq> 0 \<longleftrightarrow> (\<exists>x \<in> set v. x \<noteq> 0)"
  by (simp add: reduce_max_def foldr_max_zero)

lemma foldr_min_zero: "foldr min v (- 1 :: u8) = 0 \<longleftrightarrow> (\<exists>x \<in> set v. x = 0)"
proof (induction v)
  case (Cons a v)
  have "min a (foldr min v (- 1)) = 0 \<longleftrightarrow> a = 0 \<or> foldr min v (- 1 :: u8) = 0"
    by (metis min.commute min_def word_zero_le order_antisym)
  with Cons show ?case by auto
qed simp

lemma reduce_min_nonzero: "reduce_min v \<noteq> 0 \<longleftrightarrow> (\<forall>x \<in> set v. x \<noteq> 0)"
  by (auto simp: reduce_min_def foldr_min_zero)

lemma pmovmskb_zero: "pmovmskb v = 0 \<longleftrightarrow> (\<forall>x \<in> set v. \<not> bit x 7)"
  unfolding pmovmskb_def by (induction v) auto

lemma pmovmskb_bound: "pmovmskb v < 2 ^ length v"
  unfolding pmovmskb_def by (induction v) (auto simp: of_bool_def)

lemma pmovmskb_full: "pmovmskb v = 2 ^ length v - 1 \<longleftrightarrow> (\<forall>x \<in> set v. bit x 7)"
proof (induction v)
  case (Cons a v)
  let ?m = "pmovmskb v" and ?n = "2 ^ length v :: nat"
  have lt: "?m < ?n" by (rule pmovmskb_bound)
  have step: "pmovmskb (a # v) = of_bool (bit a 7) + 2 * ?m"
    by (simp add: pmovmskb_def)
  show ?case
  proof (cases "bit a 7")
    case True
    have "1 + 2 * ?m = 2 * ?n - 1 \<longleftrightarrow> ?m = ?n - 1"
      using lt by presburger
    with True step have "pmovmskb (a # v) = 2 ^ length (a # v) - 1 \<longleftrightarrow> ?m = ?n - 1"
      by simp
    with Cons True show ?thesis by simp
  next
    case False
    have "2 * ?m \<noteq> 2 * ?n - 1"
      using lt by presburger
    with False step show ?thesis by simp
  qed
qed (simp add: pmovmskb_def)

end
