(* ===== verification/ByteAlg.thy ===== *)
theory ByteAlg
  imports Vec16
begin

text \<open>
  \<open>internal/bytealg/vector_tinygo.c\<close>: the WebSocket mask, the byte search and the header-value
  check the protocol parsers share. Each kernel takes a pointer and the length of the Go slice
  behind it; here both are the byte list \<open>p\<close>, and \<open>length p\<close> is the C argument \<open>len\<close>.

  Each kernel is shown to stay inside its slice and to compute a one-line specification: the mask
  is the lane-by-lane exclusive or of the whole-vector prefix, the search returns the first index,
  the header check accepts exactly the bytes RFC 9110 allows in a field value. The two instruction
  sets therefore agree.
\<close>

definition any_lane :: "arch \<Rightarrow> u8x16 \<Rightarrow> bool" where
  "any_lane a v = (case a of AArch64 \<Rightarrow> reduce_max v \<noteq> 0 | X86_64 \<Rightarrow> pmovmskb v \<noteq> 0)"

section \<open>tinygodriver\_mask\<close>

definition le_bytes32 :: "u32 \<Rightarrow> bytes" where
  "le_bytes32 k = [ucast k, ucast (drop_bit 8 k), ucast (drop_bit 16 k), ucast (drop_bit 24 k)]"

definition splat_key :: "u32 \<Rightarrow> u8x16" where
  "splat_key key = le_bytes32 key @ le_bytes32 key @ le_bytes32 key @ le_bytes32 key"

definition mask_block :: "bytes \<Rightarrow> nat \<Rightarrow> u8x16 \<Rightarrow> bytes option" where
  "mask_block p i k = do {
     v \<leftarrow> load16 p i;
     store16 p i (vxor v k)
   }"

lemma mask_blockD:
  "mask_block p i k = Some q \<Longrightarrow> length q = length p \<and> i + 16 \<le> length p"
  by (auto simp: mask_block_def store16_def load16_def bind_eq_Some_conv dest: wr_length rd_bound)

function mask_loop64 :: "bytes \<Rightarrow> nat \<Rightarrow> u8x16 \<Rightarrow> (bytes \<times> nat) option" where
  "mask_loop64 p i k =
     (if 64 \<le> size_sub (length p) i then do {
        p1 \<leftarrow> mask_block p i k;
        p2 \<leftarrow> mask_block p1 (i + 16) k;
        p3 \<leftarrow> mask_block p2 (i + 32) k;
        p4 \<leftarrow> mask_block p3 (i + 48) k;
        mask_loop64 p4 (i + 64) k
      } else Some (p, i))"
  by pat_completeness auto
termination
  by (relation "measure (\<lambda>(p, i, k). length p - i)")
    (auto dest!: mask_blockD)

function mask_loop16 :: "bytes \<Rightarrow> nat \<Rightarrow> u8x16 \<Rightarrow> (bytes \<times> nat) option" where
  "mask_loop16 p i k =
     (if 16 \<le> size_sub (length p) i then do {
        p1 \<leftarrow> mask_block p i k;
        mask_loop16 p1 (i + 16) k
      } else Some (p, i))"
  by pat_completeness auto
termination
  by (relation "measure (\<lambda>(p, i, k). length p - i)")
    (auto dest!: mask_blockD)

declare mask_loop64.simps [simp del] mask_loop16.simps [simp del]

definition tinygodriver_mask :: "bytes \<Rightarrow> u32 \<Rightarrow> (bytes \<times> nat) option" where
  "tinygodriver_mask p key = do {
     (p1, i) \<leftarrow> mask_loop64 p 0 (splat_key key);
     mask_loop16 p1 i (splat_key key)
   }"

section \<open>tinygodriver\_index\_byte\<close>

text \<open>The scalar loop \<open>for (; j < stop; j++) if (p[j] == c) return j\<close>; \<open>None\<close> inside the
  result means the loop ran to its end.\<close>

function scan_byte :: "bytes \<Rightarrow> nat \<Rightarrow> nat \<Rightarrow> u8 \<Rightarrow> nat option option" where
  "scan_byte p j stop c =
     (if j < stop then do {
        b \<leftarrow> rd1 p j;
        if b = c then Some (Some j) else scan_byte p (j + 1) stop c
      } else Some None)"
  by pat_completeness auto
termination
  by (relation "measure (\<lambda>(p, j, stop, c). stop - j)") auto

function index_loop :: "arch \<Rightarrow> bytes \<Rightarrow> nat \<Rightarrow> u8 \<Rightarrow> (nat + nat) option" where
  "index_loop a p i c =
     (if 16 \<le> size_sub (length p) i then do {
        v \<leftarrow> load16 p i;
        if any_lane a (vcmp (=) v (splat c)) then do {
          r \<leftarrow> scan_byte p i (i + 16) c;
          case r of Some j \<Rightarrow> Some (Inl j) | None \<Rightarrow> index_loop a p (i + 16) c
        } else index_loop a p (i + 16) c
      } else Some (Inr i))"
  by pat_completeness auto
termination
  by (relation "measure (\<lambda>(a, p, i, c). length p - i)")
    (auto simp: load16_def dest!: rd_bound)

declare scan_byte.simps [simp del] index_loop.simps [simp del]

text \<open>The index is a \<open>size_t\<close>, the result a \<open>ptrdiff_t\<close>.\<close>

definition to_ptrdiff :: "nat \<Rightarrow> int" where
  "to_ptrdiff n = signed_take_bit 63 (int n)"

definition tinygodriver_index_byte :: "arch \<Rightarrow> bytes \<Rightarrow> u8 \<Rightarrow> int option" where
  "tinygodriver_index_byte a p c = do {
     r \<leftarrow> index_loop a p 0 c;
     case r of
       Inl j \<Rightarrow> Some (to_ptrdiff j)
     | Inr i \<Rightarrow> do {
         s \<leftarrow> scan_byte p i (length p) c;
         Some (case s of Some j \<Rightarrow> to_ptrdiff j | None \<Rightarrow> - 1)
       }
   }"

section \<open>tinygodriver\_header\_value\<close>

function header_loop :: "arch \<Rightarrow> bytes \<Rightarrow> nat \<Rightarrow> (bool \<times> nat) option" where
  "header_loop a p i =
     (if 16 \<le> size_sub (length p) i then do {
        v \<leftarrow> load16 p i;
        if any_lane a (vor (vand (vcmp (<) v (splat 32)) (vcmp (\<noteq>) v (splat 9)))
                           (vcmp (=) v (splat 127)))
        then Some (False, i)
        else header_loop a p (i + 16)
      } else Some (True, i))"
  by pat_completeness auto
termination
  by (relation "measure (\<lambda>(a, p, i). length p - i)")
    (auto simp: load16_def dest!: rd_bound)

function header_tail :: "bytes \<Rightarrow> nat \<Rightarrow> bool option" where
  "header_tail p i =
     (if i < length p then do {
        b \<leftarrow> rd1 p i;
        if (b < 32 \<and> b \<noteq> 9) \<or> b = 127 then Some False else header_tail p (i + 1)
      } else Some True)"
  by pat_completeness auto
termination
  by (relation "measure (\<lambda>(p, i). length p - i)") auto

declare header_loop.simps [simp del] header_tail.simps [simp del]

definition tinygodriver_header_value :: "arch \<Rightarrow> bytes \<Rightarrow> bool option" where
  "tinygodriver_header_value a p = do {
     (ok, i) \<leftarrow> header_loop a p 0;
     if \<not> ok then Some False else header_tail p i
   }"

section \<open>Specifications\<close>

text \<open>The mask of RFC 6455: byte \<open>j\<close> is combined with key byte \<open>j mod 4\<close>.\<close>

definition mask_spec :: "u32 \<Rightarrow> bytes \<Rightarrow> bytes" where
  "mask_spec key p = map (\<lambda>j. (p ! j) XOR (le_bytes32 key ! (j mod 4))) [0..<length p]"

text \<open>The bytes of an HTTP field value: HTAB, visible ASCII, space and obs-text.\<close>

definition header_byte_ok :: "u8 \<Rightarrow> bool" where
  "header_byte_ok b \<longleftrightarrow> b = 9 \<or> 32 \<le> b \<and> b \<noteq> 127"

fun index_spec :: "bytes \<Rightarrow> u8 \<Rightarrow> nat option" where
  "index_spec [] c = None"
| "index_spec (b # bs) c = (if b = c then Some 0 else map_option Suc (index_spec bs c))"

section \<open>The reductions on comparison masks\<close>

lemma any_lane_map:
  "any_lane a (map (\<lambda>x. if P x then 255 else 0) v) \<longleftrightarrow> (\<exists>x \<in> set v. P x)"
  unfolding any_lane_def reduce_max_nonzero pmovmskb_zero by (cases a; induction v) auto

lemma header_lane:
  "(((if x < 32 then 255 else 0) AND (if x \<noteq> 9 then 255 else 0)) OR (if x = 127 then 255 else 0))
     = (if \<not> header_byte_ok x then 255 else (0 :: u8))"
  by (auto simp: header_byte_ok_def not_less)

section \<open>Correctness of the mask\<close>

lemma length_splat_key [simp]: "length (splat_key key) = 16"
  by (simp add: splat_key_def le_bytes32_def)

lemma splat_key_nth: "m < 16 \<Longrightarrow> splat_key key ! m = le_bytes32 key ! (m mod 4)"
  by (erule nat_less_16_cases) (simp_all add: splat_key_def le_bytes32_def)

lemma mask_block_nth:
  assumes "i + 16 \<le> length p" and "4 dvd i"
  shows "\<exists>q. mask_block p i (splat_key key) = Some q \<and> length q = length p \<and>
     (\<forall>j < length p. q ! j = (if i \<le> j \<and> j < i + 16
        then (p ! j) XOR (le_bytes32 key ! (j mod 4)) else p ! j))"
proof -
  let ?v = "vxor (take 16 (drop i p)) (splat_key key)"
  let ?q = "take i p @ ?v @ drop (i + 16) p"
  have len: "length ?v = 16" using assms by simp
  have run: "mask_block p i (splat_key key) = Some ?q"
    using assms len by (simp add: mask_block_def load16_def store16_def rd_def wr_def)
  have nth: "?q ! j = (if i \<le> j \<and> j < i + 16
      then (p ! j) XOR (le_bytes32 key ! (j mod 4)) else p ! j)" if "j < length p" for j
  proof -
    have "(j - i) mod 4 = j mod 4" if "i \<le> j"
      using that assms(2) by (metis dvd_diff_nat mod_eq_dvd_iff_nat le_add_diff_inverse2 add_diff_cancel_left' mod_add_self2 dvd_def mod_mult_self2 add.commute)
    then show ?thesis
      using that assms len by (auto simp: nth_append splat_key_nth)
  qed
  show ?thesis using run nth assms by (intro exI [of _ ?q]) auto
qed

definition masked_between :: "u32 \<Rightarrow> bytes \<Rightarrow> nat \<Rightarrow> nat \<Rightarrow> bytes \<Rightarrow> bool" where
  "masked_between key p i n q \<longleftrightarrow> length q = length p \<and>
     (\<forall>j < length p. q ! j = (if i \<le> j \<and> j < n
        then (p ! j) XOR (le_bytes32 key ! (j mod 4)) else p ! j))"

lemma masked_between_refl: "masked_between key p i i p"
  by (auto simp: masked_between_def)

lemma masked_between_trans:
  "masked_between key p i m q \<Longrightarrow> masked_between key q m n r \<Longrightarrow> i \<le> m \<Longrightarrow> m \<le> n
     \<Longrightarrow> masked_between key p i n r"
  by (auto simp: masked_between_def)

lemma masked_between_length: "masked_between key p i n q \<Longrightarrow> length q = length p"
  by (simp add: masked_between_def)

lemma mask_block_masked:
  assumes "i + 16 \<le> length p" and "4 dvd i"
  obtains q where "mask_block p i (splat_key key) = Some q" and "masked_between key p i (i + 16) q"
  using mask_block_nth [OF assms, of key] by (auto simp: masked_between_def)

lemma mask_loop16_masked:
  assumes "i \<le> length p" and "length p < size_mod" and "4 dvd i"
  shows "\<exists>q. mask_loop16 p i (splat_key key) = Some (q, i + 16 * ((length p - i) div 16)) \<and>
     masked_between key p i (i + 16 * ((length p - i) div 16)) q"
  using assms
proof (induction p i "splat_key key" rule: mask_loop16.induct)
  case (1 p i)
  show ?case
  proof (cases "16 \<le> length p - i")
    case True
    then have room: "i + 16 \<le> length p" by simp
    obtain q where q: "mask_block p i (splat_key key) = Some q"
      and mq: "masked_between key p i (i + 16) q"
      using mask_block_masked [OF room "1.prems"(3)] .
    have len: "length q = length p" using mq by (rule masked_between_length)
    obtain r where r: "mask_loop16 q (i + 16) (splat_key key) =
          Some (r, i + 16 + 16 * ((length q - (i + 16)) div 16))"
      and mr: "masked_between key q (i + 16) (i + 16 + 16 * ((length q - (i + 16)) div 16)) r"
      using "1.hyps" [OF _ q] "1.prems" room len True by fastforce
    have n: "i + 16 + 16 * ((length q - (i + 16)) div 16) = i + 16 * ((length p - i) div 16)"
      using True len by (simp add: le_div_geq)
    have "masked_between key p i (i + 16 * ((length p - i) div 16)) r"
      using masked_between_trans [OF mq mr] n by simp
    moreover have "mask_loop16 p i (splat_key key) = Some (r, i + 16 * ((length p - i) div 16))"
      using True "1.prems" q r n by (simp add: mask_loop16.simps [of p i])
    ultimately show ?thesis by blast
  next
    case False
    with "1.prems" show ?thesis
      by (auto simp: mask_loop16.simps [of p i] masked_between_refl)
  qed
qed

lemma mask_four_blocks:
  assumes "i + 64 \<le> length p" and "4 dvd i"
  obtains p1 p2 p3 p4 where "mask_block p i (splat_key key) = Some p1"
    and "mask_block p1 (i + 16) (splat_key key) = Some p2"
    and "mask_block p2 (i + 32) (splat_key key) = Some p3"
    and "mask_block p3 (i + 48) (splat_key key) = Some p4"
    and "masked_between key p i (i + 64) p4"
proof -
  have dvds: "4 dvd i + 16" "4 dvd i + 32" "4 dvd i + 48" using assms(2) by presburger+
  obtain p1 where p1: "mask_block p i (splat_key key) = Some p1" "masked_between key p i (i + 16) p1"
    using mask_block_masked [of i p key] assms by auto
  obtain p2 where p2: "mask_block p1 (i + 16) (splat_key key) = Some p2"
    "masked_between key p1 (i + 16) (i + 16 + 16) p2"
    using mask_block_masked [of "i + 16" p1 key] assms dvds masked_between_length [OF p1(2)] by auto
  obtain p3 where p3: "mask_block p2 (i + 32) (splat_key key) = Some p3"
    "masked_between key p2 (i + 32) (i + 32 + 16) p3"
    using mask_block_masked [of "i + 32" p2 key] assms dvds
      masked_between_length [OF p1(2)] masked_between_length [OF p2(2)] by auto
  obtain p4 where p4: "mask_block p3 (i + 48) (splat_key key) = Some p4"
    "masked_between key p3 (i + 48) (i + 48 + 16) p4"
    using mask_block_masked [of "i + 48" p3 key] assms dvds masked_between_length [OF p1(2)]
      masked_between_length [OF p2(2)] masked_between_length [OF p3(2)] by auto
  have "masked_between key p i (i + 32) p2"
    using masked_between_trans [OF p1(2) p2(2)] by (simp add: ac_simps)
  from masked_between_trans [OF this p3(2)] have "masked_between key p i (i + 48) p3"
    by (simp add: ac_simps)
  from masked_between_trans [OF this p4(2)] have "masked_between key p i (i + 64) p4"
    by (simp add: ac_simps)
  then show ?thesis using that p1(1) p2(1) p3(1) p4(1) by blast
qed

lemma mask_loop64_masked:
  assumes "i \<le> length p" and "length p < size_mod" and "4 dvd i"
  shows "\<exists>q. mask_loop64 p i (splat_key key) = Some (q, i + 64 * ((length p - i) div 64)) \<and>
     masked_between key p i (i + 64 * ((length p - i) div 64)) q"
  using assms
proof (induction p i "splat_key key" rule: mask_loop64.induct)
  case (1 p i)
  show ?case
  proof (cases "64 \<le> length p - i")
    case True
    then have room: "i + 64 \<le> length p" by simp
    obtain p1 p2 p3 q where b: "mask_block p i (splat_key key) = Some p1"
      "mask_block p1 (i + 16) (splat_key key) = Some p2"
      "mask_block p2 (i + 32) (splat_key key) = Some p3"
      "mask_block p3 (i + 48) (splat_key key) = Some q"
      and mq: "masked_between key p i (i + 64) q"
      using mask_four_blocks [OF room "1.prems"(3)] .
    have len: "length q = length p" using mq by (rule masked_between_length)
    have "4 dvd i + 64" using "1.prems"(3) by presburger
    then obtain r where r: "mask_loop64 q (i + 64) (splat_key key) =
          Some (r, i + 64 + 64 * ((length q - (i + 64)) div 64))"
      and mr: "masked_between key q (i + 64) (i + 64 + 64 * ((length q - (i + 64)) div 64)) r"
      using "1.hyps" [OF _ b] "1.prems" room len True by fastforce
    have n: "i + 64 + 64 * ((length q - (i + 64)) div 64) = i + 64 * ((length p - i) div 64)"
      using True len by (simp add: le_div_geq)
    have "masked_between key p i (i + 64 * ((length p - i) div 64)) r"
      using masked_between_trans [OF mq mr] n by simp
    moreover have "mask_loop64 p i (splat_key key) = Some (r, i + 64 * ((length p - i) div 64))"
      using True "1.prems" b r n by (simp add: mask_loop64.simps [of p i])
    ultimately show ?thesis by blast
  next
    case False
    with "1.prems" show ?thesis
      by (auto simp: mask_loop64.simps [of p i] masked_between_refl)
  qed
qed

lemma masked_between_spec:
  assumes "masked_between key p 0 n q" and "n \<le> length p"
  shows "q = mask_spec key (take n p) @ drop n p"
  using assms by (intro nth_equalityI) (auto simp: masked_between_def mask_spec_def nth_append)

text \<open>C16. The WebSocket mask kernel never leaves its slice. It masks exactly the longest prefix of
  whole 16-byte vectors, byte \<open>j\<close> with byte \<open>j mod 4\<close> of the little-endian key, leaves the rest of
  the slice untouched, and returns the length of that prefix.\<close>

theorem mask_correct:
  assumes "length p < size_mod"
  shows "tinygodriver_mask p key =
    (let n = 16 * (length p div 16) in Some (mask_spec key (take n p) @ drop n p, n))"
proof -
  let ?m = "64 * (length p div 64)" and ?n = "16 * (length p div 16)"
  obtain q where q: "mask_loop64 p 0 (splat_key key) = Some (q, ?m)"
    and mq: "masked_between key p 0 ?m q"
    using mask_loop64_masked [of 0 p key] assms by auto
  have len: "length q = length p" using mq by (rule masked_between_length)
  have le: "?m \<le> length q" and d: "4 dvd ?m" using len by simp_all
  have n: "?m + 16 * ((length q - ?m) div 16) = ?n"
  proof -
    have "length p div 16 = ((length p - ?m) + (4 * (length p div 64)) * 16) div 16" by simp
    also have "\<dots> = 4 * (length p div 64) + (length p - ?m) div 16"
      by (simp only: div_mult_self1 add.commute)
    finally show ?thesis unfolding len by simp
  qed
  obtain r where r: "mask_loop16 q ?m (splat_key key) = Some (r, ?n)"
    and mr: "masked_between key q ?m ?n r"
    using mask_loop16_masked [OF le _ d, of key] assms len n by auto
  have "masked_between key p 0 ?n r"
    using masked_between_trans [OF mq mr] n by simp
  then have "r = mask_spec key (take ?n p) @ drop ?n p"
    by (rule masked_between_spec) simp
  with q r show ?thesis by (simp add: tinygodriver_mask_def Let_def)
qed

theorem mask_correct_witness:
  "length (replicate 17 (7 :: u8)) < size_mod \<and>
   tinygodriver_mask (replicate 17 7) 0x04030201 =
     Some ([6, 5, 4, 3, 6, 5, 4, 3, 6, 5, 4, 3, 6, 5, 4, 3, 7], 16)"
proof -
  have h: "length (replicate 17 (7 :: u8)) < size_mod" by simp
  have "mask_spec 0x04030201 (replicate 16 7) = [6, 5, 4, 3, 6, 5, 4, 3, 6, 5, 4, 3, 6, 5, 4, 3]"
    by (simp add: mask_spec_def le_bytes32_def upt_rec)
  moreover have "take 16 (replicate 17 (7 :: u8)) = replicate 16 7"
    and "drop 16 (replicate 17 (7 :: u8)) = [7]"
    by simp_all
  ultimately show ?thesis using h mask_correct [OF h, of "0x04030201"] by (simp add: Let_def)
qed

section \<open>Correctness of the search\<close>

lemma index_spec_None: "index_spec p c = None \<longleftrightarrow> c \<notin> set p"
  by (induction p) auto

lemma index_spec_append:
  "index_spec (p @ q) c = (case index_spec p c of Some j \<Rightarrow> Some j
     | None \<Rightarrow> map_option (\<lambda>j. length p + j) (index_spec q c))"
  by (induction p) (cases "index_spec q c"; auto split: option.splits)+

lemma scan_byte_spec:
  assumes "i \<le> stop" and "stop \<le> length p"
  shows "scan_byte p i stop c =
    Some (map_option (\<lambda>j. i + j) (index_spec (take (stop - i) (drop i p)) c))"
  using assms
proof (induction p i stop c rule: scan_byte.induct)
  case (1 p i stop c)
  show ?case
  proof (cases "i < stop")
    case True
    then have "take (stop - i) (drop i p) = p ! i # take (stop - Suc i) (drop (Suc i) p)"
      using "1.prems" by (metis Cons_nth_drop_Suc Suc_diff_Suc less_le_trans take_Suc_Cons)
    with "1.IH" [OF True] "1.prems" True show ?thesis
      by (auto simp: scan_byte.simps [of p i] rd1_def option.map_comp comp_def)
  next
    case False
    with "1.prems" show ?thesis by (simp add: scan_byte.simps)
  qed
qed

lemma index_loop_spec:
  assumes "i \<le> length p" and "length p < size_mod" and "c \<notin> set (take i p)"
  shows "\<exists>r. index_loop a p i c = Some r \<and>
    (case r of Inl j \<Rightarrow> index_spec p c = Some j
     | Inr k \<Rightarrow> k \<le> length p \<and> c \<notin> set (take k p))"
  using assms
proof (induction a p i c rule: index_loop.induct)
  case (1 a p i c)
  show ?case
  proof (cases "16 \<le> length p - i")
    case True
    let ?v = "take 16 (drop i p)"
    have room: "i + 16 \<le> length p" and lv: "length ?v = 16" using True by simp_all
    have ld: "load16 p i = Some ?v" using room by (simp add: load16_def rd_def)
    have any: "any_lane a (vcmp (=) ?v (splat c)) \<longleftrightarrow> c \<in> set ?v"
      using lv by (auto simp: vcmp_splat any_lane_map)
    have scan: "scan_byte p i (i + 16) c = Some (map_option (\<lambda>j. i + j) (index_spec ?v c))"
      using scan_byte_spec [of i "i + 16" p c] room by simp
    have split: "take (i + 16) p = take i p @ ?v" by (rule take_add)
    show ?thesis
    proof (cases "c \<in> set ?v")
      case hit: True
      then obtain j where j: "index_spec ?v c = Some j"
        using index_spec_None [of ?v c] by auto
      have "p = take i p @ ?v @ drop (i + 16) p"
        by (metis append.assoc append_take_drop_id split)
      then have "index_spec p c = Some (i + j)"
        using "1.prems" j index_spec_None [of "take i p" c] room
        by (metis index_spec_append option.simps(4,5,9) length_take min.absorb2)
      with True "1.prems" ld any hit scan j show ?thesis
        by (simp add: index_loop.simps [of a p i])
    next
      case miss: False
      then have "c \<notin> set (take (i + 16) p)" using "1.prems" split by simp
      with "1.IH"(2) [OF _ ld] True "1.prems" room any miss have
        "\<exists>r. index_loop a p (i + 16) c = Some r \<and>
          (case r of Inl j \<Rightarrow> index_spec p c = Some j
           | Inr k \<Rightarrow> k \<le> length p \<and> c \<notin> set (take k p))"
        by simp
      with True "1.prems" ld any miss show ?thesis
        by (simp add: index_loop.simps [of a p i])
    qed
  next
    case False
    with "1.prems" show ?thesis by (simp add: index_loop.simps [of a p i])
  qed
qed

lemma index_spec_less: "index_spec p c = Some j \<Longrightarrow> j < length p"
  by (induction p arbitrary: j) (auto split: if_splits)

lemma to_ptrdiff_id: "n < 2 ^ 63 \<Longrightarrow> to_ptrdiff n = int n"
  using signed_take_bit_int_eq_self [of 63 "int n"] by (simp add: to_ptrdiff_def)

text \<open>C17. The byte search never reads outside its slice and, on both instruction sets, returns the
  first index holding the byte, or \<open>-1\<close> when there is none. The index is returned as a \<open>ptrdiff_t\<close>, which
  is the index itself for every slice of at most \<open>2 ^ 63\<close> bytes.\<close>

theorem index_byte_correct:
  assumes "length p < size_mod"
  shows "tinygodriver_index_byte a p c = Some (case index_spec p c of Some j \<Rightarrow> to_ptrdiff j | None \<Rightarrow> - 1) \<and>
    (length p \<le> 2 ^ 63 \<longrightarrow>
      tinygodriver_index_byte a p c = Some (case index_spec p c of Some j \<Rightarrow> int j | None \<Rightarrow> - 1))"
proof -
  obtain r where r: "index_loop a p 0 c = Some r"
    and post: "case r of Inl j \<Rightarrow> index_spec p c = Some j
      | Inr k \<Rightarrow> k \<le> length p \<and> c \<notin> set (take k p)"
    using index_loop_spec [of 0 p c a] assms by auto
  have "tinygodriver_index_byte a p c = Some (case index_spec p c of Some j \<Rightarrow> to_ptrdiff j | None \<Rightarrow> - 1)"
  proof (cases r)
    case (Inl j)
    with r post show ?thesis by (simp add: tinygodriver_index_byte_def)
  next
    case (Inr k)
    with post have k: "k \<le> length p" and none: "index_spec (take k p) c = None"
      by (simp_all add: index_spec_None)
    have "index_spec p c = map_option (\<lambda>j. k + j) (index_spec (drop k p) c)"
      using index_spec_append [of "take k p" "drop k p" c] none k by simp
    with r Inr k show ?thesis
      by (simp add: tinygodriver_index_byte_def scan_byte_spec split: option.split)
  qed
  moreover have "to_ptrdiff j = int j" if "length p \<le> 2 ^ 63" "index_spec p c = Some j" for j
    using that index_spec_less [OF that(2)] by (intro to_ptrdiff_id) linarith
  ultimately show ?thesis by (auto split: option.split)
qed

theorem index_byte_correct_witness:
  "length (replicate 20 0 @ [5, 6, 5 :: u8]) < size_mod \<and>
   tinygodriver_index_byte X86_64 (replicate 20 0 @ [5, 6, 5]) 6 = Some 21"
proof -
  have h: "length (replicate 20 0 @ [5, 6, 5 :: u8]) < size_mod" by simp
  have "index_spec (replicate 20 0 @ [5, 6, 5]) 6 = Some 21" by code_simp
  with h index_byte_correct [OF h, of X86_64 6] to_ptrdiff_id [of 21] show ?thesis by simp
qed

section \<open>Correctness of the header check\<close>

lemma header_tail_spec:
  "i \<le> length p \<Longrightarrow> header_tail p i = Some (\<forall>b \<in> set (drop i p). header_byte_ok b)"
proof (induction p i rule: header_tail.induct)
  case (1 p i)
  show ?case
  proof (cases "i < length p")
    case True
    then have "drop i p = p ! i # drop (Suc i) p" by (simp add: Cons_nth_drop_Suc)
    with True 1 show ?thesis
      by (auto simp: header_tail.simps [of p i] rd1_def header_byte_ok_def not_less)
  next
    case False
    with 1 show ?thesis by (simp add: header_tail.simps)
  qed
qed

lemma header_loop_spec:
  assumes "i \<le> length p" and "length p < size_mod" and "\<forall>b \<in> set (take i p). header_byte_ok b"
  shows "\<exists>ok k. header_loop a p i = Some (ok, k) \<and>
    (if ok then k \<le> length p \<and> (\<forall>b \<in> set (take k p). header_byte_ok b)
     else \<not> (\<forall>b \<in> set p. header_byte_ok b))"
  using assms
proof (induction a p i rule: header_loop.induct)
  case (1 a p i)
  show ?case
  proof (cases "16 \<le> length p - i")
    case True
    let ?v = "take 16 (drop i p)"
    have room: "i + 16 \<le> length p" and lv: "length ?v = 16" using True by simp_all
    have ld: "load16 p i = Some ?v" using room by (simp add: load16_def rd_def)
    have any: "any_lane a (vor (vand (vcmp (<) ?v (splat 32)) (vcmp (\<noteq>) ?v (splat 9)))
          (vcmp (=) ?v (splat 127))) \<longleftrightarrow> (\<exists>b \<in> set ?v. \<not> header_byte_ok b)"
      unfolding vcmp_splat [OF lv] vlift_map_map header_lane by (rule any_lane_map)
    show ?thesis
    proof (cases "\<exists>b \<in> set ?v. \<not> header_byte_ok b")
      case bad: True
      then have "\<not> (\<forall>b \<in> set p. header_byte_ok b)" by (meson in_set_dropD in_set_takeD)
      moreover have "header_loop a p i = Some (False, i)"
        using True "1.prems" ld any bad by (simp add: header_loop.simps [of a p i])
      ultimately show ?thesis by (intro exI [of _ False] exI [of _ i]) simp
    next
      case good: False
      have "set (take (i + 16) p) = set (take i p) \<union> set ?v" by (simp add: take_add)
      with good "1.prems" have "\<forall>b \<in> set (take (i + 16) p). header_byte_ok b" by auto
      moreover have "header_loop a p i = header_loop a p (i + 16)"
        using True "1.prems" ld any good by (simp add: header_loop.simps [of a p i])
      ultimately show ?thesis
        using "1.IH" [OF _ ld] True "1.prems" room any good by simp
    qed
  next
    case False
    with "1.prems" have "header_loop a p i = Some (True, i)"
      by (simp add: header_loop.simps [of a p i])
    with "1.prems" show ?thesis by (intro exI [of _ True] exI [of _ i]) simp
  qed
qed

text \<open>C18. The header-value check never reads outside its slice and, on both instruction sets,
  accepts a slice exactly when every byte is HTAB, a byte from 32 to 126, or a byte above 127.\<close>

theorem header_value_correct:
  assumes "length p < size_mod"
  shows "tinygodriver_header_value a p = Some (\<forall>b \<in> set p. header_byte_ok b)"
proof -
  obtain ok k where run: "header_loop a p 0 = Some (ok, k)"
    and post: "if ok then k \<le> length p \<and> (\<forall>b \<in> set (take k p). header_byte_ok b)
      else \<not> (\<forall>b \<in> set p. header_byte_ok b)"
    using header_loop_spec [of 0 p a] assms by auto
  show ?thesis
  proof (cases ok)
    case True
    have "set p = set (take k p) \<union> set (drop k p)" by (metis append_take_drop_id set_append)
    with True run post show ?thesis
      by (auto simp: tinygodriver_header_value_def header_tail_spec)
  next
    case False
    with run post show ?thesis by (simp add: tinygodriver_header_value_def)
  qed
qed

theorem header_value_correct_witness:
  "length (replicate 16 65 @ [9, 127 :: u8]) < size_mod \<and>
   tinygodriver_header_value AArch64 (replicate 16 65 @ [9, 127]) = Some False \<and>
   tinygodriver_header_value AArch64 (replicate 16 65 @ [9, 128]) = Some True"
proof -
  have h1: "length (replicate 16 65 @ [9, 127 :: u8]) < size_mod"
    and h2: "length (replicate 16 65 @ [9, 128 :: u8]) < size_mod" by simp_all
  show ?thesis
    using h1 header_value_correct [OF h1, of AArch64] header_value_correct [OF h2, of AArch64]
    by (simp add: header_byte_ok_def)
qed

end
