(* ===== verification/SimdHex.thy ===== *)
theory SimdHex
  imports Vec16
begin

text \<open>
  \<open>encoding/simdhex/vector_tinygo.c\<close>: the whole-vector loops of the hex codec. The Go side encodes
  or decodes what the kernel leaves over, so a kernel returns how many source bytes it consumed.
  \<open>dst\<close> and \<open>dlen\<close> of the C loop are the whole destination buffer together with the offset \<open>d\<close>
  the pointer has reached and the bytes left behind it.

  The encoder is shown to write \<open>hex_enc\<close> of the consumed prefix and the decoder \<open>hex_dec\<close>,
  to stop exactly where the code's guards say, and to be inverse to each other.
\<close>

definition all_valid :: "arch \<Rightarrow> u8x16 \<Rightarrow> bool" where
  "all_valid a v = (case a of AArch64 \<Rightarrow> reduce_min v \<noteq> 0 | X86_64 \<Rightarrow> pmovmskb v = 0xffff)"

definition hex_digit_lanes :: "u8x16 \<Rightarrow> u8x16" where
  "hex_digit_lanes h = vadd h (vadd (splat 48) (vand (vcmp (>) h (splat 9)) (splat 39)))"

function hex_encode_loop :: "bytes \<Rightarrow> bytes \<Rightarrow> nat \<Rightarrow> nat \<Rightarrow> nat \<Rightarrow> (bytes \<times> nat) option" where
  "hex_encode_loop src dst i d dlen =
     (if 16 \<le> size_sub (length src) i \<and> 32 \<le> dlen then do {
        x \<leftarrow> load16 src i;
        let hi = hex_digit_lanes (vshr x 4);
        let lo = hex_digit_lanes (vand x (splat 15));
        dst1 \<leftarrow> store16 dst d (shufflevector hi lo [0,16,1,17,2,18,3,19,4,20,5,21,6,22,7,23]);
        dst2 \<leftarrow> store16 dst1 (d + 16)
          (shufflevector hi lo [8,24,9,25,10,26,11,27,12,28,13,29,14,30,15,31]);
        hex_encode_loop src dst2 (i + 16) (d + 32) (dlen - 32)
      } else Some (dst, i))"
  by pat_completeness auto
termination
  by (relation "measure (\<lambda>(src, dst, i, d, dlen). dlen)") auto

definition tinygodriver_hex_encode :: "bytes \<Rightarrow> bytes \<Rightarrow> (bytes \<times> nat) option" where
  "tinygodriver_hex_encode dst src = hex_encode_loop src dst 0 0 (length dst)"

function hex_decode_loop ::
  "arch \<Rightarrow> bytes \<Rightarrow> bytes \<Rightarrow> nat \<Rightarrow> nat \<Rightarrow> nat \<Rightarrow> (bytes \<times> nat) option" where
  "hex_decode_loop a src dst i d dlen =
     (if 32 \<le> size_sub (length src) i \<and> 16 \<le> dlen then do {
        x \<leftarrow> load16 src i;
        y \<leftarrow> load16 src (i + 16);
        let dx = vsub x (splat 48);
        let dy = vsub y (splat 48);
        let ax = vcmp (\<le>) (vsub (vor x (splat 32)) (splat 97)) (splat 5);
        let ay = vcmp (\<le>) (vsub (vor y (splat 32)) (splat 97)) (splat 5);
        let vx = vor (vcmp (\<le>) dx (splat 9)) ax;
        let vy = vor (vcmp (\<le>) dy (splat 9)) ay;
        if \<not> all_valid a (vand vx vy) then Some (dst, i)
        else do {
          let dx = vadd (vand x (splat 15)) (vand ax (splat 9));
          let dy = vadd (vand y (splat 15)) (vand ay (splat 9));
          let hi = shufflevector dx dy [0,2,4,6,8,10,12,14,16,18,20,22,24,26,28,30];
          let lo = shufflevector dx dy [1,3,5,7,9,11,13,15,17,19,21,23,25,27,29,31];
          dst1 \<leftarrow> store16 dst d (vor (vshl hi 4) lo);
          hex_decode_loop a src dst1 (i + 32) (d + 16) (dlen - 16)
        }
      } else Some (dst, i))"
  by pat_completeness auto
termination
  by (relation "measure (\<lambda>(a, src, dst, i, d, dlen). dlen)") auto

declare hex_encode_loop.simps [simp del] hex_decode_loop.simps [simp del]

definition tinygodriver_hex_decode :: "arch \<Rightarrow> bytes \<Rightarrow> bytes \<Rightarrow> (bytes \<times> nat) option" where
  "tinygodriver_hex_decode a dst src = hex_decode_loop a src dst 0 0 (length dst)"

section \<open>Specification\<close>

definition hex_digit :: "u8 \<Rightarrow> u8" where
  "hex_digit n = (if n < 10 then 48 + n else 87 + n)"

definition hex_enc :: "bytes \<Rightarrow> bytes" where
  "hex_enc bs = concat (map (\<lambda>b. [hex_digit (drop_bit 4 b), hex_digit (b AND 15)]) bs)"

definition hex_val :: "u8 \<Rightarrow> u8 option" where
  "hex_val c = (if 48 \<le> c \<and> c \<le> 57 then Some (c - 48)
     else if 97 \<le> c \<and> c \<le> 102 then Some (c - 87)
     else if 65 \<le> c \<and> c \<le> 70 then Some (c - 55) else None)"

abbreviation is_hex :: "u8 \<Rightarrow> bool" where
  "is_hex c \<equiv> hex_val c \<noteq> None"

fun hex_dec :: "bytes \<Rightarrow> bytes" where
  "hex_dec (a # b # cs) = (push_bit 4 (the (hex_val a)) OR the (hex_val b)) # hex_dec cs"
| "hex_dec _ = []"

section \<open>Bytes\<close>

lemma all_valid_mask:
  "length v = 16 \<Longrightarrow> (\<And>x. x \<in> set v \<Longrightarrow> x = 0 \<or> x = 255) \<Longrightarrow>
     all_valid a v \<longleftrightarrow> (\<forall>x \<in> set v. x = 255)"
proof -
  assume len: "length v = 16" and m: "\<And>x. x \<in> set v \<Longrightarrow> x = 0 \<or> x = 255"
  have "pmovmskb v = 0xffff \<longleftrightarrow> (\<forall>x \<in> set v. bit x 7)"
    using pmovmskb_full [of v] len by simp
  then show ?thesis
    using m by (cases a) (fastforce simp: all_valid_def reduce_min_nonzero)+
qed

lemma hex_digit_lane:
  "x < 16 \<Longrightarrow> x + (48 + ((if 9 < x then 255 else 0) AND 39)) = hex_digit (x :: u8)"
  by (rule all_u8_check [where P = "\<lambda>x. x < 16 \<longrightarrow> x + (48 + ((if 9 < x then 255 else 0) AND 39))
        = hex_digit x", THEN mp]) code_simp

lemma high_nibble_less: "drop_bit 4 (x :: u8) < 16"
  by (rule all_u8_check [where P = "\<lambda>x. drop_bit 4 x < 16"]) code_simp

lemma low_nibble_less: "(x :: u8) AND 15 < 16"
  by (rule all_u8_check [where P = "\<lambda>x. x AND 15 < 16"]) code_simp

lemma hex_valid_lane:
  "((if x - 48 \<le> 9 then 255 else 0) OR (if (x OR 32) - 97 \<le> 5 then 255 else 0)) =
     (if is_hex x then 255 else (0 :: u8))"
  by (rule all_u8_check [where P = "\<lambda>x. ((if x - 48 \<le> 9 then 255 else 0) OR
        (if (x OR 32) - 97 \<le> 5 then 255 else 0)) = (if is_hex x then 255 else (0 :: u8))"]) code_simp

lemma hex_value_lane:
  "is_hex x \<Longrightarrow> (x AND 15) + ((if (x OR 32) - 97 \<le> 5 then 255 else 0) AND 9) = the (hex_val x)"
  by (rule all_u8_check [where P = "\<lambda>x. is_hex x \<longrightarrow>
        (x AND 15) + ((if (x OR 32) - 97 \<le> 5 then 255 else 0) AND 9) = the (hex_val x)",
        THEN mp]) code_simp

lemma hex_digit_val: "n < 16 \<Longrightarrow> hex_val (hex_digit n) = Some n"
  by (rule all_u8_check [where P = "\<lambda>n. n < 16 \<longrightarrow> hex_val (hex_digit n) = Some n", THEN mp])
    code_simp

lemma nibbles_join: "push_bit 4 (drop_bit 4 b) OR (b AND 15) = (b :: u8)"
  by (rule all_u8_check [where P = "\<lambda>b. push_bit 4 (drop_bit 4 b) OR (b AND 15) = b"]) code_simp

section \<open>Vectors\<close>

lemma interleave_16:
  assumes "length v = 16"
  shows "shufflevector (map f v) (map g v) [0,16,1,17,2,18,3,19,4,20,5,21,6,22,7,23] @
     shufflevector (map f v) (map g v) [8,24,9,25,10,26,11,27,12,28,13,29,14,30,15,31] =
     concat (map (\<lambda>x. [f x, g x]) v)"
  by (subst (1 2 3 4 5) list_16_nth [OF assms]) (simp add: shufflevector_def)

lemma hex_digit_lanes_map:
  "length v = 16 \<Longrightarrow> (\<And>x. x \<in> set v \<Longrightarrow> x < 16) \<Longrightarrow> hex_digit_lanes v = map hex_digit v"
  by (simp add: hex_digit_lanes_def vec_simps comp_def hex_digit_lane)

lemma hex_enc_append: "hex_enc (xs @ ys) = hex_enc xs @ hex_enc ys"
  by (simp add: hex_enc_def)

lemma length_hex_enc [simp]: "length (hex_enc xs) = 2 * length xs"
  by (induction xs) (auto simp: hex_enc_def)

text \<open>One turn of the encoder's loop, on a destination whose first \<open>d\<close> bytes are finished.\<close>

lemma hex_encode_block:
  assumes "length x = 16" and "32 \<le> length r"
  defines "hi \<equiv> hex_digit_lanes (vshr x 4)" and "lo \<equiv> hex_digit_lanes (vand x (splat 15))"
  shows "do {
      dst1 \<leftarrow> store16 (b @ r) (length b)
        (shufflevector hi lo [0,16,1,17,2,18,3,19,4,20,5,21,6,22,7,23]);
      store16 dst1 (length b + 16)
        (shufflevector hi lo [8,24,9,25,10,26,11,27,12,28,13,29,14,30,15,31])
    } = Some (b @ hex_enc x @ drop 32 r)"
proof -
  let ?lo = "shufflevector hi lo [0,16,1,17,2,18,3,19,4,20,5,21,6,22,7,23]"
  let ?hi = "shufflevector hi lo [8,24,9,25,10,26,11,27,12,28,13,29,14,30,15,31]"
  have hi: "hi = map (\<lambda>x. hex_digit (drop_bit 4 x)) x"
    using assms(1) unfolding hi_def
    by (subst hex_digit_lanes_map) (auto simp: vec_simps comp_def high_nibble_less)
  have lo: "lo = map (\<lambda>x. hex_digit (x AND 15)) x"
    using assms(1) unfolding lo_def
    by (subst hex_digit_lanes_map) (auto simp: vec_simps comp_def low_nibble_less)
  have both: "?lo @ ?hi = hex_enc x"
    unfolding hi lo hex_enc_def by (rule interleave_16 [OF assms(1)])
  have len: "length ?lo = 16" "length ?hi = 16" by simp_all
  have l1: "store16 (b @ r) (length b) ?lo = Some ((b @ ?lo) @ drop 16 r)"
    using assms(2) wr_prefix [of ?lo r b] unfolding store16_def len by simp
  have l2: "store16 ((b @ ?lo) @ drop 16 r) (length b + 16) ?hi =
      Some ((b @ ?lo) @ ?hi @ drop 16 (drop 16 r))"
    using assms(2) wr_prefix [of ?hi "drop 16 r" "b @ ?lo"]
    unfolding store16_def length_append len by simp
  show ?thesis unfolding l1 bind.bind_lunit l2 both [symmetric] by (simp add: drop_drop)
qed

lemma hex_encode_loop_spec:
  assumes "i \<le> length src" and "length src < size_mod"
  shows "hex_encode_loop src (b @ r) i (length b) (length r) =
    (let n = 16 * min ((length src - i) div 16) (length r div 32)
     in Some (b @ hex_enc (take n (drop i src)) @ drop (2 * n) r, i + n))"
  using assms
proof (induction "length r" arbitrary: i b r rule: less_induct)
  case less
  show ?case
  proof (cases "16 \<le> length src - i \<and> 32 \<le> length r")
    case True
    let ?x = "take 16 (drop i src)"
    let ?b = "b @ hex_enc ?x" and ?r = "drop 32 r"
    let ?m = "16 * min ((length src - (i + 16)) div 16) (length ?r div 32)"
    have room: "i + 16 \<le> length src" and lt: "length ?r < length r" using True by auto
    then have x: "load16 src i = Some ?x" and lx: "length ?x = 16"
      by (simp_all add: load16_def rd_def)
    have step: "hex_encode_loop src (b @ r) i (length b) (length r) =
        hex_encode_loop src (?b @ ?r) (i + 16) (length ?b) (length ?r)"
      using True less.prems x lx hex_encode_block [OF lx, of r b]
      by (subst hex_encode_loop.simps) (auto simp: Let_def bind_eq_Some_conv split: bind_split)
    have "hex_encode_loop src (?b @ ?r) (i + 16) (length ?b) (length ?r) =
        Some (?b @ hex_enc (take ?m (drop (i + 16) src)) @ drop (2 * ?m) ?r, i + 16 + ?m)"
      using less.hyps [OF lt, of "i + 16" ?b] room less.prems unfolding Let_def by blast
    moreover have n: "16 * min ((length src - i) div 16) (length r div 32) = 16 + ?m"
    proof -
      have "(length src - i) div 16 = Suc ((length src - (i + 16)) div 16)"
        using True le_div_geq [of 16 "length src - i"] by simp
      moreover have "length r div 32 = Suc (length ?r div 32)"
        using True le_div_geq [of 32 "length r"] by simp
      ultimately show ?thesis by (simp only: min_Suc_Suc mult_Suc_right)
    qed
    moreover have "take (16 + ?m) (drop i src) = ?x @ take ?m (drop (i + 16) src)"
      by (simp add: take_add add.commute)
    ultimately show ?thesis
      unfolding step n Let_def by (simp add: hex_enc_append add.commute [of _ 32])
  next
    case False
    then have "16 * min ((length src - i) div 16) (length r div 32) = 0" by auto
    moreover have "hex_encode_loop src (b @ r) i (length b) (length r) = Some (b @ r, i)"
      using False less.prems by (subst hex_encode_loop.simps) auto
    ultimately show ?thesis by (simp add: hex_enc_def)
  qed
qed

text \<open>C19. The hex encoder stays inside both slices. It consumes as many whole 16-byte blocks as
  source and destination hold, writes the lower-case hex digits of exactly those bytes at the
  front of the destination and leaves the rest of the destination as it was.\<close>

theorem hex_encode_correct:
  assumes "length src < size_mod"
  shows "tinygodriver_hex_encode dst src =
    (let n = 16 * min (length src div 16) (length dst div 32)
     in Some (hex_enc (take n src) @ drop (2 * n) dst, n))"
  using hex_encode_loop_spec [of 0 src "[]" dst] assms
  by (simp add: tinygodriver_hex_encode_def)

theorem hex_encode_correct_witness:
  "length (replicate 16 0xaf :: bytes) < size_mod \<and>
   tinygodriver_hex_encode (replicate 33 0) (replicate 16 0xaf) =
     Some (concat (replicate 16 [97, 102]) @ [0], 16)"
proof -
  have h: "length (replicate 16 0xaf :: bytes) < size_mod" by simp
  have "hex_enc (replicate 16 0xaf) = concat (replicate 16 [97, 102])"
    by (simp add: hex_enc_def hex_digit_def)
  then show ?thesis using h hex_encode_correct [OF h, of "replicate 33 0"] by (simp add: Let_def)
qed

section \<open>The decoder\<close>

text \<open>How many 32-character blocks the decoder takes from \<open>src\<close> when the destination has room for
  \<open>m\<close> of them: it stops at the first block that holds a character which is no hex digit.\<close>

primrec hex_blocks :: "nat \<Rightarrow> bytes \<Rightarrow> nat" where
  "hex_blocks 0 src = 0"
| "hex_blocks (Suc m) src = (if 32 \<le> length src \<and> list_all is_hex (take 32 src)
     then Suc (hex_blocks m (drop 32 src)) else 0)"

lemma hex_blocks_bound: "32 * hex_blocks m src \<le> length src"
proof (induction m arbitrary: src)
  case (Suc m)
  show ?case using Suc.IH [of "drop 32 src"] by auto
qed simp

lemma hex_dec_append: "even (length xs) \<Longrightarrow> hex_dec (xs @ ys) = hex_dec xs @ hex_dec ys"
  by (induction xs rule: hex_dec.induct) auto

lemma hex_valid_lanes:
  assumes "length x = 16"
  shows "vor (vcmp (\<le>) (vsub x (splat 48)) (splat 9))
      (vcmp (\<le>) (vsub (vor x (splat 32)) (splat 97)) (splat 5)) =
     map (\<lambda>c. if is_hex c then 255 else 0) x"
  using assms by (simp add: vec_simps comp_def hex_valid_lane)

lemma hex_value_lanes:
  assumes "length x = 16" and "list_all is_hex x"
  shows "vadd (vand x (splat 15))
      (vand (vcmp (\<le>) (vsub (vor x (splat 32)) (splat 97)) (splat 5)) (splat 9)) =
     map (\<lambda>c. the (hex_val c)) x"
  using assms by (simp add: vec_simps comp_def list_all_iff hex_value_lane)

lemma all_valid_pair:
  assumes "length x = 16" and "length y = 16"
  shows "all_valid a (vand (map (\<lambda>c. if is_hex c then 255 else 0) x)
      (map (\<lambda>c. if is_hex c then 255 else 0) y)) \<longleftrightarrow> list_all is_hex (x @ y)"
proof -
  let ?v = "vand (map (\<lambda>c. if is_hex c then 255 else 0) x) (map (\<lambda>c. if is_hex c then 255 else 0) y)"
  have nth: "?v ! k = (if is_hex (x ! k) \<and> is_hex (y ! k) then 255 else 0)" if "k < 16" for k
    using that assms by simp
  have "all_valid a ?v \<longleftrightarrow> (\<forall>k < 16. ?v ! k = 255)"
  proof -
    have len: "length ?v = 16" using assms by simp
    have "z = 0 \<or> z = 255" if z: "z \<in> set ?v" for z
    proof -
      obtain k where "k < 16" and "z = ?v ! k" using z unfolding in_set_conv_nth len by blast
      then show ?thesis using nth [of k] by presburger
    qed
    then have "all_valid a ?v \<longleftrightarrow> (\<forall>z \<in> set ?v. z = 255)" by (rule all_valid_mask [OF len])
    then show ?thesis unfolding all_set_conv_all_nth len .
  qed
  also have "\<dots> \<longleftrightarrow> (\<forall>k < 16. is_hex (x ! k) \<and> is_hex (y ! k))"
    using nth by auto
  also have "\<dots> \<longleftrightarrow> list_all is_hex (x @ y)"
    unfolding list_all_append unfolding list_all_length assms by blast
  finally show ?thesis .
qed

lemma even_odd_lanes:
  "[0,2,4,6,8,10,12,14,16,18,20,22,24,26,28,30] = map (\<lambda>k. 2 * k) [0..<16::nat]"
  "[1,3,5,7,9,11,13,15,17,19,21,23,25,27,29,31] = map (\<lambda>k. 2 * k + 1) [0..<16::nat]"
  by code_simp+

lemma shufflevector_map:
  "list_all (\<lambda>k. k < length x + length y) idx \<Longrightarrow>
     shufflevector (map f x) (map f y) idx = map (\<lambda>k. f ((x @ y) ! k)) idx"
  by (simp add: shufflevector_def list_all_iff flip: map_append del: map_append)

lemma deinterleave_16:
  assumes "length x = 16" and "length y = 16"
  shows "vor (vshl (shufflevector (map f x) (map f y)
        [0,2,4,6,8,10,12,14,16,18,20,22,24,26,28,30]) 4)
      (shufflevector (map f x) (map f y) [1,3,5,7,9,11,13,15,17,19,21,23,25,27,29,31]) =
    map (\<lambda>k. push_bit 4 (f ((x @ y) ! (2 * k))) OR f ((x @ y) ! (2 * k + 1))) [0..<16]"
proof -
  have "list_all (\<lambda>k. k < length x + length y) (map (\<lambda>k. 2 * k) [0..<16])"
    and "list_all (\<lambda>k. k < length x + length y) (map (\<lambda>k. 2 * k + 1) [0..<16])"
    unfolding assms by code_simp+
  from shufflevector_map [OF this(1), of f] shufflevector_map [OF this(2), of f]
  show ?thesis
    unfolding even_odd_lanes by (simp only: vshl_map map_map vlift_map_map comp_def)
qed

lemma hex_dec_nth:
  "even (length z) \<Longrightarrow> hex_dec z =
    map (\<lambda>k. push_bit 4 (the (hex_val (z ! (2 * k)))) OR the (hex_val (z ! (2 * k + 1)))) [0..<length z div 2]"
  by (induction z rule: hex_dec.induct) (simp_all add: map_upt_Suc del: upt_Suc)

lemma hex_decode_block:
  assumes "length x = 16" and "length y = 16" and "list_all is_hex (x @ y)"
  defines "f \<equiv> \<lambda>v. vadd (vand v (splat 15))
      (vand (vcmp (\<le>) (vsub (vor v (splat 32)) (splat 97)) (splat 5)) (splat 9))"
  shows "vor (vshl (shufflevector (f x) (f y) [0,2,4,6,8,10,12,14,16,18,20,22,24,26,28,30]) 4)
      (shufflevector (f x) (f y) [1,3,5,7,9,11,13,15,17,19,21,23,25,27,29,31]) = hex_dec (x @ y)"
proof -
  have f: "f x = map (\<lambda>c. the (hex_val c)) x" "f y = map (\<lambda>c. the (hex_val c)) y"
    using assms(1-3) hex_value_lanes unfolding f_def by simp_all
  have "length (x @ y) div 2 = 16" "even (length (x @ y))" using assms(1,2) by simp_all
  then show ?thesis
    unfolding f deinterleave_16 [OF assms(1,2)] by (simp only: hex_dec_nth)
qed

lemma length_hex_dec [simp]: "length (hex_dec z) = length z div 2"
  by (induction z rule: hex_dec.induct) auto

lemma hex_decode_step:
  assumes room: "i + 32 \<le> length src" "16 \<le> length r" and size: "length src < size_mod"
  defines "z \<equiv> take 32 (drop i src)"
  shows "hex_decode_loop a src (b @ r) i (length b) (length r) =
    (if list_all is_hex z
     then hex_decode_loop a src ((b @ hex_dec z) @ drop 16 r) (i + 32) (length (b @ hex_dec z))
       (length (drop 16 r))
     else Some (b @ r, i))"
proof -
  let ?x = "take 16 (drop i src)" and ?y = "take 16 (drop (i + 16) src)"
  have l: "load16 src i = Some ?x" "load16 src (i + 16) = Some ?y"
    and len: "length ?x = 16" "length ?y = 16"
    using room(1) by (simp_all add: load16_def rd_def)
  have z: "?x @ ?y = z"
    unfolding z_def using take_add [of 16 16 "drop i src"] by (simp add: add.commute)
  have lz: "length (hex_dec z) = 16" using room(1) by (simp add: z_def)
  have guard: "16 \<le> length r" "32 \<le> size_sub (length src) i" using room size by simp_all
  have st: "store16 (b @ r) (length b) (hex_dec z) = Some ((b @ hex_dec z) @ drop 16 r)"
    using room(2) lz wr_prefix [of "hex_dec z" r b] by (simp add: store16_def)
  show ?thesis
  proof (cases "list_all is_hex z")
    case True
    then show ?thesis
      using guard lz st all_valid_pair [OF len, of a] hex_decode_block [OF len]
      unfolding hex_decode_loop.simps [of a src "b @ r" i "length b" "length r"] l
        bind.bind_lunit Let_def hex_valid_lanes [OF len(1)] hex_valid_lanes [OF len(2)] z
      by simp
  next
    case False
    then show ?thesis
      using guard all_valid_pair [OF len, of a]
      unfolding hex_decode_loop.simps [of a src "b @ r" i "length b" "length r"] l
        bind.bind_lunit Let_def hex_valid_lanes [OF len(1)] hex_valid_lanes [OF len(2)] z
      by simp
  qed
qed

lemma hex_decode_loop_spec:
  assumes "i \<le> length src" and "length src < size_mod"
  shows "hex_decode_loop a src (b @ r) i (length b) (length r) =
    (let n = hex_blocks (length r div 16) (drop i src)
     in Some (b @ hex_dec (take (32 * n) (drop i src)) @ drop (16 * n) r, i + 32 * n))"
  using assms
proof (induction "length r" arbitrary: i b r rule: less_induct)
  case less
  show ?case
  proof (cases "32 \<le> length src - i \<and> 16 \<le> length r")
    case False
    then have "hex_blocks (length r div 16) (drop i src) = 0" by (cases "length r div 16") auto
    then show ?thesis
      using False less.prems by (subst hex_decode_loop.simps) (auto simp: Let_def)
  next
    case True
    let ?z = "take 32 (drop i src)"
    let ?n = "hex_blocks (length (drop 16 r) div 16) (drop (i + 32) src)"
    have room: "i + 32 \<le> length src" "16 \<le> length r" using True by auto
    have k: "length r div 16 = Suc (length (drop 16 r) div 16)"
      using room(2) le_div_geq [of 16 "length r"] by simp
    have blocks: "hex_blocks (length r div 16) (drop i src) = (if list_all is_hex ?z then Suc ?n else 0)"
      unfolding k using room(1) by (simp add: add.commute [of 32])
    have t: "take (32 + 32 * ?n) (drop i src) = ?z @ take (32 * ?n) (drop (i + 32) src)"
      by (simp add: take_add add.commute)
    have lt: "length (drop 16 r) < length r" using room(2) by auto
    show ?thesis
      unfolding hex_decode_step [OF room less.prems(2)] blocks
      using less.hyps [OF lt, of "i + 32" "b @ hex_dec ?z"] less.prems room(1) t
      by (simp add: Let_def hex_dec_append add.commute [of _ 16])
  qed
qed

text \<open>C20. For every source and destination the decoder stays inside both buffers on either
  architecture and consumes exactly the leading 32-character blocks that are all hex digits and fit
  the destination, writing their decoding and nothing else; an invalid character stops it at the
  start of its block, with the destination behind it untouched.\<close>

theorem hex_decode_correct:
  assumes "length src < size_mod"
  shows "tinygodriver_hex_decode a dst src =
    (let n = hex_blocks (length dst div 16) src
     in Some (hex_dec (take (32 * n) src) @ drop (16 * n) dst, 32 * n))"
  using hex_decode_loop_spec [of 0 src a "[]" dst] assms
  by (simp add: tinygodriver_hex_decode_def)

theorem hex_decode_correct_witness:
  "length (replicate 32 65 @ replicate 32 71 :: bytes) < size_mod \<and>
   tinygodriver_hex_decode AArch64 (replicate 40 7) (replicate 32 65 @ replicate 32 71) =
     Some (replicate 16 0xaa @ replicate 24 7, 32)"
proof -
  have h: "length (replicate 32 65 @ replicate 32 71 :: bytes) < size_mod" by simp
  have "hex_blocks 2 (replicate 32 65 @ replicate 32 71) = 1" by code_simp
  moreover have "hex_dec (replicate 32 65) = replicate 16 0xaa" by code_simp
  moreover have "drop 16 (replicate 40 7 :: bytes) = replicate 24 7" by simp
  ultimately show ?thesis
    using h hex_decode_correct [OF h, of AArch64 "replicate 40 7"] by (simp add: Let_def)
qed

section \<open>Round trip\<close>

lemma hex_enc_is_hex: "list_all is_hex (hex_enc bs)"
  by (induction bs) (auto simp: hex_enc_def hex_digit_val high_nibble_less low_nibble_less)

lemma hex_dec_enc: "hex_dec (hex_enc bs) = bs"
  by (induction bs)
    (auto simp: hex_enc_def hex_digit_val high_nibble_less low_nibble_less nibbles_join)

lemma hex_blocks_all: "list_all is_hex src \<Longrightarrow> hex_blocks m src = min m (length src div 32)"
proof (induction m arbitrary: src)
  case (Suc m)
  have "list_all is_hex (take 32 src)" "list_all is_hex (drop 32 src)"
    using Suc.prems by (auto simp: list_all_iff dest: in_set_takeD in_set_dropD)
  then show ?case
    using Suc.IH [of "drop 32 src"] le_div_geq [of 32 "length src"] by simp
qed simp

text \<open>C21. Encoding whole vectors and decoding the result on either architecture gives back the
  source, both kernels consuming everything they were given.\<close>

theorem hex_round_trip:
  assumes "16 dvd length src" and "2 * length src < size_mod"
    and "length d1 = 2 * length src" and "length d2 = length src"
  shows "\<exists>e. tinygodriver_hex_encode d1 src = Some (e, length src) \<and> e = hex_enc src \<and>
    tinygodriver_hex_decode a d2 e = Some (src, 2 * length src)"
proof -
  obtain k where k: "length src = 16 * k" using assms(1) by (auto elim: dvdE)
  then have m: "(2 * length src) div 32 = k" "length src div 16 = k" by simp_all
  have "tinygodriver_hex_encode d1 src = Some (hex_enc src, length src)"
    using hex_encode_loop_spec [of 0 src "[]" d1] assms(2,3) m k
    by (simp add: tinygodriver_hex_encode_def Let_def)
  moreover have "tinygodriver_hex_decode a d2 (hex_enc src) = Some (src, 2 * length src)"
    using hex_decode_loop_spec [of 0 "hex_enc src" a "[]" d2] hex_blocks_all [OF hex_enc_is_hex, of k src]
      assms(2,4) m k
    by (simp add: tinygodriver_hex_decode_def Let_def hex_dec_enc)
  ultimately show ?thesis by blast
qed

theorem hex_round_trip_witness:
  "16 dvd length (replicate 16 0x5c :: bytes) \<and>
   (\<exists>e. tinygodriver_hex_encode (replicate 32 0) (replicate 16 0x5c) = Some (e, 16) \<and>
     e = hex_enc (replicate 16 0x5c) \<and>
     tinygodriver_hex_decode X86_64 (replicate 16 0) e = Some (replicate 16 0x5c, 32))"
  using hex_round_trip [of "replicate 16 0x5c" "replicate 32 0" "replicate 16 0" X86_64] by simp

end
