(* ===== verification/Base64Spec.thy ===== *)
theory Base64Spec
  imports TG_Prelude
begin

text \<open>
  RFC 4648 base64, the reference both codecs of the repository are compared with: the SIMD kernels
  of \<open>encoding/simdbase64\<close> and mbedTLS's \<open>base64.c\<close>. \<open>url\<close> selects the alphabet.

  \<open>b64_char\<close> and \<open>b64_val\<close> are the alphabet, \<open>pack\<close> and \<open>unpack\<close> regroup four sextets
  as three bytes and back, \<open>b64_dec\<close> decodes whole quanta and \<open>b64_enc\<close> encodes whole triples.
\<close>

section \<open>The alphabet\<close>

definition b64_char :: "bool \<Rightarrow> u8 \<Rightarrow> u8" where
  "b64_char url v = (if v < 26 then 65 + v else if v < 52 then 71 + v else if v < 62 then v - 4
     else if v = 62 then (if url then 45 else 43) else (if url then 95 else 47))"

definition b64_val :: "bool \<Rightarrow> u8 \<Rightarrow> u8 option" where
  "b64_val url c = (if 65 \<le> c \<and> c \<le> 90 then Some (c - 65)
     else if 97 \<le> c \<and> c \<le> 122 then Some (c - 71)
     else if 48 \<le> c \<and> c \<le> 57 then Some (c + 4)
     else if c = (if url then 45 else 43) then Some 62
     else if c = (if url then 95 else 47) then Some 63 else None)"

abbreviation is_b64 :: "bool \<Rightarrow> u8 \<Rightarrow> bool" where
  "is_b64 url c \<equiv> b64_val url c \<noteq> None"

definition is_nl :: "u8 \<Rightarrow> bool" where
  "is_nl c \<longleftrightarrow> c = 13 \<or> c = 10"

lemma b64_val_inv: "b64_val url c = Some v \<Longrightarrow> v < 64 \<and> b64_char url v = c"
proof -
  have "list_all (\<lambda>c. case b64_val url c of None \<Rightarrow> True | Some v \<Rightarrow> v < 64 \<and> b64_char url v = c) u8_all"
    by (cases url; simp only:; code_simp)
  from all_u8_check [OF this, of c] show "b64_val url c = Some v \<Longrightarrow> ?thesis" by simp
qed

lemmas b64_val_less = b64_val_inv [THEN conjunct1]
  and b64_char_val = b64_val_inv [THEN conjunct2]

lemma b64_val_char: "v < 64 \<Longrightarrow> b64_val url (b64_char url v) = Some v"
  by (rule small_u8_check [where P = "\<lambda>v. b64_val url (b64_char url v) = Some v"])
    (cases url; simp only:; code_simp)

lemma b64_nl: "is_b64 url c \<Longrightarrow> \<not> is_nl c"
  by (auto simp: b64_val_def is_nl_def split: if_splits)

section \<open>Regrouping\<close>

fun pack :: "bytes \<Rightarrow> bytes" where
  "pack (a # b # c # d # r) = (push_bit 2 a OR drop_bit 4 b) # (push_bit 4 b OR drop_bit 2 c) #
     (push_bit 6 c OR d) # pack r"
| "pack _ = []"

fun unpack :: "bytes \<Rightarrow> bytes" where
  "unpack (x # y # z # r) = drop_bit 2 x # ((push_bit 4 x OR drop_bit 4 y) AND 63) #
     ((push_bit 2 y OR drop_bit 6 z) AND 63) # (z AND 63) # unpack r"
| "unpack _ = []"

definition b64_dec :: "bool \<Rightarrow> bytes \<Rightarrow> bytes option" where
  "b64_dec url cs = (if length cs mod 4 = 0 \<and> list_all (is_b64 url) cs
     then Some (pack (map (\<lambda>c. the (b64_val url c)) cs)) else None)"

definition b64_enc :: "bool \<Rightarrow> bytes \<Rightarrow> bytes" where
  "b64_enc url bs = map (b64_char url) (unpack bs)"

lemma pack_append: "length xs mod 4 = 0 \<Longrightarrow> pack (xs @ ys) = pack xs @ pack ys"
proof (induction xs rule: pack.induct)
  case (1 a b c d r)
  then have "length r mod 4 = 0" by simp
  with 1 show ?case by simp
qed simp_all

lemma length_pack [simp]: "length (pack xs) = 3 * (length xs div 4)"
proof (induction xs rule: pack.induct)
  case (1 a b c d r)
  have "length (a # b # c # d # r) div 4 = Suc (length r div 4)" by simp
  with 1 show ?case by simp
qed simp_all

lemma unpack_append: "length xs mod 3 = 0 \<Longrightarrow> unpack (xs @ ys) = unpack xs @ unpack ys"
proof (induction xs rule: unpack.induct)
  case (1 x y z r)
  then have "length r mod 3 = 0" by simp
  with 1 show ?case by simp
qed simp_all

lemma length_unpack [simp]: "length (unpack xs) = 4 * (length xs div 3)"
proof (induction xs rule: unpack.induct)
  case (1 x y z r)
  have "length (x # y # z # r) div 3 = Suc (length r div 3)" by simp
  with 1 show ?case by simp
qed simp_all

lemma length_b64_enc [simp]: "length (b64_enc url xs) = 4 * (length xs div 3)"
  by (simp add: b64_enc_def)

lemma b64_enc_append: "length xs mod 3 = 0 \<Longrightarrow> b64_enc url (xs @ ys) = b64_enc url xs @ b64_enc url ys"
  by (simp add: b64_enc_def unpack_append)

lemma b64_dec_append:
  assumes "b64_dec url xs = Some u" and "b64_dec url ys = Some v"
  shows "b64_dec url (xs @ ys) = Some (u @ v)"
proof -
  have m: "length xs mod 4 = 0" "length ys mod 4 = 0"
    using assms by (auto simp: b64_dec_def split: if_splits)
  then have "(length xs + length ys) mod 4 = 0" by presburger
  then show ?thesis using assms m by (auto simp: b64_dec_def pack_append split: if_splits)
qed

lemma b64_dec_Nil [simp]: "b64_dec url [] = Some []"
  by (simp add: b64_dec_def)

lemma b64_dec_length: "b64_dec url cs = Some out \<Longrightarrow> 4 * length out = 3 * length cs"
  by (auto simp: b64_dec_def split: if_splits)

section \<open>Encoding and decoding are inverse\<close>

lemma pack_unpack_bytes:
  fixes x y z :: u8
  shows "push_bit 2 (drop_bit 2 x) OR drop_bit 4 ((push_bit 4 x OR drop_bit 4 y) AND 63) = x"
    and "push_bit 4 ((push_bit 4 x OR drop_bit 4 y) AND 63) OR
         drop_bit 2 ((push_bit 2 y OR drop_bit 6 z) AND 63) = y"
    and "push_bit 6 ((push_bit 2 y OR drop_bit 6 z) AND 63) OR (z AND 63) = z"
  by (rule bit_word_eqI, erule nat_less_8_cases; simp add: bit_simps)+

lemma pack_unpack: "length xs mod 3 = 0 \<Longrightarrow> pack (unpack xs) = xs"
proof (induction xs rule: unpack.induct)
  case (1 x y z r)
  then have "pack (unpack r) = r" by simp
  then show ?case by (simp only: unpack.simps pack.simps pack_unpack_bytes)
qed simp_all

lemma drop_bit_2_less: "drop_bit 2 (x :: u8) < 64"
  by (rule all_u8_check [where P = "\<lambda>x. drop_bit 2 x < 64"]) code_simp

lemma and_63_less: "(x :: u8) AND 63 < 64"
  by (rule all_u8_check [where P = "\<lambda>x. x AND 63 < 64"]) code_simp

lemma unpack_less: "v \<in> set (unpack xs) \<Longrightarrow> v < 64"
  by (induction xs rule: unpack.induct) (auto simp: drop_bit_2_less and_63_less)

lemma b64_enc_valid: "list_all (is_b64 url) (b64_enc url xs)"
  by (auto simp: b64_enc_def list_all_iff dest!: unpack_less b64_val_char [of _ url])

lemma b64_dec_enc: "length xs mod 3 = 0 \<Longrightarrow> b64_dec url (b64_enc url xs) = Some xs"
proof -
  assume m: "length xs mod 3 = 0"
  have "map (\<lambda>c. the (b64_val url c)) (b64_enc url xs) = unpack xs"
    unfolding b64_enc_def map_map by (rule map_idI) (simp add: b64_val_char unpack_less)
  then show ?thesis
    using m b64_enc_valid [of url xs] by (simp add: b64_dec_def pack_unpack)
qed

lemma pack_nth:
  assumes "k < length xs div 4"
  shows "pack xs ! (3 * k) = push_bit 2 (xs ! (4 * k)) OR drop_bit 4 (xs ! (4 * k + 1))"
    and "pack xs ! (3 * k + 1) = push_bit 4 (xs ! (4 * k + 1)) OR drop_bit 2 (xs ! (4 * k + 2))"
    and "pack xs ! (3 * k + 2) = push_bit 6 (xs ! (4 * k + 2)) OR xs ! (4 * k + 3)"
proof -
  let ?a = "take (4 * k) xs" and ?b = "drop (4 * k) xs"
  have k: "4 * k + 4 \<le> length xs" using assms by linarith
  have "pack xs = pack ?a @ pack ?b"
    using pack_append [of ?a ?b] k by simp
  moreover obtain a b c d r where q: "?b = a # b # c # d # r"
    using k by (cases ?b rule: pack.cases) (auto simp: drop_eq_Nil dest!: arg_cong [where f = length])
  moreover have "xs ! (4 * k) = a" "xs ! (4 * k + 1) = b" "xs ! (4 * k + 2) = c" "xs ! (4 * k + 3) = d"
    using k nth_drop [of "4 * k" xs 0] nth_drop [of "4 * k" xs 1]
      nth_drop [of "4 * k" xs 2] nth_drop [of "4 * k" xs 3] q by simp_all
  ultimately show "pack xs ! (3 * k) = push_bit 2 (xs ! (4 * k)) OR drop_bit 4 (xs ! (4 * k + 1))"
    and "pack xs ! (3 * k + 1) = push_bit 4 (xs ! (4 * k + 1)) OR drop_bit 2 (xs ! (4 * k + 2))"
    and "pack xs ! (3 * k + 2) = push_bit 6 (xs ! (4 * k + 2)) OR xs ! (4 * k + 3)"
    using k by (simp_all add: nth_append min_absorb2)
qed

lemma unpack_nth:
  assumes "k < length xs div 3"
  shows "unpack xs ! (4 * k) = drop_bit 2 (xs ! (3 * k))"
    and "unpack xs ! (4 * k + 1) = (push_bit 4 (xs ! (3 * k)) OR drop_bit 4 (xs ! (3 * k + 1))) AND 63"
    and "unpack xs ! (4 * k + 2) = (push_bit 2 (xs ! (3 * k + 1)) OR drop_bit 6 (xs ! (3 * k + 2))) AND 63"
    and "unpack xs ! (4 * k + 3) = xs ! (3 * k + 2) AND 63"
proof -
  let ?a = "take (3 * k) xs" and ?b = "drop (3 * k) xs"
  have k: "3 * k + 3 \<le> length xs" using assms by linarith
  have "unpack xs = unpack ?a @ unpack ?b"
    using unpack_append [of ?a ?b] k by simp
  moreover obtain a b c r where q: "?b = a # b # c # r"
    using k by (cases ?b rule: unpack.cases) (auto simp: drop_eq_Nil dest!: arg_cong [where f = length])
  moreover have "xs ! (3 * k) = a" "xs ! (3 * k + 1) = b" "xs ! (3 * k + 2) = c"
    using k nth_drop [of "3 * k" xs 0] nth_drop [of "3 * k" xs 1] nth_drop [of "3 * k" xs 2] q
    by simp_all
  ultimately show "unpack xs ! (4 * k) = drop_bit 2 (xs ! (3 * k))"
    and "unpack xs ! (4 * k + 1) = (push_bit 4 (xs ! (3 * k)) OR drop_bit 4 (xs ! (3 * k + 1))) AND 63"
    and "unpack xs ! (4 * k + 2) = (push_bit 2 (xs ! (3 * k + 1)) OR drop_bit 6 (xs ! (3 * k + 2))) AND 63"
    and "unpack xs ! (4 * k + 3) = xs ! (3 * k + 2) AND 63"
    using k by (simp_all add: nth_append min_absorb2)
qed

end
