(* ===== verification/SimdBase64.thy ===== *)
theory SimdBase64
  imports Vec16 Base64Spec
begin

text \<open>
  \<open>encoding/simdbase64/vector_tinygo.c\<close>: the base64 kernels for both instruction sets. As in the
  other kernels \<open>dst\<close> is the whole destination buffer, \<open>d\<close> the offset its pointer has reached and
  \<open>dlen\<close> the bytes left behind it. A kernel returns \<open>None\<close> when it would leave a buffer.

  The decoder is shown to write the RFC 4648 decoding of what it consumed (line breaks dropped),
  never to write more than four scratch bytes behind its output, and to stop only where the next
  quantum is no quantum of the alphabet or fewer than sixteen bytes are left on one side. The encoder
  is shown to write the encoding of the prefix it consumed.
\<close>

section \<open>Vector helpers\<close>

type_synonym u32x4 = "32 word list"

definition u32x4_of :: "u8x16 \<Rightarrow> u32x4" where
  "u32x4_of v = map (\<lambda>k. ucast (v ! (4 * k)) OR push_bit 8 (ucast (v ! (4 * k + 1))) OR
     push_bit 16 (ucast (v ! (4 * k + 2))) OR push_bit 24 (ucast (v ! (4 * k + 3)))) [0, 1, 2, 3]"

definition u8x16_of :: "u32x4 \<Rightarrow> u8x16" where
  "u8x16_of w = concat (map (\<lambda>x. [ucast x, ucast (drop_bit 8 x), ucast (drop_bit 16 x),
     ucast (drop_bit 24 x)]) w)"

definition lookup :: "arch \<Rightarrow> u8x16 \<Rightarrow> u8x16 \<Rightarrow> u8x16" where
  "lookup a table idx = (case a of AArch64 \<Rightarrow> tbl table idx | X86_64 \<Rightarrow> pshufb table idx)"

definition all_nonzero :: "arch \<Rightarrow> u8x16 \<Rightarrow> bool" where
  "all_nonzero a v = (case a of AArch64 \<Rightarrow> reduce_min v \<noteq> 0
     | X86_64 \<Rightarrow> pmovmskb (vcmp (=) v (splat 0)) = 0)"

definition min16 :: "u8x16 \<Rightarrow> u8x16 \<Rightarrow> u8x16" where
  "min16 a b = vmin a b"

definition pack_word :: "u32 \<Rightarrow> u32" where
  "pack_word w =
    (let pairs = push_bit 6 (w AND 0x003f003f) OR (drop_bit 8 w AND 0x003f003f)
     in push_bit 12 (pairs AND 0x00000fff) OR drop_bit 16 pairs)"

definition decode_pack :: "arch \<Rightarrow> u8x16 \<Rightarrow> u8x16" where
  "decode_pack a v = (case a of
     AArch64 \<Rightarrow>
       let x = lookup a v [0,1,2,4,5,6,8,9,10,12,13,14,255,255,255,255];
           y = lookup a v [1,2,3,5,6,7,9,10,11,13,14,15,255,255,255,255]
       in vor (ushl x [2,4,6,2,4,6,2,4,6,2,4,6,0,0,0,0])
              (ushl y [-4,-2,0,-4,-2,0,-4,-2,0,-4,-2,0,0,0,0,0])
   | X86_64 \<Rightarrow>
       lookup a (u8x16_of (map pack_word (u32x4_of v))) [2,1,0,6,5,4,10,9,8,14,13,12,255,255,255,255])"

type_synonym block64 = "u8x16 \<times> u8x16 \<times> u8x16 \<times> u8x16"

definition decode_load64 :: "arch \<Rightarrow> bytes \<Rightarrow> nat \<Rightarrow> block64 option" where
  "decode_load64 a src i = (case a of
     AArch64 \<Rightarrow> do {
       b \<leftarrow> rd src i 64;
       Some (map (\<lambda>k. b ! (4 * k)) [0..<16], map (\<lambda>k. b ! (4 * k + 1)) [0..<16],
             map (\<lambda>k. b ! (4 * k + 2)) [0..<16], map (\<lambda>k. b ! (4 * k + 3)) [0..<16])
     }
   | X86_64 \<Rightarrow> do {
       v0 \<leftarrow> load16 src i;
       v1 \<leftarrow> load16 src (i + 16);
       v2 \<leftarrow> load16 src (i + 32);
       v3 \<leftarrow> load16 src (i + 48);
       Some (v0, v1, v2, v3)
     })"

definition vsli :: "u8x16 \<Rightarrow> u8x16 \<Rightarrow> nat \<Rightarrow> u8x16" where
  "vsli a b n = map2 (\<lambda>x y. (x AND mask n) OR push_bit n y) a b"

definition decode_store48 ::
  "arch \<Rightarrow> bytes \<Rightarrow> nat \<Rightarrow> u8x16 \<Rightarrow> u8x16 \<Rightarrow> u8x16 \<Rightarrow> u8x16 \<Rightarrow> bytes option" where
  "decode_store48 arch dst i a b c d = (case arch of
     AArch64 \<Rightarrow>
       let out0 = vsli (vshr b 4) a 2; out1 = vsli (vshr c 2) b 4; out2 = vsli d c 6
       in wr dst i (concat (map (\<lambda>k. [out0 ! k, out1 ! k, out2 ! k]) [0..<16]))
   | X86_64 \<Rightarrow> do {
       dst \<leftarrow> store16 dst i (decode_pack arch a);
       dst \<leftarrow> store16 dst (i + 12) (decode_pack arch b);
       dst \<leftarrow> store16 dst (i + 24) (decode_pack arch c);
       store16 dst (i + 36) (decode_pack arch d)
     })"

definition high_bits :: "arch \<Rightarrow> u8x16 \<Rightarrow> u8x16" where
  "high_bits a x = (case a of AArch64 \<Rightarrow> vshr x 3 | X86_64 \<Rightarrow> vand (vshr x 4) (splat 15))"

definition clz8 :: "u8 \<Rightarrow> u8" where
  "clz8 x = (if bit x 7 then 0 else if bit x 6 then 1 else if bit x 5 then 2 else if bit x 4 then 3
     else if bit x 3 then 4 else if bit x 2 then 5 else if bit x 1 then 6 else if bit x 0 then 7 else 8)"

definition translate ::
  "arch \<Rightarrow> u8x16 \<Rightarrow> u8x16 \<Rightarrow> u8x16 \<Rightarrow> u8x16 \<Rightarrow> u8x16 \<Rightarrow> u8x16 \<Rightarrow> u8x16" where
  "translate a x h valid delta special correction = (case a of
     AArch64 \<Rightarrow> vadd x (lookup a delta (map clz8 valid))
   | X86_64 \<Rightarrow> vadd (vadd x (lookup a delta h)) (vand (vcmp (=) x special) correction))"

definition copy_out :: "bytes \<Rightarrow> nat \<Rightarrow> u8x16 \<Rightarrow> nat \<Rightarrow> bytes option" where
  "copy_out dst i v m = do {
     scratch \<leftarrow> store16 (replicate 16 0) 0 v;
     out \<leftarrow> rd scratch 0 m;
     wr dst i out
   }"

definition store9 :: "bytes \<Rightarrow> nat \<Rightarrow> u8x16 \<Rightarrow> bytes option" where
  "store9 dst i v = copy_out dst i v 9"

definition tinygodriver_base64_available :: "arch \<Rightarrow> u32 \<Rightarrow> bool" where
  "tinygodriver_base64_available a cpuid_ecx = (case a of AArch64 \<Rightarrow> True
     | X86_64 \<Rightarrow> cpuid_ecx AND push_bit 9 1 \<noteq> 0)"

section \<open>The compact decoder\<close>

definition hi_small :: u8x16 where
  "hi_small = [0,0,1,2,4,8,16,32,0,0,0,0,0,0,0,0]"

definition lo_small :: "bool \<Rightarrow> u8x16" where
  "lo_small url = (if url then [42,62,62,62,62,62,62,62,62,62,60,20,20,21,20,28]
     else [42,62,62,62,62,62,62,62,62,62,60,21,20,20,20,21])"

definition delta_small :: "bool \<Rightarrow> u8x16" where
  "delta_small url = (if url then [0,0,17,4,191,191,185,185,0,0,0,0,0,0,0,0]
     else [0,0,19,4,191,191,185,185,0,0,0,0,0,0,0,0])"

definition tail4 :: u8x16 where "tail4 = [0,0,0,0,0,0,0,0,0,0,0,0,1,1,1,1]"
definition tail8 :: u8x16 where "tail8 = [0,0,0,0,0,0,0,0,1,1,1,1,1,1,1,1]"
definition tail12 :: u8x16 where "tail12 = [0,0,0,0,1,1,1,1,1,1,1,1,1,1,1,1]"

function skip_nl :: "bytes \<Rightarrow> nat \<Rightarrow> nat option" where
  "skip_nl src n = (if n < length src then do {
      c \<leftarrow> rd1 src n;
      if is_nl c then skip_nl src (n + 1) else Some n
    } else Some n)"
  by pat_completeness auto
termination
  by (relation "measure (\<lambda>(src, n). length src - n)") auto

declare skip_nl.simps [simp del]

definition fringe_digits :: "arch \<Rightarrow> u8x16 \<Rightarrow> nat option" where
  "fringe_digits a valid =
    (if all_nonzero a (vor valid tail4) then Some 12
     else if all_nonzero a (vor valid tail8) then Some 8
     else if all_nonzero a (vor valid tail12) then Some 4
     else None)"

lemma fringe_digits_cases: "fringe_digits a valid = Some k \<Longrightarrow> k = 12 \<or> k = 8 \<or> k = 4"
  by (auto simp: fringe_digits_def split: if_splits)

definition small_valid :: "arch \<Rightarrow> bool \<Rightarrow> u8x16 \<Rightarrow> u8x16" where
  "small_valid a url x = vand (lookup a (lo_small url) (vand x (splat 15)))
     (lookup a hi_small (vand (vshr x 4) (splat 15)))"

definition small_values :: "arch \<Rightarrow> bool \<Rightarrow> u8x16 \<Rightarrow> u8x16" where
  "small_values a url x =
    (let v = vadd x (lookup a (delta_small url) (vand (vshr x 4) (splat 15)))
     in if url then vadd v (vand (vcmp (=) x (splat 95)) (splat 33))
        else vsub v (vand (vcmp (=) x (splat 47)) (splat 3)))"

function decode_small_loop ::
  "arch \<Rightarrow> bool \<Rightarrow> bytes \<Rightarrow> bytes \<Rightarrow> nat \<Rightarrow> nat \<Rightarrow> nat \<Rightarrow> nat \<Rightarrow> (bytes \<times> nat \<times> nat) option" where
  "decode_small_loop a url src dst d dlen n written = do {
     n \<leftarrow> skip_nl src n;
     if size_sub (length src) n < 16 \<or> dlen < 16 then Some (dst, n, written)
     else do {
       x \<leftarrow> load16 src n;
       let valid = small_valid a url x;
       let packed = decode_pack a (small_values a url x);
       if all_nonzero a valid then do {
         dst \<leftarrow> store16 dst d packed;
         decode_small_loop a url src dst (d + 12) (dlen - 12) (n + 16) (written + 12)
       } else (case fringe_digits a valid of
         None \<Rightarrow> Some (dst, n, written)
       | Some digits \<Rightarrow> do {
           let produced = digits div 4 * 3;
           dst \<leftarrow> copy_out dst d packed (if digits = 12 then 9 else if digits = 8 then 6 else 3);
           decode_small_loop a url src dst (d + produced) (dlen - produced) (n + digits)
             (written + produced)
         })
     }
   }"
  by pat_completeness auto
termination
  by (relation "measure (\<lambda>(a, url, src, dst, d, dlen, n, written). dlen)")
    (auto dest: fringe_digits_cases)

definition decode_small ::
  "arch \<Rightarrow> bytes \<Rightarrow> nat \<Rightarrow> nat \<Rightarrow> bytes \<Rightarrow> bool \<Rightarrow> (bytes \<times> nat \<times> nat) option" where
  "decode_small a dst d dlen src url = decode_small_loop a url src dst d dlen 0 0"

section \<open>The bulk decoder\<close>

definition hi_bulk :: "arch \<Rightarrow> bool \<Rightarrow> u8x16" where
  "hi_bulk a url = (case a of
     AArch64 \<Rightarrow> if url then [0,0,0,0,0,4,8,8,16,32,32,18,64,128,128,64]
       else [0,0,0,0,0,6,8,8,16,32,32,16,64,128,128,64]
   | X86_64 \<Rightarrow> [0,0,1,2,4,8,16,32,0,0,0,0,0,0,0,0])"

definition lo_bulk :: "arch \<Rightarrow> bool \<Rightarrow> u8x16" where
  "lo_bulk a url = (case a of
     AArch64 \<Rightarrow> if url then [169,248,248,248,248,248,248,248,248,249,241,160,161,165,160,162]
       else [169,248,248,248,248,248,248,248,248,249,241,162,161,161,160,164]
   | X86_64 \<Rightarrow> lo_small url)"

definition delta_bulk :: "arch \<Rightarrow> bool \<Rightarrow> u8x16" where
  "delta_bulk a url = (case a of
     AArch64 \<Rightarrow> if url then [185,185,191,191,4,17,224,0,0,0,0,0,0,0,0,0]
       else [185,185,191,191,4,16,19,0,0,0,0,0,0,0,0,0]
   | X86_64 \<Rightarrow> delta_small url)"

definition bulk_valid :: "arch \<Rightarrow> bool \<Rightarrow> u8x16 \<Rightarrow> u8x16" where
  "bulk_valid a url x = vand (lookup a (lo_bulk a url) (vand x (splat 15)))
     (lookup a (hi_bulk a url) (high_bits a x))"

definition bulk_values :: "arch \<Rightarrow> bool \<Rightarrow> u8x16 \<Rightarrow> u8x16" where
  "bulk_values a url x = translate a x (high_bits a x) (bulk_valid a url x) (delta_bulk a url)
     (splat (if url then 95 else 47)) (splat (if url then 33 else 253))"

text \<open>The state the two bulk loops hand on: destination, its offset and room, source offset, bytes
  written.\<close>

type_synonym dec_state = "bytes \<times> nat \<times> nat \<times> nat \<times> nat"

function mime_loop ::
  "arch \<Rightarrow> bool \<Rightarrow> bytes \<Rightarrow> bytes \<Rightarrow> nat \<Rightarrow> nat \<Rightarrow> nat \<Rightarrow> nat \<Rightarrow> dec_state option" where
  "mime_loop a url src dst d dlen n written =
    (if \<not> (80 \<le> size_sub (length src) n \<and> 57 \<le> dlen) then Some (dst, d, dlen, n, written)
     else do {
       c \<leftarrow> rd1 src (n + 76);
       if \<not> (c = 10 \<or> c = 13) then Some (dst, d, dlen, n, written)
       else do {
         (x0, x1, x2, x3) \<leftarrow> decode_load64 a src n;
         x4 \<leftarrow> load16 src (n + 64);
         let v0 = bulk_valid a url x0;
         let v1 = bulk_valid a url x1;
         let v2 = bulk_valid a url x2;
         let v3 = bulk_valid a url x3;
         let v4 = bulk_valid a url x4;
         if \<not> all_nonzero a (min16 (min16 v0 v1) (min16 (min16 v2 v3) (vor v4 tail4)))
         then Some (dst, d, dlen, n, written)
         else do {
           dst \<leftarrow> decode_store48 a dst d (bulk_values a url x0) (bulk_values a url x1)
             (bulk_values a url x2) (bulk_values a url x3);
           let p4 = decode_pack a (bulk_values a url x4);
           dst \<leftarrow> store9 dst (d + 48) p4;
           let n = n + 77;
           e \<leftarrow> rd1 src (n - 1);
           f \<leftarrow> (if e = 13 then map_option (\<lambda>c. c = 10) (rd1 src n) else Some False);
           mime_loop a url src dst (d + 57) (dlen - 57) (if f then n + 1 else n) (written + 57)
         }
       }
     })"
  by pat_completeness auto
termination
  by (relation "measure (\<lambda>(a, url, src, dst, d, dlen, n, written). dlen)") auto

lemma skip_nl_ge: "skip_nl src n = Some m \<Longrightarrow> n \<le> m"
proof (induction src n rule: skip_nl.induct)
  case (1 src n)
  then show ?case
    by (auto simp: skip_nl.simps [of src n] split: if_splits bind_splits)
qed

lemma rd1_less: "rd1 p i = Some c \<Longrightarrow> i < length p"
  by (simp add: rd1_Some_iff)

lemma decode_load64_bound: "decode_load64 a src i = Some b \<Longrightarrow> i + 64 \<le> length src"
  by (cases a) (auto simp: decode_load64_def load16_def bind_eq_Some_conv dest: rd_bound)

function bulk_loop ::
  "arch \<Rightarrow> bool \<Rightarrow> bytes \<Rightarrow> bytes \<Rightarrow> nat \<Rightarrow> nat \<Rightarrow> nat \<Rightarrow> nat \<Rightarrow> dec_state option" where
  "bulk_loop a url src dst d dlen n written =
    (if \<not> (64 \<le> size_sub (length src) n \<and> 52 \<le> dlen) then Some (dst, d, dlen, n, written)
     else do {
       c \<leftarrow> rd1 src n;
       if c = 13 \<or> c = 10 then do {
         n \<leftarrow> skip_nl src (n + 1);
         bulk_loop a url src dst d dlen n written
       } else do {
         (x0, x1, x2, x3) \<leftarrow> decode_load64 a src n;
         let v0 = bulk_valid a url x0;
         let v1 = bulk_valid a url x1;
         let v2 = bulk_valid a url x2;
         let v3 = bulk_valid a url x3;
         if all_nonzero a (min16 (min16 v0 v1) (min16 v2 v3)) then do {
           dst \<leftarrow> decode_store48 a dst d (bulk_values a url x0) (bulk_values a url x1)
             (bulk_values a url x2) (bulk_values a url x3);
           bulk_loop a url src dst (d + 48) (dlen - 48) (n + 64) (written + 48)
         } else Some (dst, d, dlen, n, written)
       }
     })"
  by pat_completeness auto
termination
  by (relation "measure (\<lambda>(a, url, src, dst, d, dlen, n, written). length src - n)")
    (auto dest!: skip_nl_ge rd1_less decode_load64_bound)

definition tinygodriver_base64_decode ::
  "arch \<Rightarrow> bytes \<Rightarrow> bytes \<Rightarrow> bool \<Rightarrow> (bytes \<times> nat \<times> nat) option" where
  "tinygodriver_base64_decode a dst src url =
    (if length src < 256 then decode_small a dst 0 (length dst) src url
     else do {
       n \<leftarrow> skip_nl src 0;
       (dst, d, dlen, n, written) \<leftarrow> mime_loop a url src dst 0 (length dst) n 0;
       (dst, d, dlen, n, written) \<leftarrow> bulk_loop a url src dst d dlen n written;
       (dst, r, w) \<leftarrow> decode_small a dst d dlen (drop n src) url;
       Some (dst, r + n, w + written)
     })"

section \<open>The encoders\<close>

definition offsets :: "bool \<Rightarrow> u8x16" where
  "offsets url = (if url then [65,71,252,252,252,252,252,252,252,252,252,252,239,32,0,0]
     else [65,71,252,252,252,252,252,252,252,252,252,252,237,240,0,0])"

definition spread_word :: "u32 \<Rightarrow> u32" where
  "spread_word x = (drop_bit 18 x AND 0x0000003f) OR (drop_bit 4 x AND 0x00003f00) OR
     (push_bit 10 x AND 0x003f0000) OR (push_bit 24 x AND 0x3f000000)"

definition encode_sextets :: "arch \<Rightarrow> u8x16 \<Rightarrow> u8x16" where
  "encode_sextets a x = (case a of
     AArch64 \<Rightarrow>
       let y = lookup a x [0,0,1,2,3,3,4,5,6,6,7,8,9,9,10,11];
           z = lookup a x [255,1,2,255,255,4,5,255,255,7,8,255,255,10,11,255]
       in vand (vor (ushl y [-2,4,2,0,-2,4,2,0,-2,4,2,0,-2,4,2,0])
                    (ushl z [0,-4,-6,0,0,-4,-6,0,0,-4,-6,0,0,-4,-6,0])) (splat 63)
   | X86_64 \<Rightarrow> u8x16_of (map spread_word
       (u32x4_of (lookup a x [2,1,0,255,5,4,3,255,8,7,6,255,11,10,9,255]))))"

definition encode_index :: "u8x16 \<Rightarrow> u8x16" where
  "encode_index v = vadd (vand (vsub v (splat 51)) (vcmp (>) v (splat 51)))
     (vand (vcmp (>) v (splat 25)) (splat 1))"

function encode_small_loop ::
  "arch \<Rightarrow> bool \<Rightarrow> bytes \<Rightarrow> bytes \<Rightarrow> nat \<Rightarrow> nat \<Rightarrow> nat \<Rightarrow> (bytes \<times> nat) option" where
  "encode_small_loop a url src dst d dlen n =
    (if 16 \<le> size_sub (length src) n \<and> 16 \<le> dlen then do {
       x \<leftarrow> load16 src n;
       let v = encode_sextets a x;
       dst \<leftarrow> store16 dst d (vadd v (lookup a (offsets url) (encode_index v)));
       encode_small_loop a url src dst (d + 16) (dlen - 16) (n + 12)
     } else Some (dst, n))"
  by pat_completeness auto
termination
  by (relation "measure (\<lambda>(a, url, src, dst, d, dlen, n). dlen)") auto

definition encode_small ::
  "arch \<Rightarrow> bytes \<Rightarrow> nat \<Rightarrow> nat \<Rightarrow> bytes \<Rightarrow> bool \<Rightarrow> (bytes \<times> nat) option" where
  "encode_small a dst d dlen src url = encode_small_loop a url src dst d dlen 0"

definition encode_lookup64 :: "bytes \<Rightarrow> u8x16 \<Rightarrow> u8x16" where
  "encode_lookup64 t v = map (\<lambda>k. if unat k < 64 then t ! unat k else 0) v"

definition encode_table :: "bool \<Rightarrow> bytes" where
  "encode_table url = map of_char ''ABCDEFGHIJKLMNOP'' @ map of_char ''QRSTUVWXYZabcdef'' @
     map of_char ''ghijklmnopqrstuv'' @
     map of_char (if url then ''wxyz0123456789-_'' else ''wxyz0123456789+/'')"

function encode_large_loop ::
  "bool \<Rightarrow> bytes \<Rightarrow> bytes \<Rightarrow> nat \<Rightarrow> nat \<Rightarrow> nat \<Rightarrow> (bytes \<times> nat \<times> nat \<times> nat) option" where
  "encode_large_loop url src dst d dlen n =
    (if 48 \<le> size_sub (length src) n \<and> 64 \<le> dlen then do {
       x \<leftarrow> rd src n 48;
       let x0 = map (\<lambda>k. x ! (3 * k)) [0..<16];
       let x1 = map (\<lambda>k. x ! (3 * k + 1)) [0..<16];
       let x2 = map (\<lambda>k. x ! (3 * k + 2)) [0..<16];
       let a = encode_lookup64 (encode_table url) (vshr x0 2);
       let b = encode_lookup64 (encode_table url) (vand (vor (vshl x0 4) (vshr x1 4)) (splat 63));
       let c = encode_lookup64 (encode_table url) (vand (vor (vshl x1 2) (vshr x2 6)) (splat 63));
       let e = encode_lookup64 (encode_table url) (vand x2 (splat 63));
       dst \<leftarrow> wr dst d (concat (map (\<lambda>k. [a ! k, b ! k, c ! k, e ! k]) [0..<16]));
       encode_large_loop url src dst (d + 64) (dlen - 64) (n + 48)
     } else Some (dst, d, dlen, n))"
  by pat_completeness auto
termination
  by (relation "measure (\<lambda>(url, src, dst, d, dlen, n). dlen)") auto

definition encode_large :: "bytes \<Rightarrow> bytes \<Rightarrow> bool \<Rightarrow> (bytes \<times> nat) option" where
  "encode_large dst src url = do {
     (dst, d, dlen, n) \<leftarrow> encode_large_loop url src dst 0 (length dst) 0;
     (dst, m) \<leftarrow> encode_small AArch64 dst d dlen (drop n src) url;
     Some (dst, n + m)
   }"

definition tinygodriver_base64_encode ::
  "arch \<Rightarrow> bytes \<Rightarrow> bytes \<Rightarrow> bool \<Rightarrow> (bytes \<times> nat) option" where
  "tinygodriver_base64_encode a dst src url = (case a of
     AArch64 \<Rightarrow> if 256 \<le> length src then encode_large dst src url
       else encode_small a dst 0 (length dst) src url
   | X86_64 \<Rightarrow> encode_small a dst 0 (length dst) src url)"

declare decode_small_loop.simps [simp del] mime_loop.simps [simp del]
  bulk_loop.simps [simp del] encode_small_loop.simps [simp del] encode_large_loop.simps [simp del]

end
