(* ===== verification/SimdBase64_Lanes.thy ===== *)
theory SimdBase64_Lanes
  imports SimdBase64
begin

text \<open>
  What one lane, one word and one vector of the base64 kernels compute: the classifier tables accept
  exactly the alphabet, the offset tables give the sextet of a character and the character of a
  sextet, and the shuffles regroup sextets as \<open>pack\<close> and \<open>unpack\<close> do.
\<close>

section \<open>Lanes\<close>

definition lookup1 :: "arch \<Rightarrow> u8x16 \<Rightarrow> u8 \<Rightarrow> u8" where
  "lookup1 a t k = (case a of AArch64 \<Rightarrow> if unat k < 16 then t ! unat k else 0
     | X86_64 \<Rightarrow> if bit k 7 then 0 else t ! unat (k AND 15))"

lemma lookup_map: "lookup a t idx = map (lookup1 a t) idx"
  by (cases a) (simp_all add: lookup_def tbl_def pshufb_def lookup1_def)

lemma length_lookup [simp]: "length (lookup a t idx) = length idx"
  by (simp add: lookup_map)

lemma low_nibble_index: "unat ((x :: u8) AND 15) < 16 \<and> \<not> bit (x AND 15) 7 \<and> (x AND 15) AND 15 = x AND 15"
proof -
  have "x AND 15 < 16" by (rule all_u8_check [where P = "\<lambda>x. x AND 15 < 16"]) code_simp
  then show ?thesis by (simp add: word_less_nat_alt bit_simps and.assoc)
qed

lemma lookup1_nibble: "lookup1 a t (x AND 15) = t ! unat (x AND 15)"
  using low_nibble_index [of x] by (cases a) (simp_all add: lookup1_def)

definition small_class :: "bool \<Rightarrow> u8 \<Rightarrow> u8" where
  "small_class url c = lo_small url ! unat (c AND 15) AND hi_small ! unat (drop_bit 4 c AND 15)"

definition neon_class :: "bool \<Rightarrow> u8 \<Rightarrow> u8" where
  "neon_class url c = lo_bulk AArch64 url ! unat (c AND 15) AND
     lookup1 AArch64 (hi_bulk AArch64 url) (drop_bit 3 c)"

definition bulk_class :: "arch \<Rightarrow> bool \<Rightarrow> u8 \<Rightarrow> u8" where
  "bulk_class a url = (case a of AArch64 \<Rightarrow> neon_class url | X86_64 \<Rightarrow> small_class url)"

lemma small_valid_map: "length x = 16 \<Longrightarrow> small_valid a url x = map (small_class url) x"
  by (simp add: small_valid_def lookup_map vec_simps comp_def lookup1_nibble small_class_def)

lemma bulk_valid_map: "length x = 16 \<Longrightarrow> bulk_valid a url x = map (bulk_class a url) x"
  by (cases a) (simp_all add: bulk_valid_def high_bits_def bulk_class_def lookup_map vec_simps
      comp_def lookup1_nibble small_class_def neon_class_def lo_bulk_def hi_bulk_def hi_small_def)

lemma small_class_valid: "small_class url c \<noteq> 0 \<longleftrightarrow> is_b64 url c"
  by (rule all_u8_check [where P = "\<lambda>c. small_class url c \<noteq> 0 \<longleftrightarrow> is_b64 url c"])
    (cases url; simp only:; code_simp)

lemma neon_class_valid: "neon_class url c \<noteq> 0 \<longleftrightarrow> is_b64 url c"
  by (rule all_u8_check [where P = "\<lambda>c. neon_class url c \<noteq> 0 \<longleftrightarrow> is_b64 url c"])
    (cases url; simp only:; code_simp)

lemma bulk_class_valid: "bulk_class a url c \<noteq> 0 \<longleftrightarrow> is_b64 url c"
  by (cases a) (simp_all add: bulk_class_def small_class_valid neon_class_valid)

definition small_value :: "bool \<Rightarrow> u8 \<Rightarrow> u8" where
  "small_value url c = (if url
     then c + delta_small url ! unat (drop_bit 4 c AND 15) + ((if c = 95 then 255 else 0) AND 33)
     else c + delta_small url ! unat (drop_bit 4 c AND 15) - ((if c = 47 then 255 else 0) AND 3))"

definition bulk_value :: "arch \<Rightarrow> bool \<Rightarrow> u8 \<Rightarrow> u8" where
  "bulk_value a url c = (case a of
     AArch64 \<Rightarrow> c + lookup1 a (delta_bulk a url) (clz8 (neon_class url c))
   | X86_64 \<Rightarrow> c + delta_small url ! unat (drop_bit 4 c AND 15) +
       ((if c = (if url then 95 else 47) then 255 else 0) AND (if url then 33 else 253)))"

lemma small_values_map: "length x = 16 \<Longrightarrow> small_values a url x = map (small_value url) x"
  by (cases url) (simp_all add: small_values_def lookup_map vec_simps comp_def lookup1_nibble small_value_def)

lemma bulk_values_map: "length x = 16 \<Longrightarrow> bulk_values a url x = map (bulk_value a url) x"
  by (cases a) (simp_all add: bulk_values_def translate_def bulk_valid_map bulk_class_def high_bits_def
      lookup_map vec_simps comp_def lookup1_nibble bulk_value_def delta_bulk_def)

lemma small_value_char: "v < 64 \<Longrightarrow> small_value url (b64_char url v) = v"
  by (rule small_u8_check [where P = "\<lambda>v. small_value url (b64_char url v) = v"])
    (cases url; simp only:; code_simp)

lemma bulk_value_char: "v < 64 \<Longrightarrow> bulk_value a url (b64_char url v) = v"
  by (rule small_u8_check [where P = "\<lambda>v. bulk_value a url (b64_char url v) = v"])
    (cases a; cases url; simp only:; code_simp)

lemma small_value_val: "is_b64 url c \<Longrightarrow> small_value url c = the (b64_val url c)"
  using small_value_char b64_char_val b64_val_less by fastforce

lemma bulk_value_val: "is_b64 url c \<Longrightarrow> bulk_value a url c = the (b64_val url c)"
  using bulk_value_char b64_char_val b64_val_less by fastforce

end
