(* ===== verification/SimdBase64_Dec.thy ===== *)
theory SimdBase64_Dec
  imports SimdBase64_Lanes
begin

text \<open>
  The base64 decoders: what a block of each loop writes, the invariant of the three loops
  (\<open>dec_run\<close>) and the correctness of \<open>tinygodriver_base64_decode\<close>.
\<close>

section \<open>Reductions\<close>

lemma all_nonzero_iff: "length v = 16 \<Longrightarrow> all_nonzero a v \<longleftrightarrow> (\<forall>x \<in> set v. x \<noteq> 0)"
  by (cases a) (auto simp: all_nonzero_def reduce_min_nonzero pmovmskb_zero vec_simps)

lemma all_nonzero_map:
  "length x = 16 \<Longrightarrow> all_nonzero a (map f x) \<longleftrightarrow> list_all (\<lambda>c. f c \<noteq> 0) x"
  by (simp add: all_nonzero_iff list_all_iff)

lemma or_1_nonzero: "(x :: u8) OR 1 \<noteq> 0"
  using bit_or_iff [of x 1 0] by (metis bit_0 bit_0_eq bot_apply odd_one bot_bool_def)

lemma or_tail:
  assumes "length x = 16" and "t = replicate m 0 @ replicate (16 - m) 1" and "m \<le> 16"
  shows "all_nonzero a (vor (map f x) t) \<longleftrightarrow> list_all (\<lambda>c. f c \<noteq> 0) (take m x)"
proof -
  have lt: "length t = 16" using assms by simp
  have nth: "vor (map f x) t ! i = f (x ! i) OR (if i < m then 0 else 1)" if "i < 16" for i
    using that assms lt by (simp add: nth_append)
  have "all_nonzero a (vor (map f x) t) \<longleftrightarrow> (\<forall>i < 16. vor (map f x) t ! i \<noteq> 0)"
    using assms(1) lt by (simp add: all_nonzero_iff all_set_conv_all_nth)
  also have "\<dots> \<longleftrightarrow> (\<forall>i < m. f (x ! i) \<noteq> 0)"
    using nth assms(3) or_1_nonzero by (smt (verit) bit.disj_zero_right order_less_le_trans)
  finally show ?thesis using assms by (simp add: list_all_length)
qed

lemma tails:
  "tail4 = replicate 12 0 @ replicate (16 - 12) 1" "tail8 = replicate 8 0 @ replicate (16 - 8) 1"
  "tail12 = replicate 4 0 @ replicate (16 - 4) 1"
  unfolding tail4_def tail8_def tail12_def by code_simp+

lemma fringe_digits_map:
  assumes "length x = 16"
  shows "fringe_digits a (map f x) =
    (if list_all (\<lambda>c. f c \<noteq> 0) (take 12 x) then Some 12
     else if list_all (\<lambda>c. f c \<noteq> 0) (take 8 x) then Some 8
     else if list_all (\<lambda>c. f c \<noteq> 0) (take 4 x) then Some 4 else None)"
  unfolding fringe_digits_def or_tail [OF assms tails(1), simplified]
    or_tail [OF assms tails(2), simplified] or_tail [OF assms tails(3), simplified] by simp

section \<open>Regrouping\<close>

lemma take_pack: "4 * q \<le> length xs \<Longrightarrow> pack (take (4 * q) xs) = take (3 * q) (pack xs)"
proof -
  assume q: "4 * q \<le> length xs"
  have "pack xs = pack (take (4 * q) xs) @ pack (drop (4 * q) xs)"
    using pack_append [of "take (4 * q) xs" "drop (4 * q) xs"] q by simp
  then show ?thesis using q by (simp add: min_absorb2)
qed

lemma less_64_bits: "(x :: u8) < 64 \<Longrightarrow> \<not> bit x 6 \<and> \<not> bit x 7"
  by (rule small_u8_check [where P = "\<lambda>x. \<not> bit x 6 \<and> \<not> bit x 7"]) code_simp

lemma pack_word_bytes:
  fixes a b c d :: u8
  assumes "a < 64" "b < 64" "c < 64" "d < 64"
  defines "w \<equiv> ucast a OR push_bit 8 (ucast b) OR push_bit 16 (ucast c) OR push_bit 24 (ucast d) :: u32"
  shows "ucast (drop_bit 16 (pack_word w)) = push_bit 2 a OR drop_bit 4 b"
    and "ucast (drop_bit 8 (pack_word w)) = push_bit 4 b OR drop_bit 2 c"
    and "ucast (pack_word w) = push_bit 6 c OR d"
  unfolding pack_word_def Let_def w_def
  by (rule bit_word_eqI, erule nat_less_8_cases;
      simp add: bit_simps bit_u8_ge less_64_bits assms(1-4))+

lemma lookup1_lit [simp]:
  "lookup1 a t 0 = t ! 0" "lookup1 a t 1 = t ! 1" "lookup1 a t 255 = 0"
  "lookup1 a t 2 = t ! 2" "lookup1 a t 3 = t ! 3" "lookup1 a t 4 = t ! 4" "lookup1 a t 5 = t ! 5" "lookup1 a t 6 = t ! 6" "lookup1 a t 7 = t ! 7" "lookup1 a t 8 = t ! 8"
  "lookup1 a t 9 = t ! 9" "lookup1 a t 10 = t ! 10" "lookup1 a t 11 = t ! 11" "lookup1 a t 12 = t ! 12" "lookup1 a t 13 = t ! 13" "lookup1 a t 14 = t ! 14" "lookup1 a t 15 = t ! 15"
  by (cases a; simp add: lookup1_def)+

lemma decode_pack_neon: "length v = 16 \<Longrightarrow> take 12 (decode_pack AArch64 v) = pack v"
proof -
  assume "length v = 16"
  from arg_cong [OF list_16_nth [OF this], of pack] show ?thesis
    by (simp add: decode_pack_def lookup_map ushl_def vlift_def)
qed

lemma decode_pack_sse_words:
  fixes v :: u8x16
  defines "w \<equiv> \<lambda>k. pack_word (ucast (v ! (4 * k)) OR push_bit 8 (ucast (v ! (4 * k + 1))) OR
     push_bit 16 (ucast (v ! (4 * k + 2))) OR push_bit 24 (ucast (v ! (4 * k + 3))))"
  shows "take 12 (decode_pack X86_64 v) =
     concat (map (\<lambda>k. [ucast (drop_bit 16 (w k)), ucast (drop_bit 8 (w k)), ucast (w k)]) [0, 1, 2, 3])"
  by (simp add: decode_pack_def lookup_map u8x16_of_def u32x4_of_def w_def)

lemma pack_takeI:
  assumes len: "4 * q \<le> length v" "3 * q \<le> length ys"
    and q: "\<And>k. k < q \<Longrightarrow> ys ! (3 * k) = push_bit 2 (v ! (4 * k)) OR drop_bit 4 (v ! (4 * k + 1)) \<and>
      ys ! (3 * k + 1) = push_bit 4 (v ! (4 * k + 1)) OR drop_bit 2 (v ! (4 * k + 2)) \<and>
      ys ! (3 * k + 2) = push_bit 6 (v ! (4 * k + 2)) OR v ! (4 * k + 3)"
  shows "take (3 * q) ys = pack (take (4 * q) v)"
proof (rule nth_equalityI)
  show "length (take (3 * q) ys) = length (pack (take (4 * q) v))" using len by (simp add: min_absorb2)
  fix i assume "i < length (take (3 * q) ys)"
  then have i: "i < 3 * q" by simp
  define k j where "k = i div 3" and "j = i mod 3"
  have k: "k < q" and ij: "i = 3 * k + j" and j: "j = 0 \<or> j = 1 \<or> j = 2"
    using i unfolding k_def j_def by auto
  have "k < length (take (4 * q) v) div 4" using k len by (simp add: min_absorb2)
  from pack_nth [OF this] show "take (3 * q) ys ! i = pack (take (4 * q) v) ! i"
    using q [OF k] j k i len unfolding ij by auto
qed

lemma sse_word_bytes:
  assumes "k < 4" and "\<And>i. i < 4 \<Longrightarrow> v ! (4 * k + i) < 64"
  shows "decode_pack X86_64 v ! (3 * k) = push_bit 2 (v ! (4 * k)) OR drop_bit 4 (v ! (4 * k + 1)) \<and>
      decode_pack X86_64 v ! (3 * k + 1) = push_bit 4 (v ! (4 * k + 1)) OR drop_bit 2 (v ! (4 * k + 2)) \<and>
      decode_pack X86_64 v ! (3 * k + 2) = push_bit 6 (v ! (4 * k + 2)) OR v ! (4 * k + 3)"
proof -
  define w where "w = (\<lambda>k. pack_word (ucast (v ! (4 * k)) OR push_bit 8 (ucast (v ! (4 * k + 1))) OR
     push_bit 16 (ucast (v ! (4 * k + 2))) OR push_bit 24 (ucast (v ! (4 * k + 3)))))"
  have p: "decode_pack X86_64 v ! m = concat (map (\<lambda>k. [ucast (drop_bit 16 (w k)),
      ucast (drop_bit 8 (w k)), ucast (w k)]) [0, 1, 2, 3]) ! m" if "m < 12" for m
    using decode_pack_sse_words [of v] that unfolding w_def by (metis nth_take)
  have "k = 0 \<or> k = 1 \<or> k = 2 \<or> k = 3" using assms(1) by auto
  then have "decode_pack X86_64 v ! (3 * k) = ucast (drop_bit 16 (w k)) \<and>
      decode_pack X86_64 v ! (3 * k + 1) = ucast (drop_bit 8 (w k)) \<and>
      decode_pack X86_64 v ! (3 * k + 2) = ucast (w k)"
    by (elim disjE) (simp_all add: p)
  moreover have "v ! (4 * k) < 64" "v ! (4 * k + 1) < 64" "v ! (4 * k + 2) < 64" "v ! (4 * k + 3) < 64"
    using assms(2) [of 0] assms(2) [of 1] assms(2) [of 2] assms(2) [of 3] by simp_all
  ultimately show ?thesis using pack_word_bytes unfolding w_def by simp
qed

lemma length_decode_pack [simp]: "length v = 16 \<Longrightarrow> length (decode_pack a v) = 16"
  by (cases a) (simp_all add: decode_pack_def Let_def)

lemma decode_pack_take:
  assumes "length v = 16" and "q \<le> 4" and "\<And>i. i < 4 * q \<Longrightarrow> v ! i < 64"
  shows "take (3 * q) (decode_pack a v) = pack (take (4 * q) v)"
proof (cases a)
  case AArch64
  have "take (3 * q) (decode_pack a v) = take (3 * q) (take 12 (decode_pack a v))"
    using assms(2) by (simp add: min_absorb1)
  then show ?thesis
    using AArch64 decode_pack_neon [OF assms(1)] assms(1,2) take_pack [of q v] by simp
next
  case X86_64
  show ?thesis
    unfolding X86_64 using assms by (intro pack_takeI sse_word_bytes) auto
qed

section \<open>The invariant of the decoding loops\<close>

text \<open>Between two points of a decoding run the source has advanced from \<open>n\<close> to \<open>n'\<close>, and the
  destination holds, behind the \<open>d\<close> bytes that were there, the decoding of the characters in between
  with the line breaks dropped. At most four bytes behind the output have changed.\<close>

definition dec_run ::
  "bool \<Rightarrow> bytes \<Rightarrow> bytes \<Rightarrow> nat \<Rightarrow> nat \<Rightarrow> bytes \<Rightarrow> nat \<Rightarrow> nat \<Rightarrow> bool" where
  "dec_run url src dst d n dst' d' n' \<longleftrightarrow> n \<le> n' \<and> n' \<le> length src \<and> length dst' = length dst \<and>
     (\<exists>out. b64_dec url (filter (\<lambda>c. \<not> is_nl c) (take (n' - n) (drop n src))) = Some out \<and>
        d' = d + length out \<and> d' \<le> length dst \<and> take d' dst' = take d dst @ out) \<and>
     drop (d' + 4) dst' = drop (d' + 4) dst"

lemma dec_run_refl: "n \<le> length src \<Longrightarrow> d \<le> length dst \<Longrightarrow> dec_run url src dst d n dst d n"
  by (simp add: dec_run_def)

lemma dec_run_trans:
  assumes "dec_run url src dst d n dst1 d1 n1" and "dec_run url src dst1 d1 n1 dst2 d2 n2"
  shows "dec_run url src dst d n dst2 d2 n2"
proof -
  obtain u where u: "b64_dec url (filter (\<lambda>c. \<not> is_nl c) (take (n1 - n) (drop n src))) = Some u"
      "d1 = d + length u" "take d1 dst1 = take d dst @ u"
    and r1: "n \<le> n1" "length dst1 = length dst" "drop (d1 + 4) dst1 = drop (d1 + 4) dst"
    using assms(1) unfolding dec_run_def by auto
  obtain v where v: "b64_dec url (filter (\<lambda>c. \<not> is_nl c) (take (n2 - n1) (drop n1 src))) = Some v"
      "d2 = d1 + length v" "d2 \<le> length dst1" "take d2 dst2 = take d1 dst1 @ v"
    and r2: "n1 \<le> n2" "n2 \<le> length src" "length dst2 = length dst1" "drop (d2 + 4) dst2 = drop (d2 + 4) dst1"
    using assms(2) unfolding dec_run_def by auto
  have "take (n2 - n) (drop n src) = take (n1 - n) (drop n src) @ take (n2 - n1) (drop n1 src)"
    using r1(1) r2(1) take_add [of "n1 - n" "n2 - n1" "drop n src"] by simp
  then have "b64_dec url (filter (\<lambda>c. \<not> is_nl c) (take (n2 - n) (drop n src))) = Some (u @ v)"
    using b64_dec_append [OF u(1) v(1)] by simp
  moreover have "drop (d2 + 4) dst1 = drop (d2 + 4) dst"
    using arg_cong [OF r1(3), of "drop (length v)"] v(2) by (simp add: ac_simps)
  ultimately show ?thesis
    using u v r1 r2 unfolding dec_run_def by (auto intro!: exI [of _ "u @ v"])
qed

lemma skip_nl_spec:
  "n \<le> length src \<Longrightarrow> \<exists>m. skip_nl src n = Some m \<and> n \<le> m \<and> m \<le> length src \<and>
     filter (\<lambda>c. \<not> is_nl c) (take (m - n) (drop n src)) = []"
proof (induction src n rule: skip_nl.induct)
  case (1 src n)
  show ?case
  proof (cases "n < length src \<and> is_nl (src ! n)")
    case True
    then obtain m where m: "skip_nl src (n + 1) = Some m" "n + 1 \<le> m" "m \<le> length src"
        "filter (\<lambda>c. \<not> is_nl c) (take (m - (n + 1)) (drop (n + 1) src)) = []"
      using 1 by (auto simp: rd1_Some_iff)
    have "take (m - n) (drop n src) = src ! n # take (m - (n + 1)) (drop (n + 1) src)"
      using True m(2) by (simp add: Cons_nth_drop_Suc [symmetric] take_Cons' del: Cons_nth_drop_Suc)
    then show ?thesis
      using True m by (auto simp: skip_nl.simps [of src n] rd1_def)
  next
    case False
    then show ?thesis
      using 1 by (auto simp: skip_nl.simps [of src n] rd1_def)
  qed
qed

lemma dec_run_skip:
  assumes "n \<le> length src" and "d \<le> length dst"
  obtains m where "skip_nl src n = Some m" and "m \<le> length src" and "dec_run url src dst d n dst d m"
  using skip_nl_spec [OF assms(1)] assms(2) by (auto simp: dec_run_def)

lemma dec_run_block:
  assumes "n + k \<le> length src" and "k mod 4 = 0" and "list_all (is_b64 url) (take k (drop n src))"
    and "out = pack (map (\<lambda>c. the (b64_val url c)) (take k (drop n src)))"
    and "wr dst d (out @ junk) = Some dst'" and "length junk \<le> 4"
  shows "dec_run url src dst d n dst' (d + length out) (n + k)"
proof -
  have b: "d + length out + length junk \<le> length dst"
    and dst': "dst' = take d dst @ (out @ junk) @ drop (d + length (out @ junk)) dst"
    using assms(5) by (auto simp: wr_Some_iff)
  have "filter (\<lambda>c. \<not> is_nl c) (take k (drop n src)) = take k (drop n src)"
    using assms(3) b64_nl by (auto simp: filter_id_conv list_all_iff)
  then have dec: "b64_dec url (filter (\<lambda>c. \<not> is_nl c) (take k (drop n src))) = Some out"
    using assms(1-4) by (simp add: b64_dec_def)
  have "drop (d + length out + 4) dst' = drop (d + length out + 4) dst"
    using b assms(6) by (simp add: dst' ac_simps)
  then show ?thesis
    unfolding dec_run_def using assms(1) dec b by (auto simp: dst')
qed

section \<open>The compact decoder\<close>

lemma small_block:
  assumes "length x = 16" and "q \<le> 4" and "list_all (is_b64 url) (take (4 * q) x)"
  shows "take (3 * q) (decode_pack a (small_values a url x)) =
    pack (map (\<lambda>c. the (b64_val url c)) (take (4 * q) x))"
proof -
  have v: "small_value url (x ! i) = the (b64_val url (x ! i))" "small_value url (x ! i) < 64"
    if "i < 4 * q" for i
  proof -
    have "is_b64 url (x ! i)" using assms that by (auto simp: list_all_length)
    then show "small_value url (x ! i) = the (b64_val url (x ! i))" "small_value url (x ! i) < 64"
      using small_value_val b64_val_less by force+
  qed
  have "take (4 * q) (map (small_value url) x) = map (\<lambda>c. the (b64_val url c)) (take (4 * q) x)"
    using v(1) assms(1,2) by (intro nth_equalityI) auto
  then show ?thesis
    using decode_pack_take [of "map (small_value url) x" q a] v(2) assms(1,2)
    by (simp add: small_values_map)
qed

lemma copy_out_eq: "length v = 16 \<Longrightarrow> m \<le> 16 \<Longrightarrow> copy_out dst i v m = wr dst i (take m v)"
  by (simp add: copy_out_def store16_def wr_def rd_def)

text \<open>Where a decoder may stop.\<close>

definition dec_stuck :: "bool \<Rightarrow> bytes \<Rightarrow> nat \<Rightarrow> nat \<Rightarrow> bool" where
  "dec_stuck url src n room \<longleftrightarrow>
     length src - n < 16 \<or> room < 16 \<or> \<not> list_all (is_b64 url) (take 4 (drop n src))"

lemma decode_small_loop_step:
  assumes n: "n \<le> length src" and d: "d + dlen = length dst" and size: "length src < size_mod"
  obtains m where "decode_small_loop a url src dst d dlen n written = Some (dst, m, written)"
      and "dec_run url src dst d n dst d m" and "dec_stuck url src m dlen"
    | dst' p m where "0 < p" and "p \<le> dlen" and "dec_run url src dst d n dst' (d + p) m" and "m \<le> length src"
      and "length dst' = length dst"
      and "decode_small_loop a url src dst d dlen n written =
        decode_small_loop a url src dst' (d + p) (dlen - p) m (written + p)"
proof -
  obtain m where m: "skip_nl src n = Some m" "m \<le> length src" "dec_run url src dst d n dst d m"
    using dec_run_skip [OF n, of d dst url] d by auto
  show thesis
  proof (cases "length src - m < 16 \<or> dlen < 16")
    case True
    then show thesis
      using m size by (intro that(1) [of m]) (auto simp: decode_small_loop.simps [of _ _ _ _ _ _ n] dec_stuck_def)
  next
    case False
    let ?x = "take 16 (drop m src)"
    let ?p = "decode_pack a (small_values a url ?x)"
    have x: "load16 src m = Some ?x" "length ?x = 16" using False by (auto simp: load16_def rd_def)
    have lp: "length ?p = 16" using x(2) by (simp add: small_values_map)
    have valid: "small_valid a url ?x = map (small_class url) ?x" by (rule small_valid_map [OF x(2)])
    have t: "take k ?x = take k (drop m src)" if "k \<le> 16" for k using that by (simp add: min_absorb1)
    have block: "dec_run url src dst d n dst' (d + 3 * q) (m + 4 * q)"
      if "q \<le> 4" and "list_all (is_b64 url) (take (4 * q) ?x)"
        and "wr dst d (take (3 * q) ?p @ junk) = Some dst'" and "length junk \<le> 4" for q dst' junk
    proof (rule dec_run_trans [OF m(3)])
      have "m + 4 * q \<le> length src" using that(1) False by linarith
      then show "dec_run url src dst d m dst' (d + 3 * q) (m + 4 * q)"
        using dec_run_block [of m "4 * q" src url "take (3 * q) ?p" dst d junk dst'] that False lp
          small_block [OF x(2) that(1,2), of a] t [of "4 * q"] by simp
    qed
    have unfold: "decode_small_loop a url src dst d dlen n written =
      (if list_all (is_b64 url) ?x then do {
         dst' \<leftarrow> wr dst d ?p;
         decode_small_loop a url src dst' (d + 12) (dlen - 12) (m + 16) (written + 12)
       } else case fringe_digits a (map (small_class url) ?x) of
           None \<Rightarrow> Some (dst, m, written)
         | Some k \<Rightarrow> do {
             dst' \<leftarrow> copy_out dst d ?p (if k = 12 then 9 else if k = 8 then 6 else 3);
             decode_small_loop a url src dst' (d + k div 4 * 3) (dlen - k div 4 * 3) (m + k)
               (written + k div 4 * 3)
           })"
      using False m(1,2) size x
      by (simp add: decode_small_loop.simps [of _ _ _ _ _ _ n] valid all_nonzero_map small_class_valid
          store16_def Let_def split: option.split)
    consider "list_all (is_b64 url) ?x" | q where "\<not> list_all (is_b64 url) ?x" "1 \<le> q" "q \<le> 3"
        "fringe_digits a (map (small_class url) ?x) = Some (4 * q)" "list_all (is_b64 url) (take (4 * q) ?x)"
      | "\<not> list_all (is_b64 url) ?x" "fringe_digits a (map (small_class url) ?x) = None"
        "\<not> list_all (is_b64 url) (take 4 ?x)"
      unfolding fringe_digits_map [OF x(2)] small_class_valid
      by (cases "list_all (is_b64 url) (take 12 ?x)"; cases "list_all (is_b64 url) (take 8 ?x)";
          cases "list_all (is_b64 url) (take 4 ?x)") force+
    then show thesis
    proof cases
      case 1
      obtain dst' where w: "wr dst d ?p = Some dst'" "length dst' = length dst"
        using False d lp by (simp add: wr_def)
      have "take (3 * 4) ?p @ drop 12 ?p = ?p" by simp
      then have "dec_run url src dst d n dst' (d + 12) (m + 16)"
        using block [of 4 "drop 12 ?p" dst'] 1 w(1) lp by simp
      then show thesis
        using that(2) [of 12 dst' "m + 16"] False 1 w unfold by auto
    next
      case (2 q)
      have sz: "(if 4 * q = 12 then 9 else if 4 * q = 8 then 6 else 3) = 3 * q" "4 * q div 4 * 3 = 3 * q"
        using 2(2,3) by auto
      obtain dst' where w: "wr dst d (take (3 * q) ?p) = Some dst'" "length dst' = length dst"
        using False d lp 2(3) by (simp add: wr_def)
      have "dec_run url src dst d n dst' (d + 3 * q) (m + 4 * q)"
        using block [of q "[]" dst'] 2 w(1) by simp
      moreover have "copy_out dst d ?p (if 4 * q = 12 then 9 else if 4 * q = 8 then 6 else 3) = Some dst'"
        unfolding sz using copy_out_eq [OF lp, of "3 * q"] 2(3) w(1) by simp
      then have "decode_small_loop a url src dst d dlen n written =
          decode_small_loop a url src dst' (d + 3 * q) (dlen - 3 * q) (m + 4 * q) (written + 3 * q)"
        unfolding unfold 2(4) using 2(1) by (simp only: if_False option.case bind.bind_lunit sz(2))
      ultimately show thesis
        using that(2) [of "3 * q" dst' "m + 4 * q"] False 2(2,3) w by auto
    next
      case 3
      then show thesis using that(1) [of m] m(3) unfold t [of 4] by (simp add: dec_stuck_def)
    qed
  qed
qed

lemma dec_run_length: "dec_run url src dst d n dst' d' n' \<Longrightarrow> length dst' = length dst"
  by (simp add: dec_run_def)

lemma decode_small_loop_spec:
  assumes "n \<le> length src" and "d + dlen = length dst" and "length src < size_mod"
  shows "\<exists>dst' m p. decode_small_loop a url src dst d dlen n written = Some (dst', m, written + p) \<and>
    p \<le> dlen \<and> dec_run url src dst d n dst' (d + p) m \<and> dec_stuck url src m (dlen - p)"
  using assms
proof (induction dlen arbitrary: dst d n written rule: less_induct)
  case (less dlen)
  show ?case
  proof (rule decode_small_loop_step [OF less.prems, of a url written], goal_cases)
    case (1 m)
    then show ?case by (intro exI [of _ dst] exI [of _ m] exI [of _ 0]) simp
  next
    case (2 dst' p m)
    have "dlen - p < dlen" and "d + p + (dlen - p) = length dst'" using 2 less.prems by auto
    from less.IH [OF this(1) \<open>m \<le> length src\<close> this(2) less.prems(3), of "written + p"]
    obtain dst'' m' p' where r: "decode_small_loop a url src dst' (d + p) (dlen - p) m (written + p) =
          Some (dst'', m', written + p + p')"
        "p' \<le> dlen - p" "dec_run url src dst' (d + p) m dst'' (d + p + p') m'"
        "dec_stuck url src m' (dlen - p - p')" by blast
    from dec_run_trans [OF 2(3) r(3)] r 2 show ?case
      by (intro exI [of _ dst''] exI [of _ m'] exI [of _ "p + p'"]) (auto simp: ac_simps)
  qed
qed

section \<open>One block of the bulk decoder\<close>

lemma all_nonzero_min16:
  "length u = 16 \<Longrightarrow> length v = 16 \<Longrightarrow>
     all_nonzero a (min16 u v) \<longleftrightarrow> all_nonzero a u \<and> all_nonzero a v"
proof -
  assume len: "length u = 16" "length v = 16"
  have "min x y \<noteq> 0 \<longleftrightarrow> x \<noteq> 0 \<and> y \<noteq> 0" for x y :: u8
    by (metis min.commute min_def word_zero_le order_antisym)
  then show ?thesis
    using len by (auto simp: all_nonzero_iff min16_def all_set_conv_all_nth)
qed

lemma length_min16 [simp]: "length (min16 u v) = min (length u) (length v)"
  by (simp add: min16_def)

lemma lanes_of_block:
  "(\<forall>i < 64. P i) \<longleftrightarrow> (\<forall>k < 16. P (4 * k)) \<and> (\<forall>k < 16. P (4 * k + 1)) \<and>
     (\<forall>k < 16. P (4 * k + 2)) \<and> (\<forall>k < 16. P (4 * k + 3 :: nat))"
proof -
  have "P i" if h: "(\<forall>k < 16. P (4 * k))" "(\<forall>k < 16. P (4 * k + 1))"
      "(\<forall>k < 16. P (4 * k + 2))" "(\<forall>k < 16. P (4 * k + 3))" and "i < 64" for i
  proof -
    define k where "k = i div 4"
    have "k < 16" and "i = 4 * k \<or> i = 4 * k + 1 \<or> i = 4 * k + 2 \<or> i = 4 * k + 3"
      using \<open>i < 64\<close> unfolding k_def by auto
    then show ?thesis using h by auto
  qed
  then show ?thesis by auto
qed

lemma load64_valid:
  assumes "n + 64 \<le> length src"
  obtains x0 x1 x2 x3 where "decode_load64 a src n = Some (x0, x1, x2, x3)"
    and "length x0 = 16" "length x1 = 16" "length x2 = 16" "length x3 = 16"
    and "list_all P x0 \<and> list_all P x1 \<and> list_all P x2 \<and> list_all P x3 \<longleftrightarrow> list_all P (take 64 (drop n src))"
proof (cases a)
  case AArch64
  let ?b = "take 64 (drop n src)"
  have "length ?b = 64" using assms by simp
  then have "list_all P ?b \<longleftrightarrow> (\<forall>i < 64. P (?b ! i))" by (simp only: list_all_length)
  then show thesis
    using assms AArch64 that unfolding lanes_of_block [of "\<lambda>i. P (?b ! i)"]
    by (simp add: decode_load64_def rd_def list_all_length)
next
  case X86_64
  have "take 64 (drop n src) = take 16 (drop n src) @ take 16 (drop (n + 16) src) @
      take 16 (drop (n + 32) src) @ take 16 (drop (n + 48) src)"
    using take_add [of 16 48 "drop n src"] take_add [of 16 32 "drop (n + 16) src"]
      take_add [of 16 16 "drop (n + 32) src"] by (simp add: add.commute)
  then show thesis
    using assms X86_64 that by (simp add: decode_load64_def load16_def rd_def)
qed

lemma concat_triples_nth:
  "k < m \<Longrightarrow> concat (map (\<lambda>k. [f k, g k, h k]) [0..<m]) ! (3 * k) = f k \<and>
     concat (map (\<lambda>k. [f k, g k, h k]) [0..<m]) ! (3 * k + 1) = g k \<and>
     concat (map (\<lambda>k. [f k, g k, h k]) [0..<m]) ! (3 * k + 2) = h k"
proof (induction m)
  case (Suc m)
  have "length (concat (map (\<lambda>k. [f k, g k, h k]) [0..<m])) = 3 * m" by (induction m) auto
  with Suc show ?case by (cases "k = m") (auto simp: nth_append)
qed simp

lemma length_concat_triples [simp]: "length (concat (map (\<lambda>k. [f k, g k, h k]) [0..<m])) = 3 * m"
  by (induction m) auto

lemma vsli_bytes:
  fixes a b :: u8
  shows "b < 64 \<Longrightarrow> (drop_bit 4 b AND mask 2) OR push_bit 2 a = push_bit 2 a OR drop_bit 4 b"
    and "b < 64 \<Longrightarrow> (drop_bit 2 b AND mask 4) OR push_bit 4 a = push_bit 4 a OR drop_bit 2 b"
    and "b < 64 \<Longrightarrow> (b AND mask 6) OR push_bit 6 a = push_bit 6 a OR b"
  by (rule bit_word_eqI, erule nat_less_8_cases; simp add: bit_simps bit_u8_ge less_64_bits)+

lemma wr_wr:
  assumes "wr p i u = Some q" and "k \<le> length u" and "length u \<le> k + length v"
  shows "wr q (i + k) v = wr p i (take k u @ v)"
proof -
  have i: "i + length u \<le> length p" and q: "q = take i p @ u @ drop (i + length u) p"
    using assms(1) by (auto simp: wr_Some_iff)
  have "take (i + k) q = take i p @ take k u" using i assms(2) by (simp add: q)
  moreover have "drop (i + k + length v) q = drop (i + k + length v) p"
    using i assms(2,3) by (simp add: q ac_simps)
  moreover have "length q = length p" using i by (simp add: q)
  ultimately show ?thesis using assms(2) by (simp add: wr_def ac_simps min_absorb2)
qed

lemma store48_neon:
  assumes b: "length b = 64" and v: "\<And>i. i < 64 \<Longrightarrow> b ! i < 64"
  shows "decode_store48 AArch64 dst d (map (\<lambda>k. b ! (4 * k)) [0..<16]) (map (\<lambda>k. b ! (4 * k + 1)) [0..<16])
      (map (\<lambda>k. b ! (4 * k + 2)) [0..<16]) (map (\<lambda>k. b ! (4 * k + 3)) [0..<16]) = wr dst d (pack b)"
proof -
  let ?ys = "concat (map (\<lambda>k. [push_bit 2 (b ! (4 * k)) OR drop_bit 4 (b ! (4 * k + 1)),
      push_bit 4 (b ! (4 * k + 1)) OR drop_bit 2 (b ! (4 * k + 2)),
      push_bit 6 (b ! (4 * k + 2)) OR b ! (4 * k + 3)]) [0..<16])"
  have "take (3 * 16) ?ys = pack (take (4 * 16) b)"
    by (rule pack_takeI [OF _ _ concat_triples_nth]) (simp_all add: b del: upt_rec_numeral)
  then have ys: "?ys = pack b" using b by (simp del: upt_rec_numeral)
  have "map (\<lambda>k. [vsli (vshr (map (\<lambda>k. b ! (4 * k + 1)) [0..<16]) 4) (map (\<lambda>k. b ! (4 * k)) [0..<16]) 2 ! k,
        vsli (vshr (map (\<lambda>k. b ! (4 * k + 2)) [0..<16]) 2) (map (\<lambda>k. b ! (4 * k + 1)) [0..<16]) 4 ! k,
        vsli (map (\<lambda>k. b ! (4 * k + 3)) [0..<16]) (map (\<lambda>k. b ! (4 * k + 2)) [0..<16]) 6 ! k]) [0..<16] =
      map (\<lambda>k. [push_bit 2 (b ! (4 * k)) OR drop_bit 4 (b ! (4 * k + 1)),
        push_bit 4 (b ! (4 * k + 1)) OR drop_bit 2 (b ! (4 * k + 2)),
        push_bit 6 (b ! (4 * k + 2)) OR b ! (4 * k + 3)]) [0..<16]"
    by (rule map_cong) (use v vsli_bytes in \<open>auto simp: vsli_def vshr_def simp del: upt_rec_numeral\<close>)
  then show ?thesis
    unfolding decode_store48_def using ys by (simp del: upt_rec_numeral map_eq_conv)
qed

lemma store48_sse:
  assumes len: "length x0 = 16" "length x1 = 16" "length x2 = 16" "length x3 = 16"
    and v: "\<And>i. i < 64 \<Longrightarrow> (x0 @ x1 @ x2 @ x3) ! i < 64" and room: "d + 52 \<le> length dst"
  shows "decode_store48 X86_64 dst d x0 x1 x2 x3 =
    wr dst d (pack (x0 @ x1 @ x2 @ x3) @ drop 12 (decode_pack X86_64 x3))"
proof -
  have lane: "i < 16 \<Longrightarrow> x0 ! i < 64" "i < 16 \<Longrightarrow> x1 ! i < 64" "i < 16 \<Longrightarrow> x2 ! i < 64"
      "i < 16 \<Longrightarrow> x3 ! i < 64" for i
    using v [of i] v [of "16 + i"] v [of "32 + i"] v [of "48 + i"] len by (auto simp: nth_append)
  have p: "take 12 (decode_pack X86_64 x) = pack x" if "length x = 16" "\<And>i. i < 16 \<Longrightarrow> x ! i < 64" for x
    using decode_pack_take [of x 4 X86_64] that by simp
  let ?p = "decode_pack X86_64"
  have w: "\<exists>q. wr dst d u = Some q" if "length u \<le> 52" for u using that room by (simp add: wr_def)
  obtain q1 where q1: "wr dst d (?p x0) = Some q1" using w [of "?p x0"] len by auto
  have s2: "wr q1 (d + 12) (?p x1) = wr dst d (pack x0 @ ?p x1)"
    using wr_wr [OF q1, of 12 "?p x1"] len p lane by simp
  obtain q2 where q2: "wr dst d (pack x0 @ ?p x1) = Some q2" using w [of "pack x0 @ ?p x1"] len by auto
  have s3: "wr q2 (d + 24) (?p x2) = wr dst d (pack x0 @ pack x1 @ ?p x2)"
    using wr_wr [OF q2, of 24 "?p x2"] len p lane by simp
  obtain q3 where q3: "wr dst d (pack x0 @ pack x1 @ ?p x2) = Some q3"
    using w [of "pack x0 @ pack x1 @ ?p x2"] len by auto
  have s4: "wr q3 (d + 36) (?p x3) = wr dst d (pack x0 @ pack x1 @ pack x2 @ ?p x3)"
    using wr_wr [OF q3, of 36 "?p x3"] len p lane by simp
  have "?p x3 = pack x3 @ drop 12 (?p x3)" using p [OF len(4)] lane(4) append_take_drop_id by metis
  then show ?thesis
    unfolding decode_store48_def arch.case store16_def q1 bind.bind_lunit s2 q2 s3 q3 s4
    using len by (simp add: pack_append)
qed

text \<open>The four vectors of a block are valid together exactly when its 64 characters are, and then
  the stores write their decoding, with four scratch bytes behind it on x86-64.\<close>

lemma bulk_values_sextet:
  "length x = 16 \<Longrightarrow> list_all (is_b64 url) x \<Longrightarrow>
     bulk_values a url x = map (\<lambda>c. the (b64_val url c)) x"
  by (simp add: bulk_values_map bulk_value_val list_all_iff)

lemma bulk_valid_all:
  "length x = 16 \<Longrightarrow> all_nonzero a (bulk_valid a url x) \<longleftrightarrow> list_all (is_b64 url) x"
  by (simp add: bulk_valid_map all_nonzero_map bulk_class_valid)

lemma length_bulk_valid [simp]: "length x = 16 \<Longrightarrow> length (bulk_valid a url x) = 16"
  by (simp add: bulk_valid_map)

lemma sextets_less:
  "list_all (is_b64 url) b \<Longrightarrow> i < length b \<Longrightarrow> map (\<lambda>c. the (b64_val url c)) b ! i < 64"
  using b64_val_less by (fastforce simp: list_all_length)

lemma bulk_store:
  assumes n: "n + 64 \<le> length src" and room: "d + 52 \<le> length dst"
    and load: "decode_load64 a src n = Some (x0, x1, x2, x3)"
    and ok: "list_all (is_b64 url) (take 64 (drop n src))"
  obtains junk where "length junk \<le> 4" and
    "decode_store48 a dst d (bulk_values a url x0) (bulk_values a url x1) (bulk_values a url x2)
       (bulk_values a url x3) =
     wr dst d (pack (map (\<lambda>c. the (b64_val url c)) (take 64 (drop n src))) @ junk)"
proof (cases a)
  case AArch64
  let ?b = "take 64 (drop n src)" and ?val = "\<lambda>c. the (b64_val url c)"
  have lb: "length ?b = 64" using n by simp
  have x: "x0 = map (\<lambda>k. ?b ! (4 * k)) [0..<16]" "x1 = map (\<lambda>k. ?b ! (4 * k + 1)) [0..<16]"
      "x2 = map (\<lambda>k. ?b ! (4 * k + 2)) [0..<16]" "x3 = map (\<lambda>k. ?b ! (4 * k + 3)) [0..<16]"
    using load n unfolding AArch64 by (simp_all add: decode_load64_def rd_def del: upt_rec_numeral)
  have "is_b64 url (?b ! i)" if "i < 64" for i using ok that unfolding list_all_length lb by blast
  then have e: "bulk_values a url (map (\<lambda>k. ?b ! (4 * k + j)) [0..<16]) =
      map (\<lambda>k. map ?val ?b ! (4 * k + j)) [0..<16]" if "j < 4" for j
    unfolding bulk_values_map [of "map (\<lambda>k. ?b ! (4 * k + j)) [0..<16]", simplified]
    using that lb by (simp add: bulk_value_val del: upt_rec_numeral nth_take)
  have lt: "(0 :: nat) < 4" "(1 :: nat) < 4" "(2 :: nat) < 4" "(3 :: nat) < 4" by simp_all
  have "decode_store48 a dst d (bulk_values a url x0) (bulk_values a url x1) (bulk_values a url x2)
       (bulk_values a url x3) = wr dst d (pack (map ?val ?b))"
    unfolding x e [OF lt(1), unfolded add_0_right] e [OF lt(2)] e [OF lt(3)] e [OF lt(4)] unfolding AArch64
    by (rule store48_neon) (use sextets_less [OF ok] lb in \<open>simp_all only: length_map\<close>)
  then show thesis by (intro that [of "[]"]) simp_all
next
  case X86_64
  let ?b = "take 64 (drop n src)" and ?val = "\<lambda>c. the (b64_val url c)"
  have x: "x0 = take 16 (drop n src)" "x1 = take 16 (drop (n + 16) src)"
      "x2 = take 16 (drop (n + 32) src)" "x3 = take 16 (drop (n + 48) src)"
    using load n unfolding X86_64 by (simp_all add: decode_load64_def load16_def rd_def)
  then have len: "length x0 = 16" "length x1 = 16" "length x2 = 16" "length x3 = 16" using n by auto
  have b: "?b = x0 @ x1 @ x2 @ x3"
    using take_add [of 16 48 "drop n src"] take_add [of 16 32 "drop (n + 16) src"]
      take_add [of 16 16 "drop (n + 32) src"] by (simp add: x add.commute)
  then have v: "bulk_values a url x0 = map ?val x0" "bulk_values a url x1 = map ?val x1"
      "bulk_values a url x2 = map ?val x2" "bulk_values a url x3 = map ?val x3"
    using ok len by (simp_all add: bulk_values_sextet)
  show thesis
    using store48_sse [of "map ?val x0" "map ?val x1" "map ?val x2" "map ?val x3" d dst]
      sextets_less [OF ok] n room len
    by (intro that [of "drop 12 (decode_pack X86_64 (map ?val x3))"]) (simp_all add: v [unfolded X86_64] b X86_64)
qed

lemma bulk_run:
  assumes "n + 64 \<le> length src" and "d + 52 \<le> length dst"
    and "decode_load64 a src n = Some (x0, x1, x2, x3)" and "list_all (is_b64 url) (take 64 (drop n src))"
  obtains dst' where "decode_store48 a dst d (bulk_values a url x0) (bulk_values a url x1)
       (bulk_values a url x2) (bulk_values a url x3) = Some dst'"
    and "length dst' = length dst" and "dec_run url src dst d n dst' (d + 48) (n + 64)"
proof -
  let ?out = "pack (map (\<lambda>c. the (b64_val url c)) (take 64 (drop n src)))"
  have l: "length ?out = 48" using assms(1) by simp
  obtain junk where j: "length junk \<le> 4" "decode_store48 a dst d (bulk_values a url x0) (bulk_values a url x1)
       (bulk_values a url x2) (bulk_values a url x3) = wr dst d (?out @ junk)"
    using bulk_store [OF assms] .
  obtain dst' where w: "wr dst d (?out @ junk) = Some dst'" "length dst' = length dst"
    using assms(2) j(1) l by (simp add: wr_def)
  have "dec_run url src dst d n dst' (d + length ?out) (n + 64)"
    by (rule dec_run_block [OF assms(1) _ assms(4) refl w(1) j(1)]) simp
  then show thesis using that [of dst'] j(2) w unfolding l by simp
qed

section \<open>The bulk loops\<close>

lemma dec_run_nl:
  assumes "n < length src" and "is_nl (src ! n)" and "d \<le> length dst"
  shows "dec_run url src dst d n dst d (n + 1)"
proof -
  have "take (n + 1 - n) (drop n src) = [src ! n]"
    using assms(1) by (simp add: Cons_nth_drop_Suc [symmetric] del: Cons_nth_drop_Suc)
  then show ?thesis using assms by (simp add: dec_run_def)
qed

lemma bulk_loop_step:
  assumes n: "n \<le> length src" and d: "d + dlen = length dst" and size: "length src < size_mod"
  obtains "bulk_loop a url src dst d dlen n written = Some (dst, d, dlen, n, written)"
    | dst' p m where "n < m" "m \<le> length src" "p \<le> dlen" "length dst' = length dst"
      and "dec_run url src dst d n dst' (d + p) m"
      and "bulk_loop a url src dst d dlen n written =
        bulk_loop a url src dst' (d + p) (dlen - p) m (written + p)"
proof (cases "64 \<le> length src - n \<and> 52 \<le> dlen")
  case False
  then show thesis using n size by (intro that(1)) (auto simp: bulk_loop.simps [of _ _ _ _ _ _ n])
next
  case True
  then have n64: "n < length src" "n + 64 \<le> length src" by auto
  show thesis
  proof (cases "is_nl (src ! n)")
    case nl: True
    obtain m where m: "skip_nl src (n + 1) = Some m" "m \<le> length src" "dec_run url src dst d (n + 1) dst d m"
      using dec_run_skip [of "n + 1" src d dst url] n64(1) d by auto
    have "dec_run url src dst d n dst d m"
      using dec_run_trans [OF dec_run_nl m(3)] n64(1) nl d by auto
    then show thesis
      using True n size nl m skip_nl_ge [OF m(1)]
      by (intro that(2) [of m 0 dst]) (auto simp: bulk_loop.simps [of _ _ _ _ _ _ n] rd1_def is_nl_def)
  next
    case no_nl: False
    obtain x0 x1 x2 x3 where load: "decode_load64 a src n = Some (x0, x1, x2, x3)"
      and len: "length x0 = 16" "length x1 = 16" "length x2 = 16" "length x3 = 16"
      and ok: "list_all (is_b64 url) x0 \<and> list_all (is_b64 url) x1 \<and> list_all (is_b64 url) x2 \<and>
        list_all (is_b64 url) x3 \<longleftrightarrow> list_all (is_b64 url) (take 64 (drop n src))"
      by (rule load64_valid [OF n64(2)])
    have guard: "all_nonzero a (min16 (min16 (bulk_valid a url x0) (bulk_valid a url x1))
        (min16 (bulk_valid a url x2) (bulk_valid a url x3))) \<longleftrightarrow> list_all (is_b64 url) (take 64 (drop n src))"
      using ok len by (simp add: all_nonzero_min16 bulk_valid_all)
    show thesis
    proof (cases "list_all (is_b64 url) (take 64 (drop n src))")
      case False
      then show thesis using True n64 n no_nl load guard size
        by (intro that(1)) (simp add: bulk_loop.simps [of _ _ _ _ _ _ n] rd1_def is_nl_def)
    next
      case valid: True
      obtain dst' where st: "decode_store48 a dst d (bulk_values a url x0) (bulk_values a url x1)
          (bulk_values a url x2) (bulk_values a url x3) = Some dst'" "length dst' = length dst"
        and run: "dec_run url src dst d n dst' (d + 48) (n + 64)"
        using bulk_run [OF n64(2) _ load valid, of d dst] True d by auto
      then show thesis
        using True n64 n no_nl load guard valid size
        by (intro that(2) [of "n + 64" 48 dst'])
          (simp_all add: bulk_loop.simps [of _ _ _ _ _ _ n] rd1_def is_nl_def)
    qed
  qed
qed

lemma bulk_loop_spec:
  assumes "n \<le> length src" and "d + dlen = length dst" and "length src < size_mod"
  shows "\<exists>dst' m p. bulk_loop a url src dst d dlen n written = Some (dst', d + p, dlen - p, m, written + p) \<and>
    p \<le> dlen \<and> dec_run url src dst d n dst' (d + p) m"
  using assms
proof (induction "length src - n" arbitrary: dst d dlen n written rule: less_induct)
  case less
  show ?case
  proof (rule bulk_loop_step [OF less.prems, of a url written], goal_cases)
    case 1
    then show ?case using less.prems dec_run_refl [of n src d dst url]
      by (intro exI [of _ dst] exI [of _ n] exI [of _ 0]) simp
  next
    case (2 dst' p m)
    have "length src - m < length src - n" and "d + p + (dlen - p) = length dst'" using 2 less.prems by auto
    from less.hyps [OF this(1) 2(2) this(2) less.prems(3), of "written + p"]
    obtain dst'' m' p' where r: "bulk_loop a url src dst' (d + p) (dlen - p) m (written + p) =
          Some (dst'', d + p + p', dlen - p - p', m', written + p + p')"
        "p' \<le> dlen - p" "dec_run url src dst' (d + p) m dst'' (d + p + p') m'" by blast
    from dec_run_trans [OF 2(5) r(3)] r 2 show ?case
      by (intro exI [of _ dst''] exI [of _ m'] exI [of _ "p + p'"]) (auto simp: ac_simps)
  qed
qed

lemma mime_tail_run:
  assumes n: "n + 16 \<le> length src" and room: "d + 9 \<le> length dst"
    and ok: "list_all (is_b64 url) (take 12 (drop n src))"
  obtains dst' where "store9 dst d (decode_pack a (bulk_values a url (take 16 (drop n src)))) = Some dst'"
    and "length dst' = length dst" and "dec_run url src dst d n dst' (d + 9) (n + 12)"
proof -
  let ?x = "take 16 (drop n src)" and ?out = "pack (map (\<lambda>c. the (b64_val url c)) (take 12 (drop n src)))"
  have lx: "length ?x = 16" and t: "take 12 ?x = take 12 (drop n src)" using n by (simp_all add: min_absorb1)
  have b: "is_b64 url (?x ! i)" if "i < 12" for i
    using ok that lx unfolding t [symmetric] list_all_length by simp
  have v: "take 12 (bulk_values a url ?x) = map (\<lambda>c. the (b64_val url c)) (take 12 (drop n src))"
    unfolding bulk_values_map [OF lx] take_map t using ok by (simp add: bulk_value_val list_all_iff)
  have "bulk_values a url ?x ! i < 64" if "i < 12" for i
    using b [OF that] that lx bulk_value_val b64_val_less by (fastforce simp: bulk_values_map)
  then have out: "take 9 (decode_pack a (bulk_values a url ?x)) = ?out"
    using decode_pack_take [of "bulk_values a url ?x" 3 a] lx v by (simp add: bulk_values_map)
  have lo: "length ?out = 9" using n by simp
  obtain dst' where w: "wr dst d ?out = Some dst'" "length dst' = length dst"
    using room lo by (simp add: wr_def)
  have "dec_run url src dst d n dst' (d + length ?out) (n + 12)"
    using dec_run_block [of n 12 src url ?out dst d "[]" dst'] n ok w(1) by simp
  moreover have "store9 dst d (decode_pack a (bulk_values a url ?x)) = Some dst'"
    using copy_out_eq [of "decode_pack a (bulk_values a url ?x)" 9 dst d] w(1) lx out
    by (simp add: store9_def bulk_values_map)
  ultimately show thesis using that w(2) unfolding lo by blast
qed

lemma mime_loop_step:
  assumes n: "n \<le> length src" and d: "d + dlen = length dst" and size: "length src < size_mod"
  obtains "mime_loop a url src dst d dlen n written = Some (dst, d, dlen, n, written)"
    | dst' m where "m \<le> length src" "57 \<le> dlen" "length dst' = length dst"
      and "dec_run url src dst d n dst' (d + 57) m"
      and "mime_loop a url src dst d dlen n written =
        mime_loop a url src dst' (d + 57) (dlen - 57) m (written + 57)"
proof (cases "80 \<le> length src - n \<and> 57 \<le> dlen \<and> is_nl (src ! (n + 76))")
  case False
  then show thesis using n size
    by (intro that(1)) (auto simp: mime_loop.simps [of _ _ _ _ _ _ n] is_nl_def rd1_def)
next
  case True
  then have n64: "n + 64 \<le> length src" and x4: "load16 src (n + 64) = Some (take 16 (drop (n + 64) src))"
      "length (take 16 (drop (n + 64) src)) = 16"
    by (auto simp: load16_def rd_def)
  obtain x0 x1 x2 x3 where load: "decode_load64 a src n = Some (x0, x1, x2, x3)"
    and len: "length x0 = 16" "length x1 = 16" "length x2 = 16" "length x3 = 16"
    and ok: "list_all (is_b64 url) x0 \<and> list_all (is_b64 url) x1 \<and> list_all (is_b64 url) x2 \<and>
      list_all (is_b64 url) x3 \<longleftrightarrow> list_all (is_b64 url) (take 64 (drop n src))"
    by (rule load64_valid [OF n64])
  let ?x4 = "take 16 (drop (n + 64) src)"
  have t: "take 12 ?x4 = take 12 (drop (n + 64) src)" by (simp add: min_absorb1)
  have "all_nonzero a (vor (bulk_valid a url ?x4) tail4) \<longleftrightarrow> list_all (is_b64 url) (take 12 (drop (n + 64) src))"
    unfolding bulk_valid_map [OF x4(2)] or_tail [OF x4(2) tails(1), simplified] t bulk_class_valid ..
  then have guard: "all_nonzero a (min16 (min16 (bulk_valid a url x0) (bulk_valid a url x1))
      (min16 (min16 (bulk_valid a url x2) (bulk_valid a url x3)) (vor (bulk_valid a url ?x4) tail4))) \<longleftrightarrow>
      list_all (is_b64 url) (take 64 (drop n src)) \<and> list_all (is_b64 url) (take 12 (drop (n + 64) src))"
    using ok len x4(2) by (simp add: all_nonzero_min16 bulk_valid_all tail4_def) blast
  show thesis
  proof (cases "list_all (is_b64 url) (take 64 (drop n src)) \<and> list_all (is_b64 url) (take 12 (drop (n + 64) src))")
    case False
    then show thesis using True n load x4 guard size
      by (intro that(1)) (auto simp: mime_loop.simps [of _ _ _ _ _ _ n] rd1_def is_nl_def)
  next
    case valid: True
    obtain dst1 where s1: "decode_store48 a dst d (bulk_values a url x0) (bulk_values a url x1)
        (bulk_values a url x2) (bulk_values a url x3) = Some dst1" "length dst1 = length dst"
        "dec_run url src dst d n dst1 (d + 48) (n + 64)"
      using bulk_run [OF n64 _ load, of d dst url] valid True d by auto
    obtain dst2 where s2: "store9 dst1 (d + 48) (decode_pack a (bulk_values a url ?x4)) = Some dst2"
        "length dst2 = length dst1" "dec_run url src dst1 (d + 48) (n + 64) dst2 (d + 57) (n + 76)"
    proof -
      have "n + 64 + 16 \<le> length src" and "d + 48 + 9 \<le> length dst1" using True d s1(2) by auto
      from mime_tail_run [OF this valid [THEN conjunct2], of a] show thesis
        using that by (auto simp: ac_simps)
    qed
    have "dec_run url src dst2 (d + 57) (n + 76) dst2 (d + 57) (n + 77)"
      using dec_run_nl [of "n + 76" src "d + 57" dst2] True d s1(2) s2(2) by (auto simp: ac_simps)
    note run = dec_run_trans [OF dec_run_trans [OF s1(3) s2(3)] this]
    define crlf where "crlf \<longleftrightarrow> src ! (n + 76) = 13 \<and> src ! (n + 77) = 10"
    have "dec_run url src dst d n dst2 (d + 57) (if crlf then n + 78 else n + 77)"
      using dec_run_trans [OF run dec_run_nl [of "n + 77" src]] run True d s1(2) s2(2)
      by (auto simp: crlf_def is_nl_def ac_simps)
    moreover have "mime_loop a url src dst d dlen n written = mime_loop a url src dst2 (d + 57) (dlen - 57)
        (if crlf then n + 78 else n + 77) (written + 57)"
      using True n load x4 guard valid size s1(1) s2(1)
      by (auto simp: mime_loop.simps [of _ _ _ _ _ _ n] rd1_def is_nl_def crlf_def Let_def
          add.commute [of 76 n] add.commute [of 78 n])
    moreover have "(if crlf then n + 78 else n + 77) \<le> length src" using True by auto
    ultimately show thesis
      using that(2) [of "if crlf then n + 78 else n + 77" dst2] True s1(2) s2(2) by auto
  qed
qed

lemma mime_loop_spec:
  assumes "n \<le> length src" and "d + dlen = length dst" and "length src < size_mod"
  shows "\<exists>dst' m p. mime_loop a url src dst d dlen n written = Some (dst', d + p, dlen - p, m, written + p) \<and>
    p \<le> dlen \<and> dec_run url src dst d n dst' (d + p) m"
  using assms
proof (induction dlen arbitrary: dst d n written rule: less_induct)
  case (less dlen)
  show ?case
  proof (rule mime_loop_step [OF less.prems, of a url written], goal_cases)
    case 1
    then show ?case using less.prems dec_run_refl [of n src d dst url]
      by (intro exI [of _ dst] exI [of _ n] exI [of _ 0]) simp
  next
    case (2 dst' m)
    have "dlen - 57 < dlen" and "d + 57 + (dlen - 57) = length dst'" using 2 less.prems by auto
    from less.IH [OF this(1) 2(1) this(2) less.prems(3), of "written + 57"]
    obtain dst'' m' p' where r: "mime_loop a url src dst' (d + 57) (dlen - 57) m (written + 57) =
          Some (dst'', d + 57 + p', dlen - 57 - p', m', written + 57 + p')"
        "p' \<le> dlen - 57" "dec_run url src dst' (d + 57) m dst'' (d + 57 + p') m'" by blast
    from dec_run_trans [OF 2(4) r(3)] r 2 show ?case
      by (intro exI [of _ dst''] exI [of _ m'] exI [of _ "57 + p'"]) (auto simp: ac_simps)
  qed
qed

section \<open>The decoder\<close>

lemma dec_run_drop:
  assumes "dec_run url (drop k src) dst d 0 dst' d' m" and "k \<le> length src"
  shows "dec_run url src dst d k dst' d' (k + m)"
  using assms by (auto simp: dec_run_def)

lemma decode_spec:
  assumes size: "length src < size_mod"
  shows "\<exists>dst' n w. tinygodriver_base64_decode a dst src url = Some (dst', n, w) \<and>
    dec_run url src dst 0 0 dst' w n \<and> dec_stuck url src n (length dst - w)"
proof (cases "length src < 256")
  case True
  then show ?thesis
    using decode_small_loop_spec [of 0 src 0 "length dst" dst a url 0] size
    by (auto simp: tinygodriver_base64_decode_def decode_small_def)
next
  case False
  obtain m0 where m0: "skip_nl src 0 = Some m0" "m0 \<le> length src" "dec_run url src dst 0 0 dst 0 m0"
    using dec_run_skip [of 0 src 0 dst url] by auto
  obtain dst1 m1 p1 where r1: "mime_loop a url src dst 0 (length dst) m0 0 = Some (dst1, p1, length dst - p1, m1, p1)"
      "p1 \<le> length dst" "dec_run url src dst 0 m0 dst1 p1 m1"
    using mime_loop_spec [OF m0(2) _ size, of 0 "length dst" dst a url 0] by auto
  have d1: "m1 \<le> length src" "p1 + (length dst - p1) = length dst1" using r1 by (auto simp: dec_run_def)
  obtain dst2 m2 p2 where r2: "bulk_loop a url src dst1 p1 (length dst - p1) m1 p1 =
        Some (dst2, p1 + p2, length dst - p1 - p2, m2, p1 + p2)"
      "p2 \<le> length dst - p1" "dec_run url src dst1 p1 m1 dst2 (p1 + p2) m2"
    using bulk_loop_spec [OF d1 size, of a url p1] by auto
  have d2: "m2 \<le> length src" "p1 + p2 + (length dst - p1 - p2) = length dst2"
    using r2 d1 r1(2) by (auto simp: dec_run_def)
  have size2: "length (drop m2 src) < size_mod" using size by simp
  obtain dst3 m3 p3 where r3: "decode_small_loop a url (drop m2 src) dst2 (p1 + p2) (length dst - p1 - p2) 0 0 =
        Some (dst3, m3, p3)" "p3 \<le> length dst - p1 - p2"
      "dec_run url (drop m2 src) dst2 (p1 + p2) 0 dst3 (p1 + p2 + p3) m3"
      "dec_stuck url (drop m2 src) m3 (length dst - p1 - p2 - p3)"
    using decode_small_loop_spec [OF _ d2(2) size2, of 0 a url 0] by auto
  have "dec_run url src dst 0 0 dst3 (p1 + p2 + p3) (m2 + m3)"
    using dec_run_trans [OF dec_run_trans [OF dec_run_trans [OF m0(3) r1(3)] r2(3)] dec_run_drop [OF r3(3) d2(1)]] .
  moreover have "dec_stuck url src (m2 + m3) (length dst - (p1 + p2 + p3))"
    using r3(4) by (auto simp: dec_stuck_def ac_simps)
  ultimately show ?thesis
    using False m0(1) r1(1) r2(1) r3(1)
    by (simp add: tinygodriver_base64_decode_def decode_small_def ac_simps)
qed

text \<open>C2. The base64 decoder, on either architecture and for either alphabet, never leaves its
  buffers. What it wrote is the RFC 4648 decoding of the characters it consumed, line breaks dropped;
  behind that at most four bytes of the destination changed; and it stops only when fewer than 16
  source bytes or 16 destination bytes are left, or when the next four characters are no quantum of
  the alphabet.\<close>

theorem base64_decode_correct:
  assumes "length src < size_mod"
  shows "\<exists>dst' n w. tinygodriver_base64_decode a dst src url = Some (dst', n, w) \<and>
    length dst' = length dst \<and> n \<le> length src \<and> w \<le> length dst \<and>
    b64_dec url (filter (\<lambda>c. \<not> is_nl c) (take n src)) = Some (take w dst') \<and>
    drop (w + 4) dst' = drop (w + 4) dst \<and>
    (length src - n < 16 \<or> length dst - w < 16 \<or> list_ex (\<lambda>c. b64_val url c = None) (take 4 (drop n src)))"
proof -
  obtain dst' n w where r: "tinygodriver_base64_decode a dst src url = Some (dst', n, w)"
      "dec_run url src dst 0 0 dst' w n" "dec_stuck url src n (length dst - w)"
    using decode_spec [OF assms] by blast
  then show ?thesis
    by (intro exI [of _ dst'] exI [of _ n] exI [of _ w])
      (auto simp: dec_run_def dec_stuck_def list_all_iff list_ex_iff)
qed

theorem base64_decode_correct_witness:
  "length (replicate 20 65 :: bytes) < size_mod \<and>
   (\<exists>dst' n w. tinygodriver_base64_decode X86_64 (replicate 32 7) (replicate 20 65) False = Some (dst', n, w) \<and>
      n \<le> 20 \<and> b64_dec False (filter (\<lambda>c. \<not> is_nl c) (take n (replicate 20 65))) = Some (take w dst'))"
  using base64_decode_correct [of "replicate 20 65" X86_64 "replicate 32 7" False] by auto

end
