(* ===== verification/SimdBase64_Enc.thy ===== *)
theory SimdBase64_Enc
  imports SimdBase64_Dec
begin

text \<open>
  The base64 encoders: both write \<open>b64_enc\<close> of the prefix they consume, and what they write decodes
  back to it. \<open>enc_blocks\<close> and \<open>enc_count\<close> say how far the loops get.
\<close>

section \<open>Lanes and blocks\<close>

definition enc_index1 :: "u8 \<Rightarrow> u8" where
  "enc_index1 v = ((v - 51) AND (if 51 < v then 255 else 0)) + ((if 25 < v then 255 else 0) AND 1)"

lemma encode_index_map: "length v = 16 \<Longrightarrow> encode_index v = map enc_index1 v"
  by (simp add: encode_index_def vec_simps enc_index1_def comp_def)

lemma enc_offset: "v < 64 \<Longrightarrow> v + lookup1 a (offsets url) (enc_index1 v) = b64_char url v"
  by (rule small_u8_check [where P = "\<lambda>v. v + lookup1 a (offsets url) (enc_index1 v) = b64_char url v"])
    (cases a; cases url; simp only:; code_simp)

lemma enc_table: "v < 64 \<Longrightarrow> encode_table url ! unat v = b64_char url v"
  by (rule small_u8_check [where P = "\<lambda>v. encode_table url ! unat v = b64_char url v"])
    (cases url; simp only:; code_simp)

lemma encode_lookup64_char:
  "(\<And>x. x \<in> set v \<Longrightarrow> x < 64) \<Longrightarrow> encode_lookup64 (encode_table url) v = map (b64_char url) v"
  by (simp add: encode_lookup64_def enc_table word_less_nat_alt)

lemma spread_word_bytes:
  fixes x y z :: u8
  defines "w \<equiv> ucast z OR push_bit 8 (ucast y) OR push_bit 16 (ucast x) OR push_bit 24 (ucast (0 :: u8)) :: u32"
  shows "ucast (spread_word w) = drop_bit 2 x"
    and "ucast (drop_bit 8 (spread_word w)) = (push_bit 4 x OR drop_bit 4 y) AND 63"
    and "ucast (drop_bit 16 (spread_word w)) = (push_bit 2 y OR drop_bit 6 z) AND 63"
    and "ucast (drop_bit 24 (spread_word w)) = z AND 63"
  unfolding spread_word_def w_def
  by (rule bit_word_eqI, erule nat_less_8_cases; simp add: bit_simps bit_u8_ge)+

lemma drop_bit_2_and: "drop_bit 2 (x :: u8) AND 63 = drop_bit 2 x"
  by (rule bit_word_eqI, erule nat_less_8_cases; simp add: bit_simps bit_u8_ge)

lemma splat_16: "splat c = [c, c, c, c, c, c, c, c, c, c, c, c, c, c, c, c]"
  by (simp add: splat_def numeral_eq_Suc)

lemma encode_sextets_unpack:
  assumes "length x = 16"
  shows "encode_sextets a x = unpack (take 12 x)"
proof -
  have t: "take 12 x = [x ! 0, x ! 1, x ! 2, x ! 3, x ! 4, x ! 5, x ! 6, x ! 7, x ! 8, x ! 9, x ! 10, x ! 11]"
    using arg_cong [OF list_16_nth [OF assms], of "take 12"] by simp
  show ?thesis
  proof (cases a)
    case AArch64
    show ?thesis unfolding t AArch64
      by (simp add: encode_sextets_def lookup_map ushl_def vlift_def splat_16 drop_bit_2_and)
  next
    case X86_64
    show ?thesis unfolding t X86_64
      by (simp add: encode_sextets_def lookup_map u32x4_of_def u8x16_of_def spread_word_bytes [simplified])
  qed
qed

lemma encode_vector:
  assumes "length x = 16"
  shows "vadd (encode_sextets a x) (lookup a (offsets url) (encode_index (encode_sextets a x))) =
    b64_enc url (take 12 x)"
proof -
  let ?v = "unpack (take 12 x)"
  have len: "length ?v = 16" using assms by simp
  have "map (\<lambda>v. v + lookup1 a (offsets url) (enc_index1 v)) ?v = map (b64_char url) ?v"
    by (rule map_cong) (simp_all add: enc_offset unpack_less)
  then show ?thesis
    unfolding encode_sextets_unpack [OF assms] encode_index_map [OF len] lookup_map map_map
    by (simp add: vec_simps b64_enc_def comp_def)
qed

section \<open>The compact encoder\<close>

lemma encode_small_loop_spec:
  assumes "n \<le> length src" and "length src < size_mod"
  shows "encode_small_loop a url src (b @ r) (length b) (length r) n =
    (let k = min ((length src - n - 4) div 12) (length r div 16)
     in Some (b @ b64_enc url (take (12 * k) (drop n src)) @ drop (16 * k) r, n + 12 * k))"
  using assms
proof (induction "length r" arbitrary: n b r rule: less_induct)
  case less
  show ?case
  proof (cases "16 \<le> length src - n \<and> 16 \<le> length r")
    case False
    then have "min ((length src - n - 4) div 12) (length r div 16) = 0" by auto
    then show ?thesis
      using False less.prems by (auto simp: encode_small_loop.simps [of _ _ _ _ _ _ n] Let_def b64_enc_def)
  next
    case True
    let ?x = "take 16 (drop n src)" and ?o = "b64_enc url (take 12 (drop n src))"
    let ?k = "min ((length src - (n + 12) - 4) div 12) (length (drop 16 r) div 16)"
    have x: "load16 src n = Some ?x" "length ?x = 16" and t: "take 12 ?x = take 12 (drop n src)"
      using True by (auto simp: load16_def rd_def min_absorb1)
    have lo: "length ?o = 16" using True by simp
    have st: "store16 (b @ r) (length b) ?o = Some ((b @ ?o) @ drop 16 r)"
      using True lo wr_prefix [of ?o r b] by (simp add: store16_def)
    have step: "encode_small_loop a url src (b @ r) (length b) (length r) n =
        encode_small_loop a url src ((b @ ?o) @ drop 16 r) (length (b @ ?o)) (length (drop 16 r)) (n + 12)"
      using True less.prems x st lo unfolding encode_small_loop.simps [of _ _ _ _ _ _ n]
      by (simp add: Let_def encode_vector [OF x(2)] t)
    have k: "min ((length src - n - 4) div 12) (length r div 16) = Suc ?k"
    proof -
      have "12 \<le> length src - n - 4" using True by linarith
      then have "(length src - n - 4) div 12 = Suc ((length src - (n + 12) - 4) div 12)"
        using le_div_geq [of 12 "length src - n - 4"] by (simp add: ac_simps)
      moreover have "length r div 16 = Suc (length (drop 16 r) div 16)"
        using True le_div_geq [of 16 "length r"] by simp
      ultimately show ?thesis by (simp only: min_Suc_Suc)
    qed
    have "length (drop 16 r) < length r" and "n + 12 \<le> length src" using True by auto
    from less.hyps [OF this less.prems(2), of "b @ ?o"]
    have "encode_small_loop a url src (b @ r) (length b) (length r) n =
        Some ((b @ ?o) @ b64_enc url (take (12 * ?k) (drop (n + 12) src)) @ drop (16 * ?k) (drop 16 r),
          n + 12 + 12 * ?k)"
      unfolding step by (simp only: Let_def)
    moreover have "take (12 * Suc ?k) (drop n src) = take 12 (drop n src) @ take (12 * ?k) (drop (n + 12) src)"
      unfolding mult_Suc_right take_add by (simp add: add.commute)
    moreover have "length (take 12 (drop n src)) mod 3 = 0" using True by simp
    ultimately show ?thesis
      unfolding k Let_def by (simp only: b64_enc_append) (simp add: add.commute)
  qed
qed

section \<open>The bulk encoder\<close>

lemma concat_quads_nth:
  "k < m \<Longrightarrow> concat (map (\<lambda>k. [f k, g k, h k, i k]) [0..<m]) ! (4 * k) = f k \<and>
     concat (map (\<lambda>k. [f k, g k, h k, i k]) [0..<m]) ! (4 * k + 1) = g k \<and>
     concat (map (\<lambda>k. [f k, g k, h k, i k]) [0..<m]) ! (4 * k + 2) = h k \<and>
     concat (map (\<lambda>k. [f k, g k, h k, i k]) [0..<m]) ! (4 * k + 3) = i k"
proof (induction m)
  case (Suc m)
  have "length (concat (map (\<lambda>k. [f k, g k, h k, i k]) [0..<m])) = 4 * m" by (induction m) auto
  with Suc show ?case by (cases "k = m") (auto simp: nth_append)
qed simp

lemma length_concat_quads [simp]: "length (concat (map (\<lambda>k. [f k, g k, h k, i k]) [0..<m])) = 4 * m"
  by (induction m) auto

lemma unpack_quads:
  assumes "length x = 48"
  shows "unpack x = concat (map (\<lambda>k. [drop_bit 2 (x ! (3 * k)),
     (push_bit 4 (x ! (3 * k)) OR drop_bit 4 (x ! (3 * k + 1))) AND 63,
     (push_bit 2 (x ! (3 * k + 1)) OR drop_bit 6 (x ! (3 * k + 2))) AND 63, x ! (3 * k + 2) AND 63]) [0..<16])"
    (is "_ = ?r")
proof (rule nth_equalityI)
  show "length (unpack x) = length ?r" using assms by (simp del: upt_rec_numeral)
  fix i assume "i < length (unpack x)"
  then have i: "i < 64" using assms by simp
  define k where "k = i div 4"
  have k: "k < 16" and ik: "i = 4 * k \<or> i = 4 * k + 1 \<or> i = 4 * k + 2 \<or> i = 4 * k + 3"
    using i unfolding k_def by auto
  then have "k < length x div 3" using assms by simp
  note u = unpack_nth [OF this]
  show "unpack x ! i = ?r ! i"
    using ik
    by (elim disjE) (simp_all only: u concat_quads_nth [OF k, THEN conjunct1]
        concat_quads_nth [OF k, THEN conjunct2, THEN conjunct1]
        concat_quads_nth [OF k, THEN conjunct2, THEN conjunct2])
qed

lemma encode_lookup64_masked:
  "length v = 16 \<Longrightarrow> encode_lookup64 (encode_table url) (vand v (splat 63)) = map (\<lambda>v. b64_char url (v AND 63)) v"
  by (subst encode_lookup64_char) (auto simp: vec_simps and_63_less comp_def)

lemma encode_lookup64_top:
  "encode_lookup64 (encode_table url) (vshr v 2) = map (\<lambda>v. b64_char url (drop_bit 2 v)) v"
  by (subst encode_lookup64_char) (auto simp: vec_simps drop_bit_2_less comp_def)

lemma encode_block48:
  assumes "length x = 48"
  defines "x0 \<equiv> map (\<lambda>k. x ! (3 * k)) [0..<16]" and "x1 \<equiv> map (\<lambda>k. x ! (3 * k + 1)) [0..<16]"
    and "x2 \<equiv> map (\<lambda>k. x ! (3 * k + 2)) [0..<16]"
  shows "concat (map (\<lambda>k. [encode_lookup64 (encode_table url) (vshr x0 2) ! k,
      encode_lookup64 (encode_table url) (vand (vor (vshl x0 4) (vshr x1 4)) (splat 63)) ! k,
      encode_lookup64 (encode_table url) (vand (vor (vshl x1 2) (vshr x2 6)) (splat 63)) ! k,
      encode_lookup64 (encode_table url) (vand x2 (splat 63)) ! k]) [0..<16]) = b64_enc url x"
proof -
  have l: "length x0 = 16" "length x1 = 16" "length x2 = 16"
    by (simp_all add: x0_def x1_def x2_def del: upt_rec_numeral)
  then have l2: "length (vor (vshl x0 4) (vshr x1 4)) = 16" "length (vor (vshl x1 2) (vshr x2 6)) = 16"
    by simp_all
  have n: "x0 ! k = x ! (3 * k)" "x1 ! k = x ! (3 * k + 1)" "x2 ! k = x ! (3 * k + 2)" if "k < 16" for k
    using that by (simp_all add: x0_def x1_def x2_def del: upt_rec_numeral)
  show ?thesis
    unfolding b64_enc_def unpack_quads [OF assms(1)] map_concat map_map encode_lookup64_top
      encode_lookup64_masked [OF l(3)] encode_lookup64_masked [OF l2(1)] encode_lookup64_masked [OF l2(2)]
    by (intro arg_cong [of _ _ concat] map_cong)
      (simp_all add: l n vshr_def vshl_def del: upt_rec_numeral)
qed

lemma encode_large_loop_spec:
  assumes "n \<le> length src" and "length src < size_mod"
  shows "encode_large_loop url src (b @ r) (length b) (length r) n =
    (let k = min ((length src - n) div 48) (length r div 64)
     in Some (b @ b64_enc url (take (48 * k) (drop n src)) @ drop (64 * k) r, length b + 64 * k,
          length r - 64 * k, n + 48 * k))"
  using assms
proof (induction "length r" arbitrary: n b r rule: less_induct)
  case less
  show ?case
  proof (cases "48 \<le> length src - n \<and> 64 \<le> length r")
    case False
    then have "min ((length src - n) div 48) (length r div 64) = 0" by auto
    then show ?thesis
      using False less.prems by (auto simp: encode_large_loop.simps [of _ _ _ _ _ n] Let_def b64_enc_def)
  next
    case True
    let ?x = "take 48 (drop n src)" and ?r = "drop 64 r"
    let ?o = "b64_enc url ?x"
    let ?k = "min ((length src - (n + 48)) div 48) (length ?r div 64)"
    have x: "rd src n 48 = Some ?x" "length ?x = 48" using True by (auto simp: rd_def)
    have lo: "length ?o = 64" using True by simp
    have st: "wr (b @ r) (length b) ?o = Some ((b @ ?o) @ ?r)"
      using True lo wr_prefix [of ?o r b] by simp
    have step: "encode_large_loop url src (b @ r) (length b) (length r) n =
        encode_large_loop url src ((b @ ?o) @ ?r) (length (b @ ?o)) (length ?r) (n + 48)"
      using True less.prems st lo
      unfolding encode_large_loop.simps [of _ _ _ _ _ n] x(1) bind.bind_lunit Let_def encode_block48 [OF x(2)]
      by simp
    have k: "min ((length src - n) div 48) (length r div 64) = Suc ?k"
    proof -
      have "(length src - n) div 48 = Suc ((length src - (n + 48)) div 48)"
        using True le_div_geq [of 48 "length src - n"] by (simp add: ac_simps)
      moreover have "length r div 64 = Suc (length ?r div 64)"
        using True le_div_geq [of 64 "length r"] by simp
      ultimately show ?thesis by (simp only: min_Suc_Suc)
    qed
    have "length ?r < length r" and "n + 48 \<le> length src" using True by auto
    from less.hyps [OF this less.prems(2), of "b @ ?o"]
    have "encode_large_loop url src (b @ r) (length b) (length r) n =
        Some ((b @ ?o) @ b64_enc url (take (48 * ?k) (drop (n + 48) src)) @ drop (64 * ?k) ?r,
          length (b @ ?o) + 64 * ?k, length ?r - 64 * ?k, n + 48 + 48 * ?k)"
      unfolding step by (simp only: Let_def)
    moreover have "take (48 * Suc ?k) (drop n src) = ?x @ take (48 * ?k) (drop (n + 48) src)"
      unfolding mult_Suc_right take_add by (simp add: add.commute)
    moreover have "length ?x mod 3 = 0" using True by simp
    ultimately show ?thesis
      unfolding k Let_def using lo by (simp only: b64_enc_append) (simp add: add.commute)
  qed
qed

section \<open>The encoder\<close>

definition enc_blocks :: "nat \<Rightarrow> nat \<Rightarrow> nat" where
  "enc_blocks slen dlen = min ((slen - 4) div 12) (dlen div 16)"

text \<open>How many source bytes the encoder consumes.\<close>

definition enc_count :: "arch \<Rightarrow> nat \<Rightarrow> nat \<Rightarrow> nat" where
  "enc_count a slen dlen = (if a = AArch64 \<and> 256 \<le> slen
     then let k = min (slen div 48) (dlen div 64)
       in 48 * k + 12 * enc_blocks (slen - 48 * k) (dlen - 64 * k)
     else 12 * enc_blocks slen dlen)"

lemma enc_blocks_bound: "12 * enc_blocks slen dlen \<le> slen \<and> 16 * enc_blocks slen dlen \<le> dlen"
proof -
  have "12 * ((slen - 4) div 12) \<le> slen - 4" and "16 * (dlen div 16) \<le> dlen" by simp_all
  then show ?thesis unfolding enc_blocks_def by (auto simp: min_def)
qed

lemma enc_count_mod: "enc_count a slen dlen mod 3 = 0"
proof -
  have "(48 * k + 12 * j) mod 3 = 0" and "(12 * j) mod 3 = (0 :: nat)" for k j by presburger+
  then show ?thesis by (simp add: enc_count_def Let_def)
qed

lemma enc_count_bound: "enc_count a slen dlen \<le> slen \<and> 4 * (enc_count a slen dlen div 3) \<le> dlen"
proof -
  define k where "k = min (slen div 48) (dlen div 64)"
  have k: "48 * k \<le> slen" "64 * k \<le> dlen"
    using div_times_less_eq_dividend [of slen 48] div_times_less_eq_dividend [of dlen 64] unfolding k_def
    by (auto simp: min_def)
  have "4 * ((48 * k + 12 * j) div 3) = 64 * k + 16 * j" "4 * (12 * j div 3) = 16 * (j :: nat)" for j
    by presburger+
  then show ?thesis
    using k enc_blocks_bound [of slen dlen] enc_blocks_bound [of "slen - 48 * k" "dlen - 64 * k"]
    by (auto simp: enc_count_def Let_def k_def [symmetric])
qed

lemma encode_small_spec:
  assumes "length src < size_mod"
  shows "encode_small a (b @ r) (length b) (length r) src url =
    (let n = 12 * enc_blocks (length src) (length r)
     in Some (b @ b64_enc url (take n src) @ drop (4 * (n div 3)) r, n))"
proof -
  have "4 * (12 * j div 3) = 16 * (j :: nat)" for j by presburger
  then show ?thesis
    using encode_small_loop_spec [of 0 src a url b r] assms
    by (simp add: encode_small_def Let_def enc_blocks_def)
qed

lemma encode_spec:
  assumes "length src < size_mod"
  shows "tinygodriver_base64_encode a dst src url =
    (let n = enc_count a (length src) (length dst)
     in Some (b64_enc url (take n src) @ drop (4 * (n div 3)) dst, n))"
proof (cases "a = AArch64 \<and> 256 \<le> length src")
  case False
  then show ?thesis
    using encode_small_spec [OF assms, of a "[]" dst url]
    by (auto simp: tinygodriver_base64_encode_def enc_count_def split: arch.split)
next
  case True
  define k where "k = min (length src div 48) (length dst div 64)"
  define m where "m = 12 * enc_blocks (length src - 48 * k) (length dst - 64 * k)"
  let ?b = "b64_enc url (take (48 * k) src)" and ?r = "drop (64 * k) dst"
  have k: "48 * k \<le> length src" "64 * k \<le> length dst"
    using div_times_less_eq_dividend [of "length src" 48] div_times_less_eq_dividend [of "length dst" 64]
    unfolding k_def by (auto simp: min_def)
  have large: "encode_large_loop url src dst 0 (length dst) 0 =
      Some (?b @ ?r, length ?b, length ?r, 48 * k)"
    using encode_large_loop_spec [of 0 src url "[]" dst] assms k
    by (simp add: Let_def k_def [symmetric])
  have "length (drop (48 * k) src) < size_mod" using assms by simp
  from encode_small_spec [OF this, of AArch64 ?b ?r url]
  have small: "encode_small AArch64 (?b @ ?r) (length ?b) (length ?r) (drop (48 * k) src) url =
      Some (?b @ b64_enc url (take m (drop (48 * k) src)) @ drop (4 * (m div 3)) ?r, m)"
    by (simp add: Let_def m_def)
  have "length (take (48 * k) src) mod 3 = 0" using k by simp
  then have "b64_enc url (take (48 * k + m) src) = ?b @ b64_enc url (take m (drop (48 * k) src))"
    unfolding take_add by (rule b64_enc_append)
  moreover have "4 * ((48 * k + m) div 3) = 4 * (m div 3) + 64 * k" by presburger
  moreover have "enc_count a (length src) (length dst) = 48 * k + m"
    using True by (simp add: enc_count_def Let_def k_def m_def)
  ultimately show ?thesis
    using True large small by (simp add: tinygodriver_base64_encode_def encode_large_def Let_def)
qed

text \<open>C4. The base64 encoder never leaves its buffers; it writes the RFC 4648 encoding of the prefix it
  consumed, a whole number of triples that fits both buffers, and leaves the rest of the destination
  as it was, on either architecture and for either alphabet.\<close>

theorem base64_encode_correct:
  assumes "length src < size_mod"
  shows "\<exists>n. tinygodriver_base64_encode a dst src url =
      Some (b64_enc url (take n src) @ drop (4 * (n div 3)) dst, n) \<and>
    n = enc_count a (length src) (length dst) \<and> n mod 3 = 0 \<and> n \<le> length src \<and>
    4 * (n div 3) \<le> length dst"
  using encode_spec [OF assms, of a dst url] enc_count_bound [of a "length src" "length dst"]
    enc_count_mod [of a "length src" "length dst"] by (simp add: Let_def)

theorem base64_encode_correct_witness:
  "length (replicate 16 0 :: bytes) < size_mod \<and>
   tinygodriver_base64_encode AArch64 (replicate 20 7) (replicate 16 0) True =
     Some (replicate 16 65 @ replicate 4 7, 12)"
proof -
  have n: "enc_count AArch64 16 20 = 12" by (simp add: enc_count_def enc_blocks_def)
  have "b64_enc True (replicate 12 0) = replicate 16 65" by code_simp
  moreover have "take 12 (replicate 16 0 :: bytes) = replicate 12 0" by simp
  ultimately show ?thesis
    using base64_encode_correct [of "replicate 16 0" AArch64 "replicate 20 7" True] n by simp
qed

section \<open>Round trip\<close>

lemma b64_dec_take_enc:
  assumes "length xs mod 3 = 0" and "b64_dec url (take r (b64_enc url xs)) = Some out"
  shows "out = take (length out) xs"
proof -
  let ?e = "b64_enc url xs" and ?val = "\<lambda>c. the (b64_val url c)"
  have full: "pack (map ?val ?e) = xs"
    using b64_dec_enc [OF assms(1), of url] by (simp add: b64_dec_def split: if_splits)
  define r' where "r' = min r (length ?e)"
  have t: "take r ?e = take r' ?e" by (simp add: r'_def min_def)
  have out: "r' mod 4 = 0" "out = pack (map ?val (take r' ?e))"
    using assms(2) unfolding t by (auto simp: b64_dec_def r'_def split: if_splits)
  then obtain q where q: "r' = 4 * q" by (auto simp: mod_eq_0_iff_dvd elim: dvdE)
  have "4 * q \<le> length (map ?val ?e)" unfolding q [symmetric] r'_def by simp
  from take_pack [OF this] have "out = take (3 * q) (pack (map ?val ?e))" unfolding out(2) q take_map .
  then have "out = take (3 * q) xs" unfolding full .
  then show ?thesis by (simp add: min_def)
qed

text \<open>With room for the whole text the encoder leaves at most fifteen bytes.\<close>

lemma enc_blocks_most:
  assumes "4 * (slen div 3) \<le> dlen"
  shows "slen \<le> 12 * enc_blocks slen dlen + 15"
proof -
  have "(slen - 4) div 12 \<le> dlen div 16" using assms by linarith
  then have "enc_blocks slen dlen = (slen - 4) div 12" by (simp add: enc_blocks_def)
  then show ?thesis by linarith
qed

lemma enc_count_most:
  assumes "4 * (slen div 3) \<le> dlen"
  shows "slen \<le> enc_count a slen dlen + 15"
proof (cases "a = AArch64 \<and> 256 \<le> slen")
  case True
  define k where "k = min (slen div 48) (dlen div 64)"
  have "k \<le> slen div 48" by (simp add: k_def)
  then have "48 * k \<le> slen" using div_times_less_eq_dividend [of slen 48] by linarith
  moreover have "4 * ((slen - 48 * k) div 3) \<le> dlen - 64 * k"
  proof -
    have "slen = 3 * (16 * k) + (slen - 48 * k)" using calculation by simp
    then have "slen div 3 = 16 * k + (slen - 48 * k) div 3" by (metis add.commute div_mult_self2 zero_neq_numeral)
    then show ?thesis using assms by linarith
  qed
  ultimately show ?thesis
    using enc_blocks_most [of "slen - 48 * k" "dlen - 64 * k"] True by (simp add: enc_count_def Let_def k_def [symmetric])
next
  case False
  then show ?thesis using enc_blocks_most [OF assms] by (auto simp: enc_count_def)
qed

text \<open>What the decoder leaves of a text the encoder wrote is the encoding of the bytes it has not written.\<close>

lemma b64_enc_rest:
  assumes "length xs mod 3 = 0" and "w mod 3 = 0" and "w \<le> length xs"
  shows "drop (4 * (w div 3)) (b64_enc url xs) = b64_enc url (drop w xs)"
proof -
  have "b64_enc url xs = b64_enc url (take w xs) @ b64_enc url (drop w xs)"
    using b64_enc_append [of "take w xs" url "drop w xs"] assms by simp
  then show ?thesis using assms by simp
qed

lemma quanta_eq:
  fixes w r :: nat
  assumes "4 * w = 3 * r"
  shows "r = 4 * (w div 3)" and "w mod 3 = 0"
proof -
  define k where "k = r - w"
  have k: "w = 3 * k" "r = 4 * k" using assms by (simp_all add: k_def)
  then show "r = 4 * (w div 3)" and "w mod 3 = 0" by simp_all
qed

lemma quanta_le: "w mod 3 = 0 \<Longrightarrow> n mod 3 = 0 \<Longrightarrow> 4 * (w div 3) \<le> 4 * (n div 3) \<Longrightarrow> w \<le> n" for w n :: nat
  using div_mult_mod_eq [of w 3] div_mult_mod_eq [of n 3] by linarith

lemma quanta_near:
  fixes w n :: nat
  assumes "w mod 3 = 0" and "n mod 3 = 0" and "4 * (n div 3) - 4 * (w div 3) < 16"
  shows "n \<le> w + 9"
proof -
  have "n div 3 \<le> w div 3 + 3" using assms(3) by arith
  then show ?thesis using div_mult_mod_eq [of w 3] div_mult_mod_eq [of n 3] assms(1,2) by linarith
qed

text \<open>C6. Encoding and decoding on any pair of architectures, with room for the text in the first destination and
  for the source and sixteen bytes in the second. The encoder consumes all but at most fifteen bytes of the
  source. Of the text it wrote the decoder takes all but at most three quanta; the bytes it writes are the
  first bytes of the source, three for each quantum, and the quanta it leaves, which are the caller's to
  decode, are the encoding of the rest of what the encoder consumed.\<close>

theorem base64_round_trip:
  assumes "length src < size_mod" and "length d1 < size_mod" and "4 * (length src div 3) \<le> length d1"
    and "length src + 16 \<le> length d2"
  shows "\<exists>e n dst' r w. tinygodriver_base64_encode a d1 src url = Some (e, n) \<and>
    tinygodriver_base64_decode a' d2 (take (4 * (n div 3)) e) url = Some (dst', r, w) \<and>
    n \<le> length src \<and> length src \<le> n + 15 \<and> r = 4 * (w div 3) \<and> w mod 3 = 0 \<and> w \<le> n \<and> n \<le> w + 9 \<and>
    take w dst' = take w src \<and> b64_dec url (drop r (take (4 * (n div 3)) e)) = Some (drop w (take n src))"
proof -
  define n where "n = enc_count a (length src) (length d1)"
  define enc where "enc = b64_enc url (take n src)"
  have n: "n mod 3 = 0" "n \<le> length src" "4 * (n div 3) \<le> length d1" "length src \<le> n + 15"
    unfolding n_def using enc_count_most [OF assms(3)] by (simp_all add: enc_count_mod enc_count_bound)
  have e: "tinygodriver_base64_encode a d1 src url = Some (enc @ drop (4 * (n div 3)) d1, n)"
    using encode_spec [OF assms(1), of a d1 url] by (simp add: Let_def n_def enc_def)
  have le: "length enc = 4 * (n div 3)" using n(2) by (simp add: enc_def)
  then have "length enc < size_mod" using n(3) assms(2) by linarith
  then obtain dst' r w where d: "tinygodriver_base64_decode a' d2 enc url = Some (dst', r, w)"
      "dec_run url enc d2 0 0 dst' w r" "dec_stuck url enc r (length d2 - w)"
    using decode_spec by blast
  have ok: "list_all (is_b64 url) enc" unfolding enc_def by (rule b64_enc_valid)
  then have "filter (\<lambda>c. \<not> is_nl c) (take r enc) = take r enc"
    unfolding filter_id_conv list_all_iff by (intro ballI b64_nl [of url]) (blast dest: in_set_takeD)
  then have out: "b64_dec url (take r enc) = Some (take w dst')" "length (take w dst') = w" "r \<le> length enc"
    using d(2) by (auto simp: dec_run_def)
  have m: "length (take n src) mod 3 = 0" using n by simp
  have eq: "take w dst' = take w (take n src)"
    using b64_dec_take_enc [OF m, of url r "take w dst'"] out unfolding enc_def by metis
  have "4 * w = 3 * r" using b64_dec_length [OF out(1)] out(2,3) by simp
  note rw = quanta_eq [OF this]
  have wn: "w \<le> n" using quanta_le [OF rw(2) n(1)] out(3) le rw(1) by simp
  have "list_all (is_b64 url) (take 4 (drop r enc))"
    using ok by (auto simp: list_all_iff dest: in_set_takeD in_set_dropD)
  then have "4 * (n div 3) - r < 16" using d(3) le wn n(2) assms(4) by (auto simp: dec_stuck_def)
  then have "n \<le> w + 9" using quanta_near [OF rw(2) n(1)] rw(1) by simp
  moreover have "drop r enc = b64_enc url (drop w (take n src))"
    using b64_enc_rest [OF m rw(2), of url] wn n(2) by (simp add: rw(1) enc_def)
  then have "b64_dec url (drop r enc) = Some (drop w (take n src))"
    using b64_dec_enc [of "drop w (take n src)" url] wn n(1,2) rw(2) mod_eq_dvd_iff_nat [of w n 3] by (simp add: dvd_eq_mod_eq_0)
  moreover have "take w dst' = take w src" using eq wn by (simp add: min_absorb1)
  ultimately show ?thesis
    using e d(1) le n(2,4) rw wn by (intro exI [of _ "enc @ drop (4 * (n div 3)) d1"] exI [of _ n] exI [of _ dst']
        exI [of _ r] exI [of _ w]) simp
qed

theorem base64_round_trip_witness:
  "length (replicate 40 1 :: bytes) < size_mod \<and> length (replicate 64 0 :: bytes) < size_mod \<and>
   (\<exists>e n dst' r w. tinygodriver_base64_encode X86_64 (replicate 64 0) (replicate 40 1) False = Some (e, n) \<and>
     tinygodriver_base64_decode AArch64 (replicate 64 0) (take (4 * (n div 3)) e) False = Some (dst', r, w) \<and>
     40 \<le> w + 24 \<and> take w dst' = take w (replicate 40 1))"
proof -
  have p: "length (replicate 40 1 :: bytes) < size_mod" "length (replicate 64 0 :: bytes) < size_mod"
    "4 * (length (replicate 40 1 :: bytes) div 3) \<le> length (replicate 64 0 :: bytes)"
    "length (replicate 40 1 :: bytes) + 16 \<le> length (replicate 64 0 :: bytes)" by simp_all
  from base64_round_trip [OF p, of X86_64 False AArch64] p(1,2) show ?thesis by fastforce
qed

end
