(* ===== verification/OsIo.thy ===== *)
theory OsIo
  imports TG_Prelude
begin

text \<open>
  What the operating-system facing C files share. Such a file calls functions that are not part of
  the repository (sockets, clocks, the platform's TLS and certificate services); each theory collects
  them in a record of functions over a world \<open>'w\<close>, which is an argument of every definition. The
  state of a run is an \<open>io\<close>: that world, and two ghosts that the C code does not have and never
  reads: the trace of the calls that matter to a claim, resources obtained and released included, and a
  flag raised by a memory access outside its object or a call outside its contract.

  A loop the C code only leaves through a condition of the world is a \<open>partial_function\<close>, so a
  call that never returns has the value \<open>None\<close>.
\<close>

record ('w, 'e) io =
  env :: 'w
  trace :: "'e list"
  oob :: bool

definition call :: "('w \<Rightarrow> 'r \<times> 'w) \<Rightarrow> ('w, 'e) io \<Rightarrow> 'r \<times> ('w, 'e) io" where
  "call f w = (let (r, e) = f (env w) in (r, w\<lparr>env := e\<rparr>))"

definition emit :: "'e \<Rightarrow> ('w, 'e) io \<Rightarrow> ('w, 'e) io" where
  "emit e w = w\<lparr>trace := trace w @ [e]\<rparr>"

definition check :: "bool \<Rightarrow> ('w, 'e) io \<Rightarrow> ('w, 'e) io" where
  "check c w = w\<lparr>oob := oob w \<or> \<not> c\<rparr>"

text \<open>Copying \<open>src\<close> into the object \<open>dst\<close> at \<open>off\<close>, as \<open>memcpy\<close> and \<open>memmove\<close> do.\<close>

definition put :: "bytes \<Rightarrow> nat \<Rightarrow> bytes \<Rightarrow> bytes" where
  "put dst off src = take off dst @ src @ drop (off + length src) dst"

definition fits :: "bytes \<Rightarrow> nat \<Rightarrow> nat \<Rightarrow> bool" where
  "fits buf off n \<longleftrightarrow> off + n \<le> length buf"

definition slice :: "bytes \<Rightarrow> nat \<Rightarrow> nat \<Rightarrow> bytes" where
  "slice buf off n = take n (drop off buf)"

section \<open>Facts\<close>

lemma call_ghosts [simp]:
  "trace (snd (call f w)) = trace w" "oob (snd (call f w)) = oob w" "env (snd (call f w)) = snd (f (env w))"
  "fst (call f w) = fst (f (env w))"
  by (simp_all add: call_def split: prod.split)

lemma call_eq: "call f w = (r, w') \<longleftrightarrow> r = fst (f (env w)) \<and> w' = w\<lparr>env := snd (f (env w))\<rparr>"
  by (auto simp: call_def split: prod.split)

lemma emit_ghosts [simp]:
  "trace (emit e w) = trace w @ [e]" "oob (emit e w) = oob w" "env (emit e w) = env w"
  by (simp_all add: emit_def)

lemma check_ghosts [simp]:
  "trace (check c w) = trace w" "env (check c w) = env w" "oob (check c w) \<longleftrightarrow> oob w \<or> \<not> c"
  by (simp_all add: check_def)

lemma length_put [simp]: "fits dst off (length src) \<Longrightarrow> length (put dst off src) = length dst"
  by (simp add: put_def fits_def)

lemma slice_put: "fits dst off (length src) \<Longrightarrow> slice (put dst off src) off (length src) = src"
  by (simp add: slice_def put_def fits_def)

lemma take_put: "fits dst off (length src) \<Longrightarrow> n \<le> off \<Longrightarrow> take n (put dst off src) = take n dst"
  by (simp add: put_def fits_def)

lemma take_put_end:
  "fits dst off (length src) \<Longrightarrow> take (off + length src) (put dst off src) = take off dst @ src"
  by (simp add: put_def fits_def)

lemma length_slice [simp]: "fits buf off n \<Longrightarrow> length (slice buf off n) = n"
  by (simp add: slice_def fits_def)

lemma put_0: "n \<le> length src \<Longrightarrow> take n (put dst 0 src) = take n src"
  by (simp add: put_def)

lemma fits_mono: "fits buf off n \<Longrightarrow> m \<le> n \<Longrightarrow> fits buf off m"
  by (simp add: fits_def)

end
