(* ===== verification/Schannel.thy ===== *)
theory Schannel
  imports OsIo
begin

text \<open>
  \<open>internal/schannel/sspibridge.c\<close>: the Windows backend. Schannel transforms buffers and never sees
  the socket, so this file owns the socket loops, the ciphertext buffer \<open>enc\<close>, the plaintext stash
  \<open>dec\<close> and the trust decision. The functions of Windows are the record \<open>winapi\<close>.

  \<open>None\<close> in a pointer field is \<open>NULL\<close>; the length of a buffer's list is its capacity. Events:
  \<open>Sent\<close>, \<open>Recvd\<close> are bytes moved over the socket, \<open>Plain\<close> the plaintext of one decrypted record,
  \<open>Sealed\<close> the data part of the buffer given to \<open>EncryptMessage\<close>, \<open>Acq\<close> and \<open>Rel\<close> a resource obtained
  and released. \<open>Wide\<close>, \<open>PeerCert\<close>, \<open>NewEngine\<close>, \<open>GotChain\<close>, \<open>Policy\<close> and \<open>Trust\<close> are the calls the trust
  decision rests on, each with the arguments Windows was given and what it answered; they are recorded
  by the wrappers of these calls (\<open>to_wide\<close>, \<open>remote_cert\<close>, \<open>new_engine\<close>, \<open>get_chain\<close>, \<open>verify_policy\<close>,
  \<open>trust_status\<close>, and \<open>encrypt_message\<close> for \<open>Sealed\<close>), which their callers never bypass.
\<close>

section \<open>Constants\<close>

definition HTTPS_SC_OK :: int where "HTTPS_SC_OK = 0"
definition HTTPS_SC_ERR_ALLOC :: int where "HTTPS_SC_ERR_ALLOC = - 1"
definition HTTPS_SC_ERR_SETUP :: int where "HTTPS_SC_ERR_SETUP = - 2"
definition HTTPS_SC_ERR_CA :: int where "HTTPS_SC_ERR_CA = - 3"
definition HTTPS_SC_ERR_CLIENT_CERT :: int where "HTTPS_SC_ERR_CLIENT_CERT = - 4"
definition HTTPS_SC_ERR_HANDSHAKE :: int where "HTTPS_SC_ERR_HANDSHAKE = - 5"
definition HTTPS_SC_ERR_TIMEOUT :: int where "HTTPS_SC_ERR_TIMEOUT = - 6"
definition HTTPS_SC_ERR_IO :: int where "HTTPS_SC_ERR_IO = - 7"
definition HTTPS_SC_ERR_CLOSED :: int where "HTTPS_SC_ERR_CLOSED = - 8"
definition HTTPS_SC_TLS12 :: int where "HTTPS_SC_TLS12 = 0x0303"
definition HTTPS_SC_TLS13 :: int where "HTTPS_SC_TLS13 = 0x0304"

lemmas sc_codes = HTTPS_SC_OK_def HTTPS_SC_ERR_ALLOC_def HTTPS_SC_ERR_SETUP_def HTTPS_SC_ERR_CA_def
  HTTPS_SC_ERR_CLIENT_CERT_def HTTPS_SC_ERR_HANDSHAKE_def HTTPS_SC_ERR_TIMEOUT_def
  HTTPS_SC_ERR_IO_def HTTPS_SC_ERR_CLOSED_def

definition SC_PROT_SSL2_CLIENT :: u32 where "SC_PROT_SSL2_CLIENT = 0x00000008"
definition SC_PROT_SSL3_CLIENT :: u32 where "SC_PROT_SSL3_CLIENT = 0x00000020"
definition SC_PROT_TLS1_0_CLIENT :: u32 where "SC_PROT_TLS1_0_CLIENT = 0x00000080"
definition SC_PROT_TLS1_1_CLIENT :: u32 where "SC_PROT_TLS1_1_CLIENT = 0x00000200"
definition SC_PROT_TLS1_2_CLIENT :: u32 where "SC_PROT_TLS1_2_CLIENT = 0x00000800"
definition SC_PROT_TLS1_3_CLIENT :: u32 where "SC_PROT_TLS1_3_CLIENT = 0x00002000"

lemmas sc_prots = SC_PROT_SSL2_CLIENT_def SC_PROT_SSL3_CLIENT_def SC_PROT_TLS1_0_CLIENT_def
  SC_PROT_TLS1_1_CLIENT_def SC_PROT_TLS1_2_CLIENT_def SC_PROT_TLS1_3_CLIENT_def

definition SC_CRED_NO_SYSTEM_MAPPER :: u32 where "SC_CRED_NO_SYSTEM_MAPPER = 0x00000002"
definition SC_CRED_MANUAL_CRED_VALIDATION :: u32 where "SC_CRED_MANUAL_CRED_VALIDATION = 0x00000008"
definition SC_CRED_NO_DEFAULT_CREDS :: u32 where "SC_CRED_NO_DEFAULT_CREDS = 0x00000010"
definition SC_USE_STRONG_CRYPTO :: u32 where "SC_USE_STRONG_CRYPTO = 0x00400000"
definition SC_SCHANNEL_CRED_VERSION :: u32 where "SC_SCHANNEL_CRED_VERSION = 4"
definition SC_CREDENTIALS_VERSION :: u32 where "SC_CREDENTIALS_VERSION = 5"
definition SC_TRUST_IS_NOT_TIME_NESTED :: u32 where "SC_TRUST_IS_NOT_TIME_NESTED = 0x00000002"
definition SC_TRUST_REVOCATION_STATUS_UNKNOWN :: u32 where "SC_TRUST_REVOCATION_STATUS_UNKNOWN = 0x00000040"
definition SC_TRUST_IS_OFFLINE_REVOCATION :: u32 where "SC_TRUST_IS_OFFLINE_REVOCATION = 0x01000000"
definition SC_STATUS_KEY_UNSUPPORTED :: int where "SC_STATUS_KEY_UNSUPPORTED = 0x80090302 - 0x100000000"
definition SC_ENC_INITIAL :: nat where "SC_ENC_INITIAL = 32768"
definition SC_ENC_MAX :: nat where "SC_ENC_MAX = 512 * 1024"
definition SC_SHUTDOWN_NS :: int where "SC_SHUTDOWN_NS = 100000000"

text \<open>The documented values of the Windows constants the file compares with.\<close>

definition SEC_E_OK :: int where "SEC_E_OK = 0"
definition SEC_I_CONTINUE_NEEDED :: int where "SEC_I_CONTINUE_NEEDED = 0x00090312"
definition SEC_I_CONTEXT_EXPIRED :: int where "SEC_I_CONTEXT_EXPIRED = 0x00090317"
definition SEC_I_INCOMPLETE_CREDENTIALS :: int where "SEC_I_INCOMPLETE_CREDENTIALS = 0x00090320"
definition SEC_I_RENEGOTIATE :: int where "SEC_I_RENEGOTIATE = 0x00090321"
definition SEC_E_INCOMPLETE_MESSAGE :: int where "SEC_E_INCOMPLETE_MESSAGE = 0x80090318 - 0x100000000"
definition CERT_E_UNTRUSTEDROOT :: int where "CERT_E_UNTRUSTEDROOT = 0x800b0109 - 0x100000000"
definition WSAEINTR :: int where "WSAEINTR = 10004"

lemmas sec_codes = SEC_E_OK_def SEC_I_CONTINUE_NEEDED_def SEC_I_CONTEXT_EXPIRED_def
  SEC_I_INCOMPLETE_CREDENTIALS_def SEC_I_RENEGOTIATE_def SEC_E_INCOMPLETE_MESSAGE_def

section \<open>Data\<close>

text \<open>The credential structures, by the fields the file sets; \<open>memset\<close> clears the others.\<close>

record sc_schannel_cred =
  sc_dwVersion :: u32
  sc_cCreds :: nat
  sc_paCred :: "nat option"
  sc_grbitEnabledProtocols :: u32
  sc_dwFlags :: u32

record sc_tls_parameters =
  tp_grbitDisabledProtocols :: u32

record sc_credentials =
  cr_dwVersion :: u32
  cr_cCreds :: nat
  cr_paCred :: "nat option"
  cr_dwFlags :: u32
  cr_cTlsParameters :: nat
  cr_pTlsParameters :: sc_tls_parameters

record sc_chain_engine_config =
  ce_hExclusiveRoot :: nat
  ce_dwExclusiveFlags :: u32

record sc_clientcert =
  cc_cert :: nat
  cc_prov :: nat

record sc_sizes =
  cbHeader :: nat
  cbTrailer :: nat
  cbMaximumMessage :: nat

record https_sc =
  sock :: nat
  have_cred :: bool
  have_ctx :: bool
  sizes :: sc_sizes
  castore :: nat
  ca_only :: bool
  skip_verify :: bool
  hostw :: "nat list option"
  clientcert :: nat
  enc :: "bytes option"
  enc_len :: nat
  dec :: "bytes option"
  dec_len :: nat
  dec_off :: nat
  sc_out :: "bytes option"
  deadline_ns :: int
  eof :: bool

definition buf_cap :: "bytes option \<Rightarrow> nat" where
  "buf_cap b = (case b of None \<Rightarrow> 0 | Some x \<Rightarrow> length x)"

datatype sc_res = RState | RBuf | RHost | RCtx | RCred | REngine | RChain | RPeer | RToken | RStore |
  RCert | RProv | RKey | RBlob | RInfo | RCopy | RClient

datatype sc_ev = Sent bytes | Recvd bytes | Plain bytes | Sealed bytes | Acq sc_res | Rel sc_res |
  Wide string "nat option" int "nat list" | PeerCert int nat | NewEngine sc_chain_engine_config "nat option" |
  GotChain "nat option" nat nat "nat option" | Policy "nat list option" nat "u32 option" | Trust nat u32

datatype cred_arg = Modern sc_credentials | Legacy sc_schannel_cred

text \<open>What \<open>InitializeSecurityContextW\<close> reports: its status, the output and the alert token
  (\<open>None\<close> for a null buffer) and the size of a \<open>SECBUFFER_EXTRA\<close>, if it set one.\<close>

record isc_result =
  isc_ss :: int
  isc_token :: "bytes option"
  isc_alert :: "bytes option"
  isc_extra :: "nat option"

datatype sec_buffer_type = SECBUFFER_EMPTY | SECBUFFER_DATA | SECBUFFER_EXTRA | SECBUFFER_OTHER

text \<open>A \<open>SecBuffer\<close> that points into the buffer handed to \<open>DecryptMessage\<close>: type, offset, size.\<close>

type_synonym sec_buffer = "sec_buffer_type \<times> nat \<times> nat"

record 'w winapi =
  GetTickCount64 :: "'w \<Rightarrow> nat \<times> 'w"
  select_rc :: "nat \<Rightarrow> bool \<Rightarrow> (int \<times> int) option \<Rightarrow> 'w \<Rightarrow> int \<times> 'w"
  WSAGetLastError :: "'w \<Rightarrow> int"
  GetLastError :: "'w \<Rightarrow> int"
  recv_rc :: "nat \<Rightarrow> nat \<Rightarrow> 'w \<Rightarrow> bytes option \<times> 'w"
  send_rc :: "nat \<Rightarrow> bytes \<Rightarrow> 'w \<Rightarrow> int \<times> 'w"
  malloc_ok :: "nat \<Rightarrow> 'w \<Rightarrow> bool \<times> 'w"
  heap_garbage :: "'w \<Rightarrow> nat \<Rightarrow> u8"
  CertOpenStore :: "'w \<Rightarrow> nat \<times> 'w"
  CertAddEncodedCertificateToStore :: "nat \<Rightarrow> bytes \<Rightarrow> 'w \<Rightarrow> bool \<times> 'w"
  CryptDecodePrivateKeyInfo :: "bytes \<Rightarrow> 'w \<Rightarrow> (string option \<times> bytes) option \<times> 'w"
  CertCreateCertificateContext :: "bytes \<Rightarrow> 'w \<Rightarrow> nat \<times> 'w"
  CryptDecodeRsaPrivateKey :: "bytes \<Rightarrow> 'w \<Rightarrow> bytes option \<times> 'w"
  NCryptOpenStorageProvider :: "'w \<Rightarrow> (int \<times> nat) \<times> 'w"
  NCryptImportKey :: "nat \<Rightarrow> bytes \<Rightarrow> 'w \<Rightarrow> (int \<times> nat) \<times> 'w"
  CertSetKeyProperty :: "nat \<Rightarrow> nat \<Rightarrow> 'w \<Rightarrow> bool \<times> 'w"
  AcquireCredentialsHandleW :: "cred_arg \<Rightarrow> 'w \<Rightarrow> int \<times> 'w"
  CertVerifyPolicy :: "nat list option \<Rightarrow> nat \<Rightarrow> 'w \<Rightarrow> u32 option \<times> 'w"
  CertCreateChainEngine :: "sc_chain_engine_config \<Rightarrow> 'w \<Rightarrow> nat option \<times> 'w"
  CertGetChain :: "nat option \<Rightarrow> nat \<Rightarrow> nat \<Rightarrow> 'w \<Rightarrow> nat option \<times> 'w"
  TrustErrorStatus :: "nat \<Rightarrow> 'w \<Rightarrow> u32"
  QueryRemoteCert :: "'w \<Rightarrow> (int \<times> nat) \<times> 'w"
  QueryStreamSizes :: "'w \<Rightarrow> (int \<times> sc_sizes) \<times> 'w"
  MultiByteToWideChar :: "string \<Rightarrow> nat option \<Rightarrow> 'w \<Rightarrow> (int \<times> nat list) \<times> 'w"
  InitializeSecurityContextW ::
    "bool \<Rightarrow> nat list option \<Rightarrow> bool \<Rightarrow> bytes option \<Rightarrow> 'w \<Rightarrow> isc_result \<times> 'w"
  DecryptMessage :: "bytes \<Rightarrow> nat \<Rightarrow> 'w \<Rightarrow> (int \<times> bytes \<times> sec_buffer list) \<times> 'w"
  EncryptMessage :: "bytes \<Rightarrow> nat \<Rightarrow> nat \<Rightarrow> nat \<Rightarrow> 'w \<Rightarrow> (int \<times> bytes \<times> nat \<times> nat \<times> nat) \<times> 'w"
  ApplyShutdownToken :: "'w \<Rightarrow> int \<times> 'w"

type_synonym 'w sio = "('w, sc_ev) io"

section \<open>Socket I/O\<close>

definition now_ns :: "'w winapi \<Rightarrow> 'w sio \<Rightarrow> int \<times> 'w sio" where
  "now_ns A w = (let (t, w) = call (GetTickCount64 A) w in (int t * 1000000, w))"

text \<open>A conversion to \<open>int\<close> or to \<open>long\<close>, which both have 32 bits on Windows.\<close>

definition long32 :: "int \<Rightarrow> int" where
  "long32 x = sint (word_of_int x :: 32 word)"

text \<open>The \<open>timeval\<close> for \<open>select\<close>: \<open>None\<close> when the deadline has passed, \<open>Some None\<close> without one.\<close>

definition wait_tv :: "'w winapi \<Rightarrow> https_sc \<Rightarrow> 'w sio \<Rightarrow> (int \<times> int) option option \<times> 'w sio" where
  "wait_tv A s w =
    (if deadline_ns s \<noteq> 0 then
       let (now, w) = now_ns A w; remaining = deadline_ns s - now
       in if remaining \<le> 0 then (None, w)
          else (Some (Some (long32 (remaining div 1000000000), long32 ((remaining mod 1000000000) div 1000))), w)
     else (Some None, w))"

partial_function (option) wait_ready ::
  "'w winapi \<Rightarrow> https_sc \<Rightarrow> bool \<Rightarrow> 'w sio \<Rightarrow> (int \<times> 'w sio) option" where
  "wait_ready A s for_write w =
    (case wait_tv A s w of
       (None, w) \<Rightarrow> Some (- 1, w)
     | (Some tvp, w) \<Rightarrow>
         let (rc, w) = call (select_rc A (sock s) for_write tvp) w
         in if rc > 0 then Some (0, w)
            else if rc = 0 then Some (- 1, w)
            else if WSAGetLastError A (env w) = WSAEINTR then wait_ready A s for_write w
            else Some (- 2, w))"

definition sock_recv ::
  "'w winapi \<Rightarrow> https_sc \<Rightarrow> nat \<Rightarrow> 'w sio \<Rightarrow> ((int \<times> bytes) \<times> https_sc \<times> 'w sio) option" where
  "sock_recv A s len w = do {
     (r, w) \<leftarrow> (if deadline_ns s \<noteq> 0 then wait_ready A s False w else Some (0, w));
     if r \<noteq> 0 then Some ((r, []), s, w)
     else
       let (d, w) = call (recv_rc A (sock s) len) (check (0 < len) w)
       in case d of
            None \<Rightarrow> Some ((- 2, []), s, w)
          | Some bs \<Rightarrow>
              if bs = [] then Some ((0, []), s\<lparr>eof := True\<rparr>, w)
              else Some ((int (length bs), bs), s, emit (Recvd bs) w)
   }"

partial_function (option) send_loop ::
  "'w winapi \<Rightarrow> https_sc \<Rightarrow> bytes \<Rightarrow> nat \<Rightarrow> 'w sio \<Rightarrow> (int \<times> 'w sio) option" where
  "send_loop A s buf sent w =
    (if sent < length buf then do {
       (r, w) \<leftarrow> (if deadline_ns s \<noteq> 0 then wait_ready A s True w else Some (0, w));
       if r \<noteq> 0 then Some (r, w)
       else
         let (n, w) = call (send_rc A (sock s) (drop sent buf)) w
         in if n = - 1 then Some (- 2, w)
            else send_loop A s buf (sent + nat n)
              (emit (Sent (take (nat n) (drop sent buf))) (check (0 \<le> n \<and> sent + nat n \<le> length buf) w))
     } else Some (0, w))"

definition sock_send_all :: "'w winapi \<Rightarrow> https_sc \<Rightarrow> bytes \<Rightarrow> 'w sio \<Rightarrow> (int \<times> 'w sio) option" where
  "sock_send_all A s buf w = send_loop A s buf 0 w"

definition sock_class :: "int \<Rightarrow> int" where
  "sock_class rc = (if rc = - 1 then HTTPS_SC_ERR_TIMEOUT else HTTPS_SC_ERR_IO)"

section \<open>Buffers\<close>

text \<open>The doubling loop, with a flag that no multiplication left the range of \<open>int\<close>. The loop is
  entered with a positive capacity.\<close>

function dbl :: "nat \<Rightarrow> nat \<Rightarrow> nat \<times> bool" where
  "dbl ncap want = (if 0 < ncap \<and> ncap < want
     then let (c, ok) = dbl (2 * ncap) want in (c, ok \<and> 2 * ncap \<le> 2147483647)
     else (ncap, True))"
  by pat_completeness auto
termination
  by (relation "measure (\<lambda>(ncap, want). want - ncap)") auto

declare dbl.simps [simp del]

definition grow ::
  "'w winapi \<Rightarrow> bytes option \<Rightarrow> nat \<Rightarrow> nat \<Rightarrow> nat \<Rightarrow> 'w sio \<Rightarrow> (int \<times> bytes option) \<times> 'w sio" where
  "grow A buf want used limit w =
    (if want \<le> buf_cap buf then ((0, buf), w)
     else if limit < want then ((- 1, buf), w)
     else
       let (ncap, ok) = dbl (if 0 < buf_cap buf then buf_cap buf else 1024) want;
           ncap = (if limit < ncap then limit else ncap);
           (m, w) = call (malloc_ok A ncap) (check ok w)
       in if \<not> m then ((- 1, buf), w)
          else
            let nb = map (heap_garbage A (env w)) [0..<ncap]
            in case buf of
                 None \<Rightarrow> ((0, Some nb), emit (Acq RBuf) w)
               | Some old \<Rightarrow>
                   ((0, Some (if 0 < used then put nb 0 (take used old) else nb)),
                    emit (Rel RBuf) (emit (Acq RBuf) (check (used \<le> length old \<and> used \<le> ncap) w))))"

section \<open>Anchors\<close>

definition https_sc_calist_new :: "'w winapi \<Rightarrow> 'w sio \<Rightarrow> nat \<times> 'w sio" where
  "https_sc_calist_new A w =
    (let (h, w) = call (CertOpenStore A) w in (h, if h \<noteq> 0 then emit (Acq RStore) w else w))"

definition https_sc_calist_add :: "'w winapi \<Rightarrow> nat \<Rightarrow> bytes option \<Rightarrow> int \<Rightarrow> 'w sio \<Rightarrow> int \<times> 'w sio" where
  "https_sc_calist_add A store der len w = (case der of
     None \<Rightarrow> (HTTPS_SC_ERR_SETUP, w)
   | Some d \<Rightarrow>
       if store = 0 \<or> len \<le> 0 then (HTTPS_SC_ERR_SETUP, w)
       else
         let (ok, w) = call (CertAddEncodedCertificateToStore A store (take (nat len) d))
               (check (nat len \<le> length d) w)
         in if ok then (HTTPS_SC_OK, w) else (HTTPS_SC_ERR_CA, w))"

definition https_sc_calist_free :: "nat \<Rightarrow> 'w sio \<Rightarrow> 'w sio" where
  "https_sc_calist_free h w = (if h \<noteq> 0 then emit (Rel RStore) w else w)"

section \<open>Client certificates\<close>

definition szOID_RSA_RSA :: string where
  "szOID_RSA_RSA = ''1.2.840.113549.1.1.1''"

definition unwrap_pkcs8 :: "'w winapi \<Rightarrow> bytes \<Rightarrow> 'w sio \<Rightarrow> (int \<times> bytes option) \<times> 'w sio" where
  "unwrap_pkcs8 A der w =
    (let (info, w) = call (CryptDecodePrivateKeyInfo A der) w
     in case info of
          None \<Rightarrow> ((- 1, None), w)
        | Some (oid, key) \<Rightarrow>
            let w = emit (Acq RInfo) w
            in if oid \<noteq> Some szOID_RSA_RSA then ((- 2, None), emit (Rel RInfo) w)
               else
                 let (m, w) = call (malloc_ok A (length key)) w
                 in if \<not> m then ((- 1, None), emit (Rel RInfo) w)
                    else ((0, Some key), emit (Rel RInfo) (emit (Acq RCopy) w)))"

text \<open>The reduction of the caller's key to PKCS 1: the bytes to import and whether they are a copy of
  this function's own, or the status to report.\<close>

definition clientcert_pkcs1 ::
  "'w winapi \<Rightarrow> bytes \<Rightarrow> bool \<Rightarrow> 'w sio \<Rightarrow> (int + bytes) \<times> 'w sio" where
  "clientcert_pkcs1 A key key_pkcs8 w =
    (if key_pkcs8 then
       let ((rc, copy), w) = unwrap_pkcs8 A key w
       in case copy of
            Some k \<Rightarrow> (Inr k, w)
          | None \<Rightarrow> (Inl (if rc = - 2 then SC_STATUS_KEY_UNSUPPORTED else GetLastError A (env w)), w)
     else (Inr key, w))"

text \<open>From the decoded key blob to the finished handle: provider, key import, association.\<close>

definition clientcert_import ::
  "'w winapi \<Rightarrow> nat \<Rightarrow> bytes \<Rightarrow> 'w sio \<Rightarrow> (int \<times> sc_clientcert option \<times> int) \<times> 'w sio" where
  "clientcert_import A cert blob w =
    (let ((ss, prov), w) = call (NCryptOpenStorageProvider A) w
     in if ss \<noteq> 0 then ((HTTPS_SC_ERR_CLIENT_CERT, None, ss), emit (Rel RCert) (emit (Rel RBlob) w))
        else
          let w = emit (Acq RProv) w;
              ((ss, key), w) = call (NCryptImportKey A prov blob) w;
              w = emit (Rel RBlob) w
          in if ss \<noteq> 0
             then ((HTTPS_SC_ERR_CLIENT_CERT, None, ss), emit (Rel RCert) (emit (Rel RProv) w))
             else
               let (ok, w) = call (CertSetKeyProperty A cert key) (emit (Acq RKey) w)
               in if \<not> ok
                  then ((HTTPS_SC_ERR_CLIENT_CERT, None, GetLastError A (env w)),
                    emit (Rel RCert) (emit (Rel RProv) (emit (Rel RKey) w)))
                  else
                    let (m, w) = call (malloc_ok A 16) w
                    in if \<not> m
                       then ((HTTPS_SC_ERR_ALLOC, None, 0), emit (Rel RProv) (emit (Rel RKey) (emit (Rel RCert) w)))
                       else ((HTTPS_SC_OK, Some \<lparr>cc_cert = cert, cc_prov = prov\<rparr>, 0), emit (Acq RClient) w))"

definition https_sc_clientcert_new ::
  "'w winapi \<Rightarrow> bytes option \<Rightarrow> int \<Rightarrow> bytes option \<Rightarrow> int \<Rightarrow> bool \<Rightarrow> 'w sio \<Rightarrow>
     (int \<times> sc_clientcert option \<times> int) \<times> 'w sio" where
  "https_sc_clientcert_new A cert_der cert_len key_der key_len key_pkcs8 w =
    (case (cert_der, key_der) of
       (Some c, Some k) \<Rightarrow>
         if cert_len \<le> 0 \<or> key_len \<le> 0 then ((HTTPS_SC_ERR_CLIENT_CERT, None, 0), w)
         else
           let w = check (nat cert_len \<le> length c \<and> nat key_len \<le> length k) w;
               (cert, w) = call (CertCreateCertificateContext A (take (nat cert_len) c)) w
           in if cert = 0 then ((HTTPS_SC_ERR_CLIENT_CERT, None, GetLastError A (env w)), w)
              else
                let w = emit (Acq RCert) w;
                    (r, w) = clientcert_pkcs1 A (take (nat key_len) k) key_pkcs8 w
                in case r of
                     Inl status \<Rightarrow> ((HTTPS_SC_ERR_CLIENT_CERT, None, status), emit (Rel RCert) w)
                   | Inr pkcs1 \<Rightarrow>
                       let (blob, w) = call (CryptDecodeRsaPrivateKey A pkcs1) w;
                           w = (if key_pkcs8 then emit (Rel RCopy) w else w)
                       in case blob of
                            None \<Rightarrow> ((HTTPS_SC_ERR_CLIENT_CERT, None, GetLastError A (env w)),
                              emit (Rel RCert) w)
                          | Some b \<Rightarrow> clientcert_import A cert b (emit (Acq RBlob) w)
     | _ \<Rightarrow> ((HTTPS_SC_ERR_CLIENT_CERT, None, 0), w))"

text \<open>Freeing the certificate context frees the key it owns.\<close>

definition https_sc_clientcert_free :: "sc_clientcert option \<Rightarrow> 'w sio \<Rightarrow> 'w sio" where
  "https_sc_clientcert_free h w = (case h of
     None \<Rightarrow> w
   | Some cc \<Rightarrow>
       let w = (if cc_cert cc \<noteq> 0 then emit (Rel RKey) (emit (Rel RCert) w) else w);
           w = (if cc_prov cc \<noteq> 0 then emit (Rel RProv) w else w)
       in emit (Rel RClient) w)"

section \<open>Credentials\<close>

definition disabled_below :: "int \<Rightarrow> u32" where
  "disabled_below min_version =
    (let disabled = SC_PROT_SSL2_CLIENT OR SC_PROT_SSL3_CLIENT OR SC_PROT_TLS1_0_CLIENT OR
       SC_PROT_TLS1_1_CLIENT
     in if min_version \<ge> HTTPS_SC_TLS13 then disabled OR SC_PROT_TLS1_2_CLIENT else disabled)"

definition enabled_from :: "int \<Rightarrow> u32" where
  "enabled_from min_version =
    (let enabled = SC_PROT_TLS1_2_CLIENT OR SC_PROT_TLS1_3_CLIENT
     in if min_version \<ge> HTTPS_SC_TLS13 then SC_PROT_TLS1_3_CLIENT else enabled)"

definition cred_flags :: u32 where
  "cred_flags = SC_CRED_MANUAL_CRED_VALIDATION OR SC_CRED_NO_DEFAULT_CREDS OR
     SC_CRED_NO_SYSTEM_MAPPER OR SC_USE_STRONG_CRYPTO"

definition modern_cred :: "https_sc \<Rightarrow> int \<Rightarrow> sc_credentials" where
  "modern_cred s min_version = \<lparr>cr_dwVersion = SC_CREDENTIALS_VERSION,
     cr_cCreds = (if clientcert s \<noteq> 0 then 1 else 0),
     cr_paCred = (if clientcert s \<noteq> 0 then Some (clientcert s) else None),
     cr_dwFlags = cred_flags, cr_cTlsParameters = 1,
     cr_pTlsParameters = \<lparr>tp_grbitDisabledProtocols = disabled_below min_version\<rparr>\<rparr>"

definition legacy_cred :: "https_sc \<Rightarrow> int \<Rightarrow> sc_schannel_cred" where
  "legacy_cred s min_version = \<lparr>sc_dwVersion = SC_SCHANNEL_CRED_VERSION,
     sc_cCreds = (if clientcert s \<noteq> 0 then 1 else 0),
     sc_paCred = (if clientcert s \<noteq> 0 then Some (clientcert s) else None),
     sc_grbitEnabledProtocols = enabled_from min_version, sc_dwFlags = cred_flags\<rparr>"

definition acquire_cred :: "'w winapi \<Rightarrow> https_sc \<Rightarrow> int \<Rightarrow> 'w sio \<Rightarrow> int \<times> https_sc \<times> 'w sio" where
  "acquire_cred A s min_version w =
    (let (ss, w) = call (AcquireCredentialsHandleW A (Modern (modern_cred s min_version))) w
     in if ss = SEC_E_OK then (SEC_E_OK, s\<lparr>have_cred := True\<rparr>, emit (Acq RCred) w)
        else
          let (ss, w) = call (AcquireCredentialsHandleW A (Legacy (legacy_cred s min_version))) w
          in if ss = SEC_E_OK then (ss, s\<lparr>have_cred := True\<rparr>, emit (Acq RCred) w)
             else (ss, s, w))"

section \<open>Trust\<close>

text \<open>The calls of Windows the decision rests on; each one puts its arguments and its answer on the trace.\<close>

definition verify_policy :: "'w winapi \<Rightarrow> nat list option \<Rightarrow> nat \<Rightarrow> 'w sio \<Rightarrow> u32 option \<times> 'w sio" where
  "verify_policy A host chain w =
    (let (st, w) = call (CertVerifyPolicy A host chain) w in (st, emit (Policy host chain st) w))"

definition trust_status :: "'w winapi \<Rightarrow> nat \<Rightarrow> 'w sio \<Rightarrow> u32 \<times> 'w sio" where
  "trust_status A chain w =
    (let t = TrustErrorStatus A chain (env w) in (t, emit (Trust chain t) w))"

definition new_engine :: "'w winapi \<Rightarrow> sc_chain_engine_config \<Rightarrow> 'w sio \<Rightarrow> nat option \<times> 'w sio" where
  "new_engine A c w = (let (e, w) = call (CertCreateChainEngine A c) w in (e, emit (NewEngine c e) w))"

definition get_chain ::
  "'w winapi \<Rightarrow> nat option \<Rightarrow> nat \<Rightarrow> nat \<Rightarrow> 'w sio \<Rightarrow> nat option \<times> 'w sio" where
  "get_chain A engine cert store w =
    (let (c, w) = call (CertGetChain A engine cert store) w in (c, emit (GotChain engine cert store c) w))"

definition remote_cert :: "'w winapi \<Rightarrow> 'w sio \<Rightarrow> (int \<times> nat) \<times> 'w sio" where
  "remote_cert A w =
    (let ((ss, cert), w) = call (QueryRemoteCert A) w in ((ss, cert), emit (PeerCert ss cert) w))"

definition check_policy :: "'w winapi \<Rightarrow> https_sc \<Rightarrow> nat \<Rightarrow> int \<Rightarrow> 'w sio \<Rightarrow> (int \<times> int) \<times> 'w sio" where
  "check_policy A s chain status w =
    (let (st, w) = verify_policy A (hostw s) chain w
     in case st of
          None \<Rightarrow> ((- 1, GetLastError A (env w)), w)
        | Some dwError \<Rightarrow>
            if dwError \<noteq> 0 then ((- 1, sint dwError), w)
            else
              let (t, w) = trust_status A chain w;
                  fatal = t AND
                    NOT (SC_TRUST_REVOCATION_STATUS_UNKNOWN OR SC_TRUST_IS_OFFLINE_REVOCATION OR
                         SC_TRUST_IS_NOT_TIME_NESTED)
              in if fatal \<noteq> 0 then ((- 1, sint fatal), w) else ((0, status), w))"

definition release_engine :: "nat option \<Rightarrow> 'w sio \<Rightarrow> 'w sio" where
  "release_engine engine w = (if engine \<noteq> None then emit (Rel REngine) w else w)"

text \<open>Building and checking the chain with an engine that is already there (\<open>None\<close>: the default).\<close>

definition verify_chain_with ::
  "'w winapi \<Rightarrow> https_sc \<Rightarrow> nat \<Rightarrow> nat option \<Rightarrow> int \<Rightarrow> 'w sio \<Rightarrow> (int \<times> int) \<times> 'w sio" where
  "verify_chain_with A s cert engine status w =
    (let (chain, w) = get_chain A engine cert (castore s) w
     in case chain of
          None \<Rightarrow> ((- 1, GetLastError A (env w)), release_engine engine w)
        | Some c \<Rightarrow>
            let ((rc, status), w) = check_policy A s c status (emit (Acq RChain) w)
            in ((rc, status), release_engine engine (emit (Rel RChain) w)))"

definition verify_with ::
  "'w winapi \<Rightarrow> https_sc \<Rightarrow> nat \<Rightarrow> bool \<Rightarrow> int \<Rightarrow> 'w sio \<Rightarrow> (int \<times> int) \<times> 'w sio" where
  "verify_with A s cert exclusive status w =
    (if exclusive then
       if castore s = 0 then ((- 1, CERT_E_UNTRUSTEDROOT), w)
       else
         let (e, w) = new_engine A \<lparr>ce_hExclusiveRoot = castore s, ce_dwExclusiveFlags = 1\<rparr> w
         in case e of
              None \<Rightarrow> ((- 1, GetLastError A (env w)), w)
            | Some h \<Rightarrow> verify_chain_with A s cert (Some h) status (emit (Acq REngine) w)
     else verify_chain_with A s cert None status w)"

definition verify_chain :: "'w winapi \<Rightarrow> https_sc \<Rightarrow> int \<Rightarrow> 'w sio \<Rightarrow> (int \<times> int) \<times> 'w sio" where
  "verify_chain A s status w =
    (if skip_verify s then ((0, status), w)
     else
       let ((ss, cert), w) = remote_cert A w
       in if ss \<noteq> SEC_E_OK \<or> cert = 0 then ((- 1, ss), w)
          else
            let w = emit (Acq RPeer) w;
                ((rc, status), w) =
                  (if ca_only s then verify_with A s cert True status w
                   else
                     let ((rc, status), w) = verify_with A s cert False status w
                     in if rc \<noteq> 0 \<and> castore s \<noteq> 0 then verify_with A s cert True status w
                        else ((rc, status), w))
            in ((rc, status), emit (Rel RPeer) w))"

section \<open>Handshake\<close>

definition contents :: "bytes option \<Rightarrow> bytes" where
  "contents b = (case b of None \<Rightarrow> [] | Some x \<Rightarrow> x)"

definition acquire_token :: "bytes option \<Rightarrow> 'w sio \<Rightarrow> 'w sio" where
  "acquire_token t w = (if t \<noteq> None then emit (Acq RToken) w else w)"

definition release_token :: "bytes option \<Rightarrow> 'w sio \<Rightarrow> 'w sio" where
  "release_token t w = (if t \<noteq> None then emit (Rel RToken) w else w)"

text \<open>The first flight. The result is the value to return, or \<open>None\<close> to go on to the loop.\<close>

definition hs_first ::
  "'w winapi \<Rightarrow> https_sc \<Rightarrow> int \<Rightarrow> 'w sio \<Rightarrow> ((int option \<times> int) \<times> https_sc \<times> 'w sio) option" where
  "hs_first A s status w =
    (let (r, w) = call (InitializeSecurityContextW A False (hostw s) False None) w;
         w = acquire_token (isc_token r) w
     in if isc_ss r \<noteq> SEC_I_CONTINUE_NEEDED
        then Some ((Some HTTPS_SC_ERR_HANDSHAKE, isc_ss r), s, release_token (isc_token r) w)
        else
          let s = s\<lparr>have_ctx := True\<rparr>; w = emit (Acq RCtx) w
          in if contents (isc_token r) \<noteq> [] then do {
               (rc, w) \<leftarrow> sock_send_all A s (contents (isc_token r)) w;
               Some ((if rc \<noteq> 0 then Some (sock_class rc) else None, status), s,
                     release_token (isc_token r) w)
             } else Some ((None, status), s, release_token (isc_token r) w))"

text \<open>Making room for another read when the ciphertext buffer is full.\<close>

definition enc_room :: "'w winapi \<Rightarrow> https_sc \<Rightarrow> 'w sio \<Rightarrow> int \<times> https_sc \<times> 'w sio" where
  "enc_room A s w =
    (if buf_cap (enc s) \<le> enc_len s then
       let ((rc, b), w) = grow A (enc s) (buf_cap (enc s) * 2) (enc_len s) SC_ENC_MAX
             (check (buf_cap (enc s) * 2 \<le> 2147483647) w)
       in (rc, s\<lparr>enc := b\<rparr>, w)
     else (0, s, w))"

text \<open>Reading behind what is buffered. The result is as \<open>sock_recv\<close> has it.\<close>

definition enc_recv :: "'w winapi \<Rightarrow> https_sc \<Rightarrow> 'w sio \<Rightarrow> (int \<times> https_sc \<times> 'w sio) option" where
  "enc_recv A s w = do {
     ((n, bs), s, w) \<leftarrow> sock_recv A s (buf_cap (enc s) - enc_len s) w;
     if n > 0 then
       Some (n, s\<lparr>enc := Some (put (contents (enc s)) (enc_len s) bs), enc_len := enc_len s + length bs\<rparr>,
             check (fits (contents (enc s)) (enc_len s) (length bs)) w)
     else Some (n, s, w)
   }"

definition hs_read ::
  "'w winapi \<Rightarrow> https_sc \<Rightarrow> int \<Rightarrow> 'w sio \<Rightarrow> ((int option \<times> int) \<times> https_sc \<times> 'w sio) option" where
  "hs_read A s status w =
    (let (rc, s, w) = enc_room A s w
     in if rc \<noteq> 0 then Some ((Some HTTPS_SC_ERR_ALLOC, status), s, w)
        else do {
          (n, s, w) \<leftarrow> enc_recv A s w;
          if n < 0 then Some ((Some (sock_class n), status), s, w)
          else if n = 0 then Some ((Some HTTPS_SC_ERR_HANDSHAKE, SEC_E_INCOMPLETE_MESSAGE), s, w)
          else Some ((None, status), s, w)
        })"

text \<open>Keeping the trailing bytes that belong to the next record.\<close>

definition enc_keep :: "https_sc \<Rightarrow> nat option \<Rightarrow> 'w sio \<Rightarrow> https_sc \<times> 'w sio" where
  "enc_keep s extra w = (case extra of
     None \<Rightarrow> (s\<lparr>enc_len := 0\<rparr>, w)
   | Some e \<Rightarrow>
       if 0 < e then
         (s\<lparr>enc := Some (put (contents (enc s)) 0 (slice (contents (enc s)) (enc_len s - e) e)), enc_len := e\<rparr>,
          check (e \<le> enc_len s \<and> enc_len s \<le> buf_cap (enc s)) w)
       else (s\<lparr>enc_len := 0\<rparr>, w))"

partial_function (option) hs_loop ::
  "'w winapi \<Rightarrow> https_sc \<Rightarrow> int \<Rightarrow> bool \<Rightarrow> bool \<Rightarrow> 'w sio \<Rightarrow> ((int \<times> int) \<times> https_sc \<times> 'w sio) option" where
  "hs_loop A s status need_read retried w = do {
     ((early, status), s, w) \<leftarrow> (if need_read then hs_read A s status w else Some ((None, status), s, w));
     case early of Some rc \<Rightarrow> Some ((rc, status), s, w)
     | None \<Rightarrow>
       let (r, w) = call (InitializeSecurityContextW A True None retried
                      (Some (take (enc_len s) (contents (enc s))))) w;
           w = acquire_token (isc_alert r) (acquire_token (isc_token r) w);
           ss = isc_ss r
       in if ss = SEC_E_INCOMPLETE_MESSAGE then
            let (rc, s, w) = enc_room A s w
            in if rc \<noteq> 0 then Some ((HTTPS_SC_ERR_ALLOC, status), s, w)
               else hs_loop A s status True retried w
          else do {
            (rc, w) \<leftarrow> (if contents (isc_token r) \<noteq> [] then sock_send_all A s (contents (isc_token r)) w
                        else Some (0, w));
            let w = release_token (isc_alert r) (release_token (isc_token r) w);
            if rc \<noteq> 0 \<and> (ss = SEC_E_OK \<or> ss = SEC_I_CONTINUE_NEEDED)
            then Some ((sock_class rc, status), s, w)
            else if ss = SEC_I_INCOMPLETE_CREDENTIALS \<and> \<not> retried
            then hs_loop A s status False True w
            else
              let (s, w) = enc_keep s (isc_extra r) w
              in if ss = SEC_E_OK then Some ((HTTPS_SC_OK, status), s, w)
                 else if ss = SEC_I_CONTINUE_NEEDED then hs_loop A s status (enc_len s = 0) retried w
                 else Some ((HTTPS_SC_ERR_HANDSHAKE, ss), s, w)
          }
   }"

definition do_handshake ::
  "'w winapi \<Rightarrow> https_sc \<Rightarrow> int \<Rightarrow> 'w sio \<Rightarrow> ((int \<times> int) \<times> https_sc \<times> 'w sio) option" where
  "do_handshake A s status w =
    (if \<not> have_ctx s then do {
       ((early, status), s, w) \<leftarrow> hs_first A s status w;
       case early of Some rc \<Rightarrow> Some ((rc, status), s, w)
       | None \<Rightarrow> hs_loop A s status True False w
     } else hs_loop A s status (enc_len s = 0) False w)"

section \<open>Setup and teardown\<close>

definition free_buf :: "bytes option \<Rightarrow> 'w sio \<Rightarrow> 'w sio" where
  "free_buf b w = (if b \<noteq> None then emit (Rel RBuf) w else w)"

definition free_state :: "https_sc \<Rightarrow> 'w sio \<Rightarrow> 'w sio" where
  "free_state s w =
    (let w = (if have_ctx s then emit (Rel RCtx) w else w);
         w = (if have_cred s then emit (Rel RCred) w else w);
         w = free_buf (sc_out s) (free_buf (dec s) (free_buf (enc s) w));
         w = (if hostw s \<noteq> None then emit (Rel RHost) w else w)
     in emit (Rel RState) w)"

text \<open>The zeroed structure \<open>calloc\<close> gives, with the arguments of the handshake filled in.\<close>

definition new_state :: "nat \<Rightarrow> nat \<Rightarrow> bool \<Rightarrow> bool \<Rightarrow> sc_clientcert option \<Rightarrow> int \<Rightarrow> https_sc" where
  "new_state sk calist caonly skip cc deadline = \<lparr>sock = sk, have_cred = False, have_ctx = False,
     sizes = \<lparr>cbHeader = 0, cbTrailer = 0, cbMaximumMessage = 0\<rparr>, castore = calist, ca_only = caonly,
     skip_verify = skip, hostw = None, clientcert = (case cc of None \<Rightarrow> 0 | Some c \<Rightarrow> cc_cert c),
     enc = None, enc_len = 0, dec = None, dec_len = 0, dec_off = 0, sc_out = None,
     deadline_ns = deadline, eof = False\<rparr>"

definition deadline_from :: "'w winapi \<Rightarrow> int \<Rightarrow> 'w sio \<Rightarrow> int \<times> 'w sio" where
  "deadline_from A timeout_ns w =
    (if timeout_ns > 0 then let (now, w) = now_ns A w in (now + timeout_ns, w) else (0, w))"

text \<open>The UTF-16 copy of the host name: the value to return, or \<open>None\<close> to go on.\<close>

definition to_wide :: "'w winapi \<Rightarrow> string \<Rightarrow> nat option \<Rightarrow> 'w sio \<Rightarrow> (int \<times> nat list) \<times> 'w sio" where
  "to_wide A host cap w =
    (let ((n, wide), w) = call (MultiByteToWideChar A host cap) w in ((n, wide), emit (Wide host cap n wide) w))"

definition set_host :: "'w winapi \<Rightarrow> https_sc \<Rightarrow> string \<Rightarrow> 'w sio \<Rightarrow> int option \<times> https_sc \<times> 'w sio" where
  "set_host A s host w =
    (let ((wlen, _), w) = to_wide A host None w
     in if wlen \<le> 0 then (Some HTTPS_SC_ERR_SETUP, s, w)
        else
          let (m, w) = call (malloc_ok A (nat wlen * 2)) w
          in if \<not> m then (Some HTTPS_SC_ERR_ALLOC, s, w)
             else
               let ((n, wide), w) = to_wide A host (Some (nat wlen)) (emit (Acq RHost) w);
                   s = s\<lparr>hostw := Some wide\<rparr>
               in if n \<le> 0 then (Some HTTPS_SC_ERR_SETUP, s, w) else (None, s, w))"

text \<open>After the handshake and the trust decision: the record sizes and the output buffer. A negative
  \<open>outcap\<close> is no more than any capacity, so \<open>grow\<close> does with it what it does with 0.\<close>

definition finish_setup :: "'w winapi \<Rightarrow> https_sc \<Rightarrow> int \<Rightarrow> 'w sio \<Rightarrow> (int \<times> int) \<times> https_sc \<times> 'w sio" where
  "finish_setup A s status w =
    (let ((ss, sz), w) = call (QueryStreamSizes A) w
     in if ss \<noteq> SEC_E_OK then ((HTTPS_SC_ERR_SETUP, ss), s, w)
        else
          let s = s\<lparr>sizes := sz\<rparr>;
              outcap = long32 (int (cbHeader sz + cbMaximumMessage sz + cbTrailer sz));
              ((rc, b), w) = grow A (sc_out s) (nat outcap) 0 SC_ENC_MAX w;
              s = s\<lparr>sc_out := b\<rparr>
          in if rc \<noteq> 0 then ((HTTPS_SC_ERR_ALLOC, status), s, w)
             else ((HTTPS_SC_OK, status), s\<lparr>deadline_ns := 0\<rparr>, w))"

text \<open>From the filled structure to the outcome; every failure frees the structure.\<close>

definition handshake_run ::
  "'w winapi \<Rightarrow> https_sc \<Rightarrow> int \<Rightarrow> 'w sio \<Rightarrow> ((int \<times> int) \<times> https_sc \<times> 'w sio) option" where
  "handshake_run A s min_version w =
    (let ((rc, b), w) = grow A (enc s) SC_ENC_INITIAL 0 SC_ENC_MAX w; s = s\<lparr>enc := b\<rparr>
     in if rc \<noteq> 0 then Some ((HTTPS_SC_ERR_ALLOC, 0), s, w)
        else
          let (ss, s, w) = acquire_cred A s min_version w
          in if ss \<noteq> SEC_E_OK then Some ((HTTPS_SC_ERR_SETUP, ss), s, w)
             else do {
               ((rc, status), s, w) \<leftarrow> do_handshake A s 0 w;
               if rc \<noteq> HTTPS_SC_OK then Some ((rc, status), s, w)
               else
                 let ((vrc, status), w) = verify_chain A s status w
                 in if vrc \<noteq> 0 then Some ((HTTPS_SC_ERR_HANDSHAKE, status), s, w)
                    else Some (finish_setup A s status w)
             })"

definition https_sc_handshake ::
  "'w winapi \<Rightarrow> nat \<Rightarrow> string option \<Rightarrow> bool \<Rightarrow> nat \<Rightarrow> bool \<Rightarrow> int \<Rightarrow> sc_clientcert option \<Rightarrow> int \<Rightarrow>
     'w sio \<Rightarrow> ((int \<times> https_sc option \<times> int) \<times> 'w sio) option" where
  "https_sc_handshake A sk host skip calist caonly min_version cc timeout_ns w =
    (let (m, w) = call (malloc_ok A 256) w
     in if \<not> m then Some ((HTTPS_SC_ERR_ALLOC, None, 0), w)
        else
          let (dl, w) = deadline_from A timeout_ns (emit (Acq RState) w);
              s = new_state sk calist caonly skip cc dl
          in case host of
               None \<Rightarrow> Some ((HTTPS_SC_ERR_SETUP, None, 0), free_state s w)
             | Some h \<Rightarrow>
                 if h = [] then Some ((HTTPS_SC_ERR_SETUP, None, 0), free_state s w)
                 else
                   let (early, s, w) = set_host A s h w
                   in case early of
                        Some rc \<Rightarrow> Some ((rc, None, 0), free_state s w)
                      | None \<Rightarrow> do {
                          ((rc, status), s, w) \<leftarrow> handshake_run A s min_version w;
                          if rc \<noteq> HTTPS_SC_OK then Some ((rc, None, status), free_state s w)
                          else Some ((HTTPS_SC_OK, Some s, status), w)
                        })"

section \<open>Records\<close>

definition stash_plaintext :: "'w winapi \<Rightarrow> https_sc \<Rightarrow> bytes \<Rightarrow> 'w sio \<Rightarrow> int \<times> https_sc \<times> 'w sio" where
  "stash_plaintext A s data w =
    (if data = [] then (0, s, w)
     else
       let (s, w) =
             (if 0 < dec_off s
              then (s\<lparr>dec := Some (put (contents (dec s)) 0 (slice (contents (dec s)) (dec_off s) (dec_len s - dec_off s))),
                      dec_len := dec_len s - dec_off s, dec_off := 0\<rparr>,
                    check (dec_off s \<le> dec_len s \<and> dec_len s \<le> buf_cap (dec s)) w)
              else (s, w));
           ((rc, b), w) = grow A (dec s) (dec_len s + length data) (dec_len s) SC_ENC_MAX w;
           s = s\<lparr>dec := b\<rparr>
       in if rc \<noteq> 0 then (- 1, s, w)
          else (0, s\<lparr>dec := Some (put (contents b) (dec_len s) data), dec_len := dec_len s + length data\<rparr>,
                check (fits (contents b) (dec_len s) (length data)) w))"

definition take_plaintext :: "https_sc \<Rightarrow> bytes \<Rightarrow> nat \<Rightarrow> nat \<Rightarrow> 'w sio \<Rightarrow> (nat \<times> bytes) \<times> https_sc \<times> 'w sio" where
  "take_plaintext s buf off len w =
    (if dec_len s \<le> dec_off s then ((0, buf), s, w)
     else
       let avail = dec_len s - dec_off s; n = (if avail < len then avail else len);
           w = check (dec_len s \<le> buf_cap (dec s) \<and> fits buf off n) w;
           buf = put buf off (slice (contents (dec s)) (dec_off s) n);
           s = s\<lparr>dec_off := dec_off s + n\<rparr>
       in ((n, buf), if dec_off s = dec_len s then s\<lparr>dec_off := 0, dec_len := 0\<rparr> else s, w))"

definition pick :: "sec_buffer_type \<Rightarrow> sec_buffer list \<Rightarrow> (nat \<times> nat) option" where
  "pick t bs = map_option snd (find (\<lambda>b. fst b = t) bs)"

text \<open>Copying one record's plaintext out of \<open>enc\<close>: into the caller's buffer while the stash is empty,
  what does not fit into the stash.\<close>

definition read_plain ::
  "'w winapi \<Rightarrow> https_sc \<Rightarrow> bytes \<Rightarrow> nat \<Rightarrow> nat \<Rightarrow> int \<Rightarrow> (nat \<times> nat) option \<Rightarrow> 'w sio \<Rightarrow>
     (int \<times> nat \<times> bytes) \<times> https_sc \<times> 'w sio" where
  "read_plain A s buf len direct ss data w = (case data of
     None \<Rightarrow> ((0, direct, buf), s, w)
   | Some (off, n) \<Rightarrow>
       if n = 0 then ((0, direct, buf), s, w)
       else
         let plain = slice (contents (enc s)) off n;
             w = emit (Plain plain) (check (fits (contents (enc s)) off n) w);
             k = (if ss \<noteq> SEC_I_RENEGOTIATE \<and> dec_len s = dec_off s \<and> direct < len
                  then (if len - direct < n then len - direct else n) else 0);
             w = check (fits buf direct k) w;
             buf = put buf direct (take k plain);
             (rc, s, w) = stash_plaintext A s (drop k plain) w
         in ((rc, direct + k, buf), s, w))"

definition read_extra :: "https_sc \<Rightarrow> (nat \<times> nat) option \<Rightarrow> 'w sio \<Rightarrow> https_sc \<times> 'w sio" where
  "read_extra s extra w = (case extra of
     None \<Rightarrow> (s\<lparr>enc_len := 0\<rparr>, w)
   | Some (off, n) \<Rightarrow>
       if 0 < n then
         (s\<lparr>enc := Some (put (contents (enc s)) 0 (slice (contents (enc s)) off n)), enc_len := n\<rparr>,
          check (fits (contents (enc s)) off n) w)
       else (s\<lparr>enc_len := 0\<rparr>, w))"

text \<open>The socket half of the loop body: \<open>Some\<close> is the error to return, \<open>None\<close> with \<open>True\<close> leaves
  the loop, with \<open>False\<close> goes round again.\<close>

definition read_more ::
  "'w winapi \<Rightarrow> https_sc \<Rightarrow> 'w sio \<Rightarrow> ((int option \<times> bool) \<times> https_sc \<times> 'w sio) option" where
  "read_more A s w =
    (if eof s then Some ((None, True), s, w)
     else do {
       (rn, s, w) \<leftarrow> enc_recv A s w;
       if rn < 0 then Some ((Some (sock_class rn), False), s, w)
       else if rn = 0 then Some ((None, True), s, w)
       else Some ((None, False), s, w)
     })"

partial_function (option) read_loop ::
  "'w winapi \<Rightarrow> https_sc \<Rightarrow> bytes \<Rightarrow> nat \<Rightarrow> nat \<Rightarrow> int \<Rightarrow> 'w sio \<Rightarrow>
     ((int \<times> nat \<times> int \<times> bytes) \<times> https_sc \<times> 'w sio) option" where
  "read_loop A s buf len direct status w =
    (if 0 < enc_len s then
       let ((ss, enc', bs), w) = call (DecryptMessage A (contents (enc s)) (enc_len s)) w
       in if ss = SEC_E_OK \<or> ss = SEC_I_RENEGOTIATE \<or> ss = SEC_I_CONTEXT_EXPIRED then
            let s = s\<lparr>enc := Some enc'\<rparr>;
                ((rc, direct, buf), s, w) = read_plain A s buf len direct ss (pick SECBUFFER_DATA bs) w
            in if rc \<noteq> 0 then Some ((HTTPS_SC_ERR_ALLOC, 0, status, buf), s, w)
               else do {
                 let (s, w) = read_extra s (pick SECBUFFER_EXTRA bs) w;
                 ((rc, status), s, w) \<leftarrow>
                   (if ss = SEC_I_CONTEXT_EXPIRED then Some ((HTTPS_SC_OK, status), s\<lparr>eof := True\<rparr>, w)
                    else if ss = SEC_I_RENEGOTIATE then do_handshake A s status w
                    else Some ((HTTPS_SC_OK, status), s, w));
                 if rc \<noteq> HTTPS_SC_OK then Some ((rc, 0, status, buf), s, w)
                 else if 0 < direct \<or> dec_off s < dec_len s \<or> eof s then
                   Some ((HTTPS_SC_OK, direct, status, buf), s, w)
                 else read_loop A s buf len direct status w
               }
          else if ss \<noteq> SEC_E_INCOMPLETE_MESSAGE then Some ((HTTPS_SC_ERR_IO, 0, ss, buf), s\<lparr>enc := Some enc'\<rparr>, w)
          else
            let (rc, s, w) = enc_room A (s\<lparr>enc := Some enc'\<rparr>) w
            in if rc \<noteq> 0 then Some ((HTTPS_SC_ERR_ALLOC, 0, status, buf), s, w)
               else do {
                 ((e, stop), s, w) \<leftarrow> read_more A s w;
                 case e of Some rc \<Rightarrow> Some ((rc, 0, status, buf), s, w)
                 | None \<Rightarrow> if stop then Some ((HTTPS_SC_OK, direct, status, buf), s, w)
                     else read_loop A s buf len direct status w
               }
     else do {
       ((e, stop), s, w) \<leftarrow> read_more A s w;
       case e of Some rc \<Rightarrow> Some ((rc, 0, status, buf), s, w)
       | None \<Rightarrow> if stop then Some ((HTTPS_SC_OK, direct, status, buf), s, w)
           else read_loop A s buf len direct status w
     })"

definition https_sc_read ::
  "'w winapi \<Rightarrow> https_sc option \<Rightarrow> bytes \<Rightarrow> int \<Rightarrow> int \<Rightarrow> 'w sio \<Rightarrow>
     ((int \<times> nat \<times> int \<times> bytes) \<times> https_sc option \<times> 'w sio) option" where
  "https_sc_read A h buf len timeout_ns w = (case h of
     None \<Rightarrow> Some ((HTTPS_SC_ERR_CLOSED, 0, 0, buf), h, w)
   | Some s \<Rightarrow>
       if \<not> have_ctx s then Some ((HTTPS_SC_ERR_CLOSED, 0, 0, buf), h, w)
       else if len \<le> 0 then Some ((HTTPS_SC_OK, 0, 0, buf), h, w)
       else if dec_off s < dec_len s then
         let ((n, buf), s, w) = take_plaintext s buf 0 (nat len) w
         in Some ((HTTPS_SC_OK, n, 0, buf), Some s, w)
       else
         let (dl, w) = deadline_from A timeout_ns w
         in do {
           ((rc, direct, status, buf), s, w) \<leftarrow> read_loop A (s\<lparr>deadline_ns := dl\<rparr>) buf (nat len) 0 0 w;
           if rc \<noteq> HTTPS_SC_OK then Some ((rc, 0, status, buf), Some s, w)
           else
             let ((n, buf), s, w) = take_plaintext s buf direct (nat len - direct) w
             in Some ((HTTPS_SC_OK, direct + n, status, buf), Some s, w)
         })"

text \<open>Sealing the record in the output buffer: header, data and trailer lie one after the other.\<close>

definition encrypt_message ::
  "'w winapi \<Rightarrow> bytes \<Rightarrow> nat \<Rightarrow> nat \<Rightarrow> nat \<Rightarrow> 'w sio \<Rightarrow> (int \<times> bytes \<times> nat \<times> nat \<times> nat) \<times> 'w sio" where
  "encrypt_message A out hdr n trl w = call (EncryptMessage A out hdr n trl) (emit (Sealed (slice out hdr n)) w)"

text \<open>One record of a write: the status, and the result of the send when the record was sealed.\<close>

partial_function (option) write_loop ::
  "'w winapi \<Rightarrow> https_sc \<Rightarrow> bytes \<Rightarrow> nat \<Rightarrow> 'w sio \<Rightarrow> ((int \<times> nat \<times> int) \<times> https_sc \<times> 'w sio) option" where
  "write_loop A s buf sent w =
    (if sent < length buf then
       let chunk = (if cbMaximumMessage (sizes s) < length buf - sent then cbMaximumMessage (sizes s)
                    else length buf - sent);
           hdr = cbHeader (sizes s);
           w = check (fits (contents (sc_out s)) hdr chunk \<and>
                      fits (contents (sc_out s)) (hdr + chunk) (cbTrailer (sizes s))) w;
           s = s\<lparr>sc_out := Some (put (contents (sc_out s)) hdr (slice buf sent chunk))\<rparr>;
           ((ss, out', c0, c1, c2), w) =
             encrypt_message A (contents (sc_out s)) hdr chunk (cbTrailer (sizes s)) w;
           s = s\<lparr>sc_out := Some out'\<rparr>
       in if ss \<noteq> SEC_E_OK then Some ((HTTPS_SC_ERR_IO, sent, ss), s, w)
          else do {
            (rc, w) \<leftarrow> sock_send_all A s (take (c0 + c1 + c2) out') (check (c0 + c1 + c2 \<le> length out') w);
            if rc \<noteq> 0 then Some ((sock_class rc, sent, 0), s, w)
            else write_loop A s buf (sent + chunk) w
          }
     else Some ((HTTPS_SC_OK, sent, 0), s, w))"

definition https_sc_write ::
  "'w winapi \<Rightarrow> https_sc option \<Rightarrow> bytes \<Rightarrow> int \<Rightarrow> int \<Rightarrow> 'w sio \<Rightarrow>
     ((int \<times> nat \<times> int) \<times> https_sc option \<times> 'w sio) option" where
  "https_sc_write A h buf len timeout_ns w = (case h of
     None \<Rightarrow> Some ((HTTPS_SC_ERR_CLOSED, 0, 0), h, w)
   | Some s \<Rightarrow>
       if \<not> have_ctx s then Some ((HTTPS_SC_ERR_CLOSED, 0, 0), h, w)
       else if len \<le> 0 then Some ((HTTPS_SC_OK, 0, 0), h, w)
       else
         let (dl, w) = deadline_from A timeout_ns (check (nat len \<le> length buf) w)
         in do {
           (r, s, w) \<leftarrow> write_loop A (s\<lparr>deadline_ns := dl\<rparr>) (take (nat len) buf) 0 w;
           Some (r, Some s, w)
         })"

definition close_notify :: "'w winapi \<Rightarrow> https_sc \<Rightarrow> 'w sio \<Rightarrow> 'w sio option" where
  "close_notify A s w =
    (let (ss, w) = call (ApplyShutdownToken A) w
     in if ss \<noteq> SEC_E_OK then Some w
        else
          let (r, w) = call (InitializeSecurityContextW A True None False None) w;
              w = acquire_token (isc_token r) w
          in if (isc_ss r = SEC_E_OK \<or> isc_ss r = SEC_I_CONTEXT_EXPIRED) \<and> contents (isc_token r) \<noteq> [] then do {
               (_, w) \<leftarrow> sock_send_all A s (contents (isc_token r)) w;
               Some (release_token (isc_token r) w)
             } else Some (release_token (isc_token r) w))"

definition https_sc_close :: "'w winapi \<Rightarrow> https_sc option \<Rightarrow> 'w sio \<Rightarrow> 'w sio option" where
  "https_sc_close A h w = (case h of
     None \<Rightarrow> Some w
   | Some s \<Rightarrow> do {
       w \<leftarrow> (if have_ctx s \<and> have_cred s then
               let (now, w) = now_ns A w
               in close_notify A (s\<lparr>deadline_ns := now + SC_SHUTDOWN_NS\<rparr>) w
             else Some w);
       let w = (if castore s \<noteq> 0 then emit (Rel RStore) w else w);
       Some (free_state s w)
     })"

end
