(* ===== verification/Schannel_IO.thy ===== *)
theory Schannel_IO
  imports Schannel
begin

text \<open>
  The building blocks of the Windows backend: growing buffers, the socket loops, the trust decision
  and the resources. \<open>win_ok\<close> is what the file relies on of Windows: the sizes it reports stay
  inside the buffers it was given. \<open>win_live\<close> adds that Windows makes progress.
\<close>

section \<open>Projections of the trace\<close>

definition trust_ev :: "sc_ev \<Rightarrow> bool" where
  "trust_ev e = (case e of Sent _ \<Rightarrow> False | Recvd _ \<Rightarrow> False | Plain _ \<Rightarrow> False | Sealed _ \<Rightarrow> False |
     Acq _ \<Rightarrow> False | Rel _ \<Rightarrow> False | _ \<Rightarrow> True)"

lemma trust_ev_simps [simp]:
  "\<not> trust_ev (Sent b)" "\<not> trust_ev (Recvd b)" "\<not> trust_ev (Plain b)" "\<not> trust_ev (Sealed b)"
  "\<not> trust_ev (Acq r)" "\<not> trust_ev (Rel r)" "trust_ev (Wide h cap n ws)" "trust_ev (PeerCert ss cert)"
  "trust_ev (NewEngine c e)" "trust_ev (GotChain e cert st c')" "trust_ev (Policy hw ch a)" "trust_ev (Trust ch t)"
  by (simp_all add: trust_ev_def)

definition plain_of :: "sc_ev list \<Rightarrow> bytes" where
  "plain_of tr = concat (map (\<lambda>e. case e of Plain b \<Rightarrow> b | _ \<Rightarrow> []) tr)"

definition sent_of :: "sc_ev list \<Rightarrow> bytes" where
  "sent_of tr = concat (map (\<lambda>e. case e of Sent b \<Rightarrow> b | _ \<Rightarrow> []) tr)"

definition sealed_of :: "sc_ev list \<Rightarrow> bytes" where
  "sealed_of tr = concat (map (\<lambda>e. case e of Sealed b \<Rightarrow> b | _ \<Rightarrow> []) tr)"

definition live :: "sc_res \<Rightarrow> sc_ev list \<Rightarrow> int" where
  "live r tr = int (count_list tr (Acq r)) - int (count_list tr (Rel r))"

lemma plain_of_append [simp]: "plain_of (xs @ ys) = plain_of xs @ plain_of ys"
  by (simp add: plain_of_def)

lemma sent_of_append [simp]: "sent_of (xs @ ys) = sent_of xs @ sent_of ys"
  by (simp add: sent_of_def)

lemma sealed_of_append [simp]: "sealed_of (xs @ ys) = sealed_of xs @ sealed_of ys"
  by (simp add: sealed_of_def)

lemma live_append [simp]: "live r (xs @ ys) = live r xs + live r ys"
  by (simp add: live_def)

lemma plain_of_simps [simp]:
  "plain_of [] = []" "plain_of (Plain b # tr) = b @ plain_of tr"
  "plain_of (Sent b # tr) = plain_of tr" "plain_of (Recvd b # tr) = plain_of tr"
  "plain_of (Sealed b # tr) = plain_of tr" "plain_of (Acq r # tr) = plain_of tr"
  "plain_of (Rel r # tr) = plain_of tr" "trust_ev v \<Longrightarrow> plain_of (v # tr) = plain_of tr"
  by (simp_all add: plain_of_def trust_ev_def split: sc_ev.splits)

lemma sent_of_simps [simp]:
  "sent_of [] = []" "sent_of (Plain b # tr) = sent_of tr"
  "sent_of (Sent b # tr) = b @ sent_of tr" "sent_of (Recvd b # tr) = sent_of tr"
  "sent_of (Sealed b # tr) = sent_of tr" "sent_of (Acq r # tr) = sent_of tr"
  "sent_of (Rel r # tr) = sent_of tr" "trust_ev v \<Longrightarrow> sent_of (v # tr) = sent_of tr"
  by (simp_all add: sent_of_def trust_ev_def split: sc_ev.splits)

lemma sealed_of_simps [simp]:
  "sealed_of [] = []" "sealed_of (Plain b # tr) = sealed_of tr"
  "sealed_of (Sent b # tr) = sealed_of tr" "sealed_of (Recvd b # tr) = sealed_of tr"
  "sealed_of (Sealed b # tr) = b @ sealed_of tr" "sealed_of (Acq r # tr) = sealed_of tr"
  "sealed_of (Rel r # tr) = sealed_of tr" "trust_ev v \<Longrightarrow> sealed_of (v # tr) = sealed_of tr"
  by (simp_all add: sealed_of_def trust_ev_def split: sc_ev.splits)

lemma live_simps [simp]:
  "live r [] = 0" "live r (Plain b # tr) = live r tr" "live r (Sent b # tr) = live r tr"
  "live r (Recvd b # tr) = live r tr" "live r (Sealed b # tr) = live r tr"
  "trust_ev v \<Longrightarrow> live r (v # tr) = live r tr"
  "live r (Acq r' # tr) = (if r' = r then 1 else 0) + live r tr"
  "live r (Rel r' # tr) = (if r' = r then - 1 else 0) + live r tr"
  by (auto simp: live_def trust_ev_def)

text \<open>The calls the trust decision rests on, in order.\<close>

definition verdicts :: "sc_ev list \<Rightarrow> sc_ev list" where
  "verdicts tr = filter trust_ev tr"

lemma verdicts_append [simp]: "verdicts (xs @ ys) = verdicts xs @ verdicts ys"
  by (simp add: verdicts_def)

lemma verdicts_simps [simp]:
  "verdicts [] = []" "verdicts (v # tr) = (if trust_ev v then v # verdicts tr else verdicts tr)"
  by (simp_all add: verdicts_def)

section \<open>Growing a buffer\<close>

lemma dbl_spec:
  "0 < n \<Longrightarrow> n \<le> 1048576 \<Longrightarrow> want \<le> 524288 \<Longrightarrow>
     \<exists>c. dbl n want = (c, True) \<and> n \<le> c \<and> want \<le> c \<and> (n \<le> want \<longrightarrow> c \<le> 2 * want)"
proof (induction n want rule: dbl.induct)
  case (1 n want)
  show ?case
  proof (cases "n < want")
    case True
    then obtain c where "dbl (2 * n) want = (c, True)" "2 * n \<le> c" "want \<le> c" "2 * n \<le> want \<longrightarrow> c \<le> 2 * want"
      using 1 by auto
    then show ?thesis using True 1(2-4) by (subst dbl.simps) (cases "2 * n \<le> want"; auto simp: dbl.simps [of "2 * n"])
  next
    case False
    then show ?thesis using 1(2-4) by (subst dbl.simps) auto
  qed
qed

lemma buf_cap_contents: "buf_cap b = length (contents b)"
  by (simp add: buf_cap_def contents_def split: option.split)

lemma buf_cap_simps [simp]: "buf_cap None = 0" "buf_cap (Some x) = length x"
  by (simp_all add: buf_cap_def)

lemma contents_simps [simp]: "contents None = []" "contents (Some x) = x"
  by (simp_all add: contents_def)

text \<open>What the two halves of a failed or successful \<open>grow\<close> leave behind.\<close>

lemma grow_spec:
  assumes used: "used \<le> buf_cap b" and cap: "buf_cap b \<le> SC_ENC_MAX" and limit: "limit \<le> SC_ENC_MAX"
    and g: "grow A b want used limit w = ((rc, b'), w')"
  shows "oob w' = oob w" and "rc = 0 \<or> rc = - 1" and "rc = - 1 \<Longrightarrow> b' = b"
    and "buf_cap b \<le> buf_cap b'" and "buf_cap b' \<le> SC_ENC_MAX"
    and "rc = 0 \<Longrightarrow> want \<le> buf_cap b'"
    and "take used (contents b') = take used (contents b)"
    and "plain_of (trace w') = plain_of (trace w)" and "sent_of (trace w') = sent_of (trace w)"
    and "sealed_of (trace w') = sealed_of (trace w)"
    and "live r (trace w') = live r (trace w) +
      (if r = RBuf then of_bool (b' \<noteq> None) - of_bool (b \<noteq> None) else 0)"
proof -
  have "oob w' = oob w \<and> (rc = 0 \<or> rc = - 1) \<and> (rc = - 1 \<longrightarrow> b' = b) \<and> buf_cap b \<le> buf_cap b' \<and>
    buf_cap b' \<le> SC_ENC_MAX \<and> (rc = 0 \<longrightarrow> want \<le> buf_cap b') \<and>
    take used (contents b') = take used (contents b) \<and> plain_of (trace w') = plain_of (trace w) \<and>
    sent_of (trace w') = sent_of (trace w) \<and> sealed_of (trace w') = sealed_of (trace w) \<and>
    live r (trace w') = live r (trace w) + (if r = RBuf then of_bool (b' \<noteq> None) - of_bool (b \<noteq> None) else 0)"
  proof (cases "want \<le> buf_cap b \<or> limit < want")
    case True
    then show ?thesis using g cap by (auto simp: grow_def split: if_splits)
  next
    case False
    define c0 where "c0 = (if 0 < buf_cap b then buf_cap b else 1024)"
    have c0: "0 < c0" "c0 \<le> 1048576" and lim: "limit \<le> 524288" and want: "want \<le> 524288"
      using cap limit False by (auto simp: c0_def SC_ENC_MAX_def)
    obtain c where c: "dbl c0 want = (c, True)" "c0 \<le> c" "want \<le> c"
      using dbl_spec [OF c0 want] by auto
    define n where "n = (if limit < c then limit else c)"
    have n: "want \<le> n" "n \<le> SC_ENC_MAX" "buf_cap b < n"
      using c False lim limit by (auto simp: n_def SC_ENC_MAX_def c0_def split: if_splits)
    obtain m e where m: "malloc_ok A n (env w) = (m, e)" by (cases "malloc_ok A n (env w)") auto
    have g': "grow A b want used limit w = (if \<not> m then ((- 1, b), w\<lparr>env := e\<rparr>)
        else case b of
          None \<Rightarrow> ((0, Some (map (heap_garbage A e) [0..<n])), emit (Acq RBuf) (w\<lparr>env := e\<rparr>))
        | Some old \<Rightarrow> ((0, Some (if 0 < used then put (map (heap_garbage A e) [0..<n]) 0 (take used old)
              else map (heap_garbage A e) [0..<n])),
            emit (Rel RBuf) (emit (Acq RBuf) (check (used \<le> length old \<and> used \<le> n) (w\<lparr>env := e\<rparr>)))))"
      using False c(1) m unfolding grow_def c0_def [symmetric] n_def [symmetric]
      by (simp add: Let_def n_def [symmetric] call_def check_def split: option.split) (simp add: n_def)
    have len: "length (put (map (heap_garbage A e) [0..<n]) 0 (take used old)) = n" if "b = Some old" for old
      using that used n(3) by (simp add: put_def)
    show ?thesis
    proof (cases b)
      case None
      then show ?thesis using g n used unfolding g' by (auto split: if_splits)
    next
      case (Some old)
      then show ?thesis using g n used len [OF Some] put_0 [of used "take used old"] unfolding g'
        by (auto split: if_splits)
    qed
  qed
  then show "oob w' = oob w" and "rc = 0 \<or> rc = - 1" and "rc = - 1 \<Longrightarrow> b' = b"
    and "buf_cap b \<le> buf_cap b'" and "buf_cap b' \<le> SC_ENC_MAX"
    and "rc = 0 \<Longrightarrow> want \<le> buf_cap b'"
    and "take used (contents b') = take used (contents b)"
    and "plain_of (trace w') = plain_of (trace w)" and "sent_of (trace w') = sent_of (trace w)"
    and "sealed_of (trace w') = sealed_of (trace w)"
    and "live r (trace w') = live r (trace w) +
      (if r = RBuf then of_bool (b' \<noteq> None) - of_bool (b \<noteq> None) else 0)"
    by blast+
qed

lemma grow_verdicts: "grow A b want used limit w = (r, w') \<Longrightarrow> verdicts (trace w') = verdicts (trace w)"
  by (auto simp: grow_def call_def Let_def split: if_splits prod.splits option.splits)

section \<open>What is relied on of Windows\<close>

definition recv_ok :: "'w winapi \<Rightarrow> bool" where
  "recv_ok A \<longleftrightarrow> (\<forall>sk n w bs w'. recv_rc A sk n w = (Some bs, w') \<longrightarrow> length bs \<le> n)"

definition send_ok :: "'w winapi \<Rightarrow> bool" where
  "send_ok A \<longleftrightarrow> (\<forall>sk bs w n w'. send_rc A sk bs w = (n, w') \<longrightarrow> n = - 1 \<or> 0 \<le> n \<and> nat n \<le> length bs)"

definition isc_ok :: "'w winapi \<Rightarrow> bool" where
  "isc_ok A \<longleftrightarrow> (\<forall>c h f i w r w'. InitializeSecurityContextW A c h f (Some i) w = (r, w') \<longrightarrow>
     (\<forall>e. isc_extra r = Some e \<longrightarrow> e \<le> length i) \<and>
     (isc_ss r = SEC_E_INCOMPLETE_MESSAGE \<longrightarrow> isc_token r = None \<and> isc_alert r = None))"

definition decrypt_ok :: "'w winapi \<Rightarrow> bool" where
  "decrypt_ok A \<longleftrightarrow> (\<forall>b n w ss b' bs w'. DecryptMessage A b n w = ((ss, b', bs), w') \<longrightarrow>
     length b' = length b \<and> (\<forall>t off k. (t, off, k) \<in> set bs \<longrightarrow> off + k \<le> n))"

definition encrypt_ok :: "'w winapi \<Rightarrow> bool" where
  "encrypt_ok A \<longleftrightarrow> (\<forall>b h c t w ss b' c0 c1 c2 w'.
     EncryptMessage A b h c t w = ((ss, b', c0, c1, c2), w') \<longrightarrow>
     length b' = length b \<and> c0 + c1 + c2 \<le> h + c + t)"

definition win_ok :: "'w winapi \<Rightarrow> bool" where
  "win_ok A \<longleftrightarrow> recv_ok A \<and> send_ok A \<and> isc_ok A \<and> decrypt_ok A \<and> encrypt_ok A"

lemma win_recv: "win_ok A \<Longrightarrow> recv_rc A sk n w = (Some bs, w') \<Longrightarrow> length bs \<le> n"
  unfolding win_ok_def recv_ok_def by blast

lemma win_send: "win_ok A \<Longrightarrow> send_rc A sk bs w = (n, w') \<Longrightarrow> n = - 1 \<or> 0 \<le> n \<and> nat n \<le> length bs"
  unfolding win_ok_def send_ok_def by blast

lemma win_isc:
  assumes "win_ok A" and "InitializeSecurityContextW A c h f (Some i) w = (r, w')"
  shows "isc_extra r = Some e \<Longrightarrow> e \<le> length i"
    and "isc_ss r = SEC_E_INCOMPLETE_MESSAGE \<Longrightarrow> isc_token r = None \<and> isc_alert r = None"
  using assms unfolding win_ok_def isc_ok_def by blast+

lemma win_decrypt:
  assumes "win_ok A" and "DecryptMessage A b n w = ((ss, b', bs), w')"
  shows "length b' = length b" and "(t, off, k) \<in> set bs \<Longrightarrow> off + k \<le> n"
  using assms unfolding win_ok_def decrypt_ok_def by blast+

lemma win_encrypt:
  assumes "win_ok A" and "EncryptMessage A b h c t w = ((ss, b', c0, c1, c2), w')"
  shows "length b' = length b" and "c0 + c1 + c2 \<le> h + c + t"
  using assms unfolding win_ok_def encrypt_ok_def by blast+

section \<open>Socket loops\<close>

lemmas wait_ready_induct = wait_ready.raw_induct [rotated, consumes 1, case_names step]
lemmas send_loop_induct = send_loop.raw_induct [rotated, consumes 1, case_names step]

text \<open>A step that moves nothing but ciphertext.\<close>

definition quiet :: "'w sio \<Rightarrow> 'w sio \<Rightarrow> bool" where
  "quiet w w' \<longleftrightarrow> oob w' = oob w \<and> plain_of (trace w') = plain_of (trace w) \<and>
     sealed_of (trace w') = sealed_of (trace w) \<and> (\<forall>r. live r (trace w') = live r (trace w)) \<and>
     verdicts (trace w') = verdicts (trace w)"

lemma quiet_refl [simp]: "quiet w w"
  by (simp add: quiet_def)

lemma quiet_trans: "quiet w w' \<Longrightarrow> quiet w' w'' \<Longrightarrow> quiet w w''"
  by (simp add: quiet_def)

lemma quiet_env [simp]: "quiet w (w'\<lparr>env := e\<rparr>) \<longleftrightarrow> quiet w w'"
  by (simp add: quiet_def)

lemma wait_tv_frame: "wait_tv A s w = (r, w') \<Longrightarrow> trace w' = trace w \<and> oob w' = oob w"
  by (auto simp: wait_tv_def now_ns_def call_def Let_def split: if_splits prod.splits)

lemma wait_ready_frame:
  "wait_ready A s fw w = Some y \<Longrightarrow>
     trace (snd y) = trace w \<and> oob (snd y) = oob w \<and> fst y \<in> {0, - 1, - 2}"
proof (induction rule: wait_ready_induct)
  case (step wr A s fw w y)
  obtain tv w1 where tv: "wait_tv A s w = (tv, w1)" by fastforce
  show ?case
  proof (cases tv)
    case None
    then show ?thesis using step(2) wait_tv_frame [OF tv] unfolding tv by auto
  next
    case (Some tvp)
    obtain rc e where rc: "select_rc A (sock s) fw tvp (env w1) = (rc, e)" by fastforce
    let ?again = "rc < 0 \<and> WSAGetLastError A e = WSAEINTR"
    show ?thesis
    proof (cases ?again)
      case True
      then have "wr A s fw (w1\<lparr>env := e\<rparr>) = Some y"
        using step(2) Some rc unfolding tv by (simp add: call_def)
      from step(1) [OF this] wait_tv_frame [OF tv] show ?thesis by simp
    next
      case False
      then show ?thesis
        using step(2) Some rc wait_tv_frame [OF tv] unfolding tv by (auto simp: call_def split: if_splits)
    qed
  qed
qed

lemma send_loop_spec:
  "send_loop A s buf sent w = Some y \<Longrightarrow> win_ok A \<Longrightarrow> sent \<le> length buf \<Longrightarrow>
    quiet w (snd y) \<and> fst y \<in> {0, - 1, - 2} \<and>
    (\<exists>k. sent_of (trace (snd y)) = sent_of (trace w) @ take k (drop sent buf) \<and>
       (fst y = 0 \<longrightarrow> take k (drop sent buf) = drop sent buf))"
proof (induction rule: send_loop_induct)
  case (step sl A s buf sent w y)
  show ?case
  proof (cases "sent < length buf")
    case False
    then show ?thesis using step by auto
  next
    case True
    then obtain r w1 where r: "(if deadline_ns s \<noteq> 0 then wait_ready A s True w else Some (0, w)) = Some (r, w1)"
      using step(2) by (auto simp: bind_eq_Some_conv)
    have w1: "trace w1 = trace w" "oob w1 = oob w" "r \<in> {0, - 1, - 2}"
      using r wait_ready_frame [of A s True w] by (auto split: if_splits)
    obtain n e where n: "send_rc A (sock s) (drop sent buf) (env w1) = (n, e)" by fastforce
    show ?thesis
    proof (cases "r \<noteq> 0 \<or> n = - 1")
      case stop: True
      then show ?thesis
        using step(2) True r w1 n by (auto simp: call_def quiet_def intro!: exI [of _ 0] split: if_splits)
    next
      case False
      then have n0: "0 \<le> n" "sent + nat n \<le> length buf" using win_send [OF step(3) n] True by auto
      let ?w2 = "emit (Sent (take (nat n) (drop sent buf)))
        (check (0 \<le> n \<and> sent + nat n \<le> length buf) (w1\<lparr>env := e\<rparr>))"
      have "sl A s buf (sent + nat n) ?w2 = Some y"
        using step(2) True r n False by (simp add: call_def)
      from step(1) [OF this step(3) n0(2)] obtain k where k: "quiet ?w2 (snd y)" "fst y \<in> {0, - 1, - 2}"
          "sent_of (trace (snd y)) = sent_of (trace ?w2) @ take k (drop (sent + nat n) buf)"
          "fst y = 0 \<longrightarrow> take k (drop (sent + nat n) buf) = drop (sent + nat n) buf" by blast
      have d: "take (nat n) (drop sent buf) @ take k (drop (sent + nat n) buf) = take (nat n + k) (drop sent buf)"
        using take_add [of "nat n" k "drop sent buf"] by (simp add: add.commute)
      have "fst y = 0 \<Longrightarrow> take (nat n + k) (drop sent buf) = drop sent buf"
        using k(4) append_take_drop_id [of "nat n" "drop sent buf"] unfolding d [symmetric]
        by (simp add: add.commute)
      then show ?thesis
        using k n0 w1 d by (auto simp: quiet_def intro!: exI [of _ "nat n + k"])
    qed
  qed
qed

section \<open>Progress\<close>

text \<open>Windows makes progress with respect to a measure of what it still has to deliver: no call raises
  it, bytes received and interruptions lower it; a send that succeeds sends something, and a record
  or a handshake message that was accepted is consumed.\<close>

definition calm :: "('w \<Rightarrow> nat) \<Rightarrow> ('w \<Rightarrow> 'r \<times> 'w) \<Rightarrow> bool" where
  "calm \<mu> f \<longleftrightarrow> (\<forall>w. \<mu> (snd (f w)) \<le> \<mu> w)"

definition win_live :: "'w winapi \<Rightarrow> ('w \<Rightarrow> nat) \<Rightarrow> bool" where
  "win_live A \<mu> \<longleftrightarrow>
    calm \<mu> (GetTickCount64 A) \<and> (\<forall>sk f tv. calm \<mu> (select_rc A sk f tv)) \<and>
    (\<forall>n. calm \<mu> (malloc_ok A n)) \<and> (\<forall>sk bs. calm \<mu> (send_rc A sk bs)) \<and>
    (\<forall>c h f i. calm \<mu> (InitializeSecurityContextW A c h f i)) \<and>
    (\<forall>b n. calm \<mu> (DecryptMessage A b n)) \<and> (\<forall>b h c t. calm \<mu> (EncryptMessage A b h c t)) \<and>
    (\<forall>sk n w d w'. recv_rc A sk n w = (d, w') \<longrightarrow> \<mu> w' + length (contents d) \<le> \<mu> w) \<and>
    (\<forall>sk f tv w rc w'. select_rc A sk f tv w = (rc, w') \<longrightarrow> rc < 0 \<longrightarrow> WSAGetLastError A w' = WSAEINTR \<longrightarrow>
       \<mu> w' < \<mu> w) \<and>
    (\<forall>sk bs w. bs \<noteq> [] \<longrightarrow> fst (send_rc A sk bs w) \<noteq> 0) \<and>
    (\<forall>c h f i w r w' e. InitializeSecurityContextW A c h f (Some i) w = (r, w') \<longrightarrow>
       isc_ss r = SEC_I_CONTINUE_NEEDED \<longrightarrow> isc_extra r = Some e \<longrightarrow> i \<noteq> [] \<longrightarrow> e < length i) \<and>
    (\<forall>b n w ss b' bs w' off k. DecryptMessage A b n w = ((ss, b', bs), w') \<longrightarrow>
       (SECBUFFER_EXTRA, off, k) \<in> set bs \<longrightarrow> 0 < n \<longrightarrow> k < n)"

lemma calmD: "calm \<mu> f \<Longrightarrow> f w = (r, w') \<Longrightarrow> \<mu> w' \<le> \<mu> w"
  unfolding calm_def by (metis snd_conv)

lemma win_live_calm:
  assumes "win_live A \<mu>"
  shows "calm \<mu> (GetTickCount64 A)" "calm \<mu> (select_rc A sk f tv)" "calm \<mu> (malloc_ok A n)"
    "calm \<mu> (send_rc A sk bs)" "calm \<mu> (InitializeSecurityContextW A c h g i)"
    "calm \<mu> (DecryptMessage A b n)" "calm \<mu> (EncryptMessage A b hl cl tl_len)"
  using assms unfolding win_live_def by simp_all

lemma win_live_recv: "win_live A \<mu> \<Longrightarrow> recv_rc A sk n w = (d, w') \<Longrightarrow> \<mu> w' + length (contents d) \<le> \<mu> w"
  unfolding win_live_def by presburger

lemma win_live_eintr:
  "win_live A \<mu> \<Longrightarrow> select_rc A sk f tv w = (rc, w') \<Longrightarrow> rc < 0 \<Longrightarrow> WSAGetLastError A w' = WSAEINTR \<Longrightarrow> \<mu> w' < \<mu> w"
  unfolding win_live_def by presburger

lemma win_live_send: "win_live A \<mu> \<Longrightarrow> send_rc A sk bs w = (n, w') \<Longrightarrow> bs \<noteq> [] \<Longrightarrow> n \<noteq> 0"
  unfolding win_live_def by (metis fst_conv)

lemma win_live_isc:
  "win_live A \<mu> \<Longrightarrow> InitializeSecurityContextW A c h f (Some i) w = (r, w') \<Longrightarrow>
     isc_ss r = SEC_I_CONTINUE_NEEDED \<Longrightarrow> isc_extra r = Some e \<Longrightarrow> i \<noteq> [] \<Longrightarrow> e < length i"
  unfolding win_live_def by blast

lemma win_live_decrypt:
  "win_live A \<mu> \<Longrightarrow> DecryptMessage A b n w = ((ss, b', bs), w') \<Longrightarrow> (SECBUFFER_EXTRA, off, k) \<in> set bs \<Longrightarrow>
     0 < n \<Longrightarrow> k < n"
  unfolding win_live_def by blast

lemma wait_tv_calm: "win_live A \<mu> \<Longrightarrow> wait_tv A s w = (r, w') \<Longrightarrow> \<mu> (env w') \<le> \<mu> (env w)"
  by (auto simp: wait_tv_def now_ns_def call_def Let_def split: if_splits prod.splits
      dest: calmD [OF win_live_calm(1)])

lemma wait_ready_returns:
  assumes "win_live A \<mu>"
  shows "\<exists>r w'. wait_ready A s fw w = Some (r, w') \<and> \<mu> (env w') \<le> \<mu> (env w)"
proof (induction "\<mu> (env w)" arbitrary: w rule: less_induct)
  case less
  obtain tv w1 where tv: "wait_tv A s w = (tv, w1)" by fastforce
  have le: "\<mu> (env w1) \<le> \<mu> (env w)" by (rule wait_tv_calm [OF assms tv])
  show ?case
  proof (cases tv)
    case None
    then show ?thesis using tv le by (simp add: wait_ready.simps)
  next
    case (Some tvp)
    obtain rc e where rc: "select_rc A (sock s) fw tvp (env w1) = (rc, e)" by fastforce
    have le2: "\<mu> e \<le> \<mu> (env w1)" by (rule calmD [OF win_live_calm(2) [OF assms] rc])
    show ?thesis
    proof (cases "rc < 0 \<and> WSAGetLastError A e = WSAEINTR")
      case True
      then have "\<mu> e < \<mu> (env w)" using win_live_eintr [OF assms rc] le by linarith
      moreover have "wait_ready A s fw w = wait_ready A s fw (w1\<lparr>env := e\<rparr>)"
        using tv Some rc True by (subst wait_ready.simps) (simp add: call_def)
      ultimately show ?thesis
        using less [of "w1\<lparr>env := e\<rparr>"] le le2 by (force simp del: wait_ready.simps)
    next
      case False
      then show ?thesis using tv Some rc le le2
        by (subst wait_ready.simps) (auto simp: call_def)
    qed
  qed
qed

lemma send_loop_returns:
  assumes "win_live A \<mu>" and "win_ok A"
  shows "\<exists>r w'. send_loop A s buf sent w = Some (r, w') \<and> \<mu> (env w') \<le> \<mu> (env w)"
proof (induction "length buf - sent" arbitrary: sent w rule: less_induct)
  case less
  show ?case
  proof (cases "sent < length buf")
    case False
    then show ?thesis by (subst send_loop.simps) simp
  next
    case True
    obtain r w1 where r: "(if deadline_ns s \<noteq> 0 then wait_ready A s True w else Some (0, w)) = Some (r, w1)"
      and le: "\<mu> (env w1) \<le> \<mu> (env w)"
      using wait_ready_returns [OF assms(1), of s True w] by (cases "deadline_ns s = 0") auto
    obtain n e where n: "send_rc A (sock s) (drop sent buf) (env w1) = (n, e)" by fastforce
    have le2: "\<mu> e \<le> \<mu> (env w1)" by (rule calmD [OF win_live_calm(4) [OF assms(1)] n])
    show ?thesis
    proof (cases "r \<noteq> 0 \<or> n = - 1")
      case stop: True
      then show ?thesis using True r n le le2 by (subst send_loop.simps) (auto simp: call_def)
    next
      case False
      then have n0: "0 < n" using win_send [OF assms(2) n] win_live_send [OF assms(1) n] True by auto
      let ?w2 = "emit (Sent (take (nat n) (drop sent buf)))
        (check (0 \<le> n \<and> sent + nat n \<le> length buf) (w1\<lparr>env := e\<rparr>))"
      have "send_loop A s buf sent w = send_loop A s buf (sent + nat n) ?w2"
        using True r n False by (subst send_loop.simps) (simp add: call_def)
      then show ?thesis
        using less [of "sent + nat n" ?w2] n0 True le le2 by force
    qed
  qed
qed

section \<open>The invariant of a connection and what a step keeps\<close>

definition sc_inv :: "https_sc \<Rightarrow> bool" where
  "sc_inv s \<longleftrightarrow> 0 < buf_cap (enc s) \<and> buf_cap (enc s) \<le> SC_ENC_MAX \<and> enc_len s \<le> buf_cap (enc s) \<and>
     dec_off s \<le> dec_len s \<and> dec_len s \<le> buf_cap (dec s) \<and> buf_cap (dec s) \<le> SC_ENC_MAX"

text \<open>The plaintext that was decrypted and not yet handed out.\<close>

definition pending :: "https_sc \<Rightarrow> bytes" where
  "pending s = slice (contents (dec s)) (dec_off s) (dec_len s - dec_off s)"

definition held :: "sc_res \<Rightarrow> https_sc \<Rightarrow> int" where
  "held r s = (case r of
     RState \<Rightarrow> 1
   | RBuf \<Rightarrow> of_bool (enc s \<noteq> None) + of_bool (dec s \<noteq> None) + of_bool (sc_out s \<noteq> None)
   | RHost \<Rightarrow> of_bool (hostw s \<noteq> None)
   | RCtx \<Rightarrow> of_bool (have_ctx s)
   | RCred \<Rightarrow> of_bool (have_cred s)
   | _ \<Rightarrow> 0)"

lemma held_updates [simp]:
  "held r (s\<lparr>enc_len := n\<rparr>) = held r s" "held r (s\<lparr>dec_len := n\<rparr>) = held r s"
  "held r (s\<lparr>dec_off := n\<rparr>) = held r s" "held r (s\<lparr>deadline_ns := t\<rparr>) = held r s"
  "held r (s\<lparr>eof := b\<rparr>) = held r s" "held r (s\<lparr>sizes := z\<rparr>) = held r s"
  by (simp_all add: held_def cong: sc_res.case_cong)

lemma held_bufs:
  "held r (s\<lparr>enc := b\<rparr>) = held r s + (if r = RBuf then of_bool (b \<noteq> None) - of_bool (enc s \<noteq> None) else 0)"
  "held r (s\<lparr>dec := b\<rparr>) = held r s + (if r = RBuf then of_bool (b \<noteq> None) - of_bool (dec s \<noteq> None) else 0)"
  "held r (s\<lparr>sc_out := b\<rparr>) = held r s + (if r = RBuf then of_bool (b \<noteq> None) - of_bool (sc_out s \<noteq> None) else 0)"
  "held r (s\<lparr>have_ctx := c\<rparr>) = held r s + (if r = RCtx then of_bool c - of_bool (have_ctx s) else 0)"
  "held r (s\<lparr>have_cred := c\<rparr>) = held r s + (if r = RCred then of_bool c - of_bool (have_cred s) else 0)"
  "held r (s\<lparr>hostw := h\<rparr>) = held r s + (if r = RHost then of_bool (h \<noteq> None) - of_bool (hostw s \<noteq> None) else 0)"
  by (cases r; simp add: held_def)+

definition balance :: "sc_res \<Rightarrow> https_sc \<Rightarrow> 'w sio \<Rightarrow> int" where
  "balance r s w = live r (trace w) - held r s"

definition cfg :: "https_sc \<Rightarrow> nat \<times> nat \<times> bool \<times> bool \<times> nat \<times> sc_sizes \<times> nat list option" where
  "cfg s = (sock s, castore s, ca_only s, skip_verify s, clientcert s, sizes s, hostw s)"

definition kept :: "https_sc \<Rightarrow> 'w sio \<Rightarrow> https_sc \<Rightarrow> 'w sio \<Rightarrow> bool" where
  "kept s w s' w' \<longleftrightarrow> sc_inv s' \<and> oob w' = oob w \<and> cfg s' = cfg s \<and> (\<forall>r. balance r s' w' = balance r s w) \<and>
     sealed_of (trace w') = sealed_of (trace w) \<and> have_cred s' = have_cred s \<and> sc_out s' = sc_out s \<and>
     verdicts (trace w') = verdicts (trace w)"

text \<open>A step that also leaves the plaintext alone.\<close>

definition still :: "https_sc \<Rightarrow> 'w sio \<Rightarrow> https_sc \<Rightarrow> 'w sio \<Rightarrow> bool" where
  "still s w s' w' \<longleftrightarrow> kept s w s' w' \<and> dec s' = dec s \<and> dec_len s' = dec_len s \<and> dec_off s' = dec_off s \<and>
     plain_of (trace w') = plain_of (trace w)"

lemma kept_refl: "sc_inv s \<Longrightarrow> kept s w s w"
  by (simp add: kept_def)

lemma kept_trans: "kept s w s' w' \<Longrightarrow> kept s' w' s'' w'' \<Longrightarrow> kept s w s'' w''"
  by (simp add: kept_def)

lemma still_refl: "sc_inv s \<Longrightarrow> still s w s w"
  by (simp add: still_def kept_refl)

lemma still_trans: "still s w s' w' \<Longrightarrow> still s' w' s'' w'' \<Longrightarrow> still s w s'' w''"
  unfolding still_def using kept_trans by fastforce

lemma still_kept: "still s w s' w' \<Longrightarrow> kept s w s' w'"
  by (simp add: still_def)

lemma kept_inv: "kept s w s' w' \<Longrightarrow> sc_inv s'"
  by (simp add: kept_def)

lemma still_inv: "still s w s' w' \<Longrightarrow> sc_inv s'"
  by (simp add: still_def kept_def)

lemma still_pending: "still s w s' w' \<Longrightarrow> pending s' = pending s"
  by (simp add: still_def pending_def)

lemma quiet_still: "sc_inv s \<Longrightarrow> quiet w w' \<Longrightarrow> still s w s w'"
  by (simp add: still_def kept_def quiet_def balance_def)

lemma still_eof: "sc_inv s \<Longrightarrow> quiet w w' \<Longrightarrow> still s w (s\<lparr>eof := True\<rparr>) w'"
  by (simp add: still_def kept_def quiet_def balance_def sc_inv_def cfg_def)

lemma sock_recv_spec:
  assumes inv: "sc_inv s" and ok: "win_ok A" and room: "0 < len"
    and r: "sock_recv A s len w = Some ((n, bs), s', w')"
  shows "still s w s' w'" and "s' = s \<or> s' = s\<lparr>eof := True\<rparr>" and "n = 0 \<Longrightarrow> eof s'" and "0 < n \<Longrightarrow> s' = s"
    and "length bs \<le> len" and "0 < n \<Longrightarrow> n = int (length bs)" and "n \<le> 0 \<Longrightarrow> bs = []"
proof -
  obtain k w1 where k: "(if deadline_ns s \<noteq> 0 then wait_ready A s False w else Some (0, w)) = Some (k, w1)"
    using r by (auto simp: sock_recv_def bind_eq_Some_conv)
  have w1: "trace w1 = trace w" "oob w1 = oob w" "k \<in> {0, - 1, - 2}"
    using k wait_ready_frame [of A s False w] by (auto split: if_splits)
  then have q: "quiet w w1" by (simp add: quiet_def)
  obtain d e where d: "recv_rc A (sock s) len (env w1) = (d, e)" by fastforce
  have step: "sock_recv A s len w = (if k \<noteq> 0 then Some ((k, []), s, w1)
      else case d of None \<Rightarrow> Some ((- 2, []), s, check (0 < len) w1\<lparr>env := e\<rparr>)
      | Some b \<Rightarrow> if b = [] then Some ((0, []), s\<lparr>eof := True\<rparr>, check (0 < len) w1\<lparr>env := e\<rparr>)
          else Some ((int (length b), b), s, emit (Recvd b) (check (0 < len) w1\<lparr>env := e\<rparr>)))"
    using k d by (simp add: sock_recv_def call_def Let_def split: option.split)
  have q2: "quiet w (check (0 < len) w1\<lparr>env := e\<rparr>)" using q room by (simp add: quiet_def)
  have q3: "quiet w (emit (Recvd b) (check (0 < len) w1\<lparr>env := e\<rparr>))" for b using q room by (simp add: quiet_def)
  show "still s w s' w'"
    using r quiet_still [OF inv q] quiet_still [OF inv q2] still_eof [OF inv q2] quiet_still [OF inv q3]
    unfolding step
    by (auto split: if_splits option.splits)
  show "s' = s \<or> s' = s\<lparr>eof := True\<rparr>" "n = 0 \<Longrightarrow> eof s'" "0 < n \<Longrightarrow> s' = s" "length bs \<le> len"
    "0 < n \<Longrightarrow> n = int (length bs)" "n \<le> 0 \<Longrightarrow> bs = []"
    using r w1(3) d win_recv [OF ok] unfolding step by (auto split: if_splits option.splits)
qed

end
