(* ===== verification/Schannel_Proto.thy ===== *)
theory Schannel_Proto
  imports Schannel_IO
begin

text \<open>
  The protocol operations of the Windows backend: every step of the handshake, of a read and of a
  write keeps the connection's invariant, releases what it acquired and stays inside the buffers.
\<close>

section \<open>The ciphertext buffer\<close>

lemma sc_inv_enc: "sc_inv s \<Longrightarrow> enc s \<noteq> None"
  by (cases "enc s") (auto simp: sc_inv_def)

lemma enc_room_spec:
  assumes inv: "sc_inv s" and r: "enc_room A s w = (rc, s', w')"
  shows "still s w s' w'" and "rc = 0 \<Longrightarrow> enc_len s' < buf_cap (enc s')" and "rc \<in> {0, - 1}"
    and "enc_len s' = enc_len s" and "take (enc_len s) (contents (enc s')) = take (enc_len s) (contents (enc s))"
    and "eof s' = eof s" "have_ctx s' = have_ctx s" "deadline_ns s' = deadline_ns s"
proof -
  have e: "enc s \<noteq> None" by (rule sc_inv_enc [OF inv])
  have "still s w s' w' \<and> (rc = 0 \<longrightarrow> enc_len s' < buf_cap (enc s')) \<and> rc \<in> {0, - 1} \<and> enc_len s' = enc_len s \<and>
      take (enc_len s) (contents (enc s')) = take (enc_len s) (contents (enc s)) \<and> eof s' = eof s \<and>
      have_ctx s' = have_ctx s \<and> deadline_ns s' = deadline_ns s"
  proof (cases "buf_cap (enc s) \<le> enc_len s")
    case False
    then show ?thesis using r still_refl [OF inv, of w] by (simp add: enc_room_def)
  next
    case True
    define w1 where "w1 = check (buf_cap (enc s) * 2 \<le> 2147483647) w"
    obtain b w2 where g: "grow A (enc s) (buf_cap (enc s) * 2) (enc_len s) SC_ENC_MAX w1 = ((rc, b), w2)"
      and s': "s' = s\<lparr>enc := b\<rparr>" "w' = w2"
      using r True by (auto simp: enc_room_def w1_def split: prod.splits)
    have cap: "enc_len s \<le> buf_cap (enc s)" "buf_cap (enc s) \<le> SC_ENC_MAX" using inv by (auto simp: sc_inv_def)
    note gs = grow_spec [OF cap order_refl g]
    have w1: "oob w1 = oob w" "trace w1 = trace w" using cap(2) by (auto simp: w1_def SC_ENC_MAX_def)
    have b: "b \<noteq> None" using gs(4) inv by (cases b) (auto simp: sc_inv_def)
    have live: "live r (trace w2) = live r (trace w)" for r using gs(11) [of r] b e w1(2) by simp
    have room: "rc = 0 \<Longrightarrow> enc_len s < buf_cap b" using gs(6) True inv by (auto simp: sc_inv_def)
    have "still s w s' w'"
      using inv gs(1,4,5,8,10) w1 b e live cap(1) grow_verdicts [OF g] unfolding s'
      by (simp add: still_def kept_def balance_def sc_inv_def cfg_def held_bufs)
    then show ?thesis using gs(2,7) room unfolding s' by auto
  qed
  then show "still s w s' w'" and "rc = 0 \<Longrightarrow> enc_len s' < buf_cap (enc s')" and "rc \<in> {0, - 1}"
    and "enc_len s' = enc_len s" and "take (enc_len s) (contents (enc s')) = take (enc_len s) (contents (enc s))"
    and "eof s' = eof s" "have_ctx s' = have_ctx s" "deadline_ns s' = deadline_ns s"
    by blast+
qed

lemma enc_recv_spec:
  assumes inv: "sc_inv s" and ok: "win_ok A" and room: "enc_len s < buf_cap (enc s)"
    and r: "enc_recv A s w = Some (n, s', w')"
  shows "still s w s' w'" and "n = 0 \<Longrightarrow> eof s'" and "have_ctx s' = have_ctx s" and "0 < n \<Longrightarrow> 0 < enc_len s'"
    and "0 < n \<Longrightarrow> eof s' = eof s"
proof -
  obtain bs s1 w1 where sr: "sock_recv A s (buf_cap (enc s) - enc_len s) w = Some ((n, bs), s1, w1)"
    and s': "(if 0 < n then (s1\<lparr>enc := Some (put (contents (enc s1)) (enc_len s1) bs), enc_len := enc_len s1 + length bs\<rparr>,
        check (fits (contents (enc s1)) (enc_len s1) (length bs)) w1) else (s1, w1)) = (s', w')"
    using r by (auto simp: enc_recv_def bind_eq_Some_conv split: if_splits)
  have room': "0 < buf_cap (enc s) - enc_len s" using room by simp
  note sp = sock_recv_spec [OF inv ok room' sr]
  have "still s w s' w' \<and> (n = 0 \<longrightarrow> eof s') \<and> have_ctx s' = have_ctx s \<and> (0 < n \<longrightarrow> 0 < enc_len s' \<and> eof s' = eof s)"
  proof (cases "0 < n")
    case False
    then show ?thesis using sp s' by auto
  next
    case True
    have f: "fits (contents (enc s)) (enc_len s) (length bs)"
      using sp(5) room by (simp add: fits_def buf_cap_contents)
    have e: "enc s \<noteq> None" by (rule sc_inv_enc [OF inv])
    have len: "length (put (contents (enc s)) (enc_len s) bs) = buf_cap (enc s)"
      using f by (simp add: buf_cap_contents)
    have "still s w1 (s\<lparr>enc := Some (put (contents (enc s)) (enc_len s) bs), enc_len := enc_len s + length bs\<rparr>)
        (check (fits (contents (enc s)) (enc_len s) (length bs)) w1)"
      using inv f e len
      by (auto simp: still_def kept_def balance_def sc_inv_def cfg_def held_bufs fits_def buf_cap_contents)
    then show ?thesis
      using sp True s' still_trans [OF sp(1)] by auto
  qed
  then show "still s w s' w'" and "n = 0 \<Longrightarrow> eof s'" and "have_ctx s' = have_ctx s" and "0 < n \<Longrightarrow> 0 < enc_len s'"
    and "0 < n \<Longrightarrow> eof s' = eof s"
    by blast+
qed

lemma enc_keep_spec:
  assumes inv: "sc_inv s" and e: "\<And>k. extra = Some k \<Longrightarrow> k \<le> enc_len s" and r: "enc_keep s extra w = (s', w')"
  shows "still s w s' w'" and "have_ctx s' = have_ctx s" and "eof s' = eof s"
    and "enc_len s' = (case extra of None \<Rightarrow> 0 | Some k \<Rightarrow> k)"
proof -
  have n: "enc s \<noteq> None" by (rule sc_inv_enc [OF inv])
  have "still s w s' w' \<and> have_ctx s' = have_ctx s \<and> eof s' = eof s \<and>
      enc_len s' = (case extra of None \<Rightarrow> 0 | Some k \<Rightarrow> k)"
  proof (cases "\<exists>k. extra = Some k \<and> 0 < k")
    case False
    then show ?thesis
      using r inv by (auto simp: enc_keep_def still_def kept_def balance_def sc_inv_def cfg_def split: option.splits)
  next
    case True
    then obtain k where k: "extra = Some k" "0 < k" by blast
    have le: "k \<le> enc_len s" "enc_len s \<le> length (contents (enc s))"
      using e [OF k(1)] inv by (auto simp: sc_inv_def buf_cap_contents)
    then have f: "fits (contents (enc s)) (enc_len s - k) k" by (simp add: fits_def)
    have "length (put (contents (enc s)) 0 (slice (contents (enc s)) (enc_len s - k) k)) = buf_cap (enc s)"
      using le f by (simp add: fits_def buf_cap_contents)
    then show ?thesis
      using r inv k le n
      by (auto simp: enc_keep_def still_def kept_def balance_def sc_inv_def cfg_def held_bufs buf_cap_contents)
  qed
  then show "still s w s' w'" and "have_ctx s' = have_ctx s" and "eof s' = eof s"
    and "enc_len s' = (case extra of None \<Rightarrow> 0 | Some k \<Rightarrow> k)" by blast+
qed

section \<open>Handshake\<close>

lemma token_live:
  "live r (trace (release_token t w)) = live r (trace w) - (if r = RToken \<and> t \<noteq> None then 1 else 0)"
  "live r (trace (acquire_token t w)) = live r (trace w) + (if r = RToken \<and> t \<noteq> None then 1 else 0)"
  "oob (release_token t w) = oob w" "oob (acquire_token t w) = oob w"
  "plain_of (trace (release_token t w)) = plain_of (trace w)" "plain_of (trace (acquire_token t w)) = plain_of (trace w)"
  "sealed_of (trace (release_token t w)) = sealed_of (trace w)" "sealed_of (trace (acquire_token t w)) = sealed_of (trace w)"
  "verdicts (trace (release_token t w)) = verdicts (trace w)" "verdicts (trace (acquire_token t w)) = verdicts (trace w)"
  by (auto simp: release_token_def acquire_token_def)

lemma sock_send_all_quiet: "win_ok A \<Longrightarrow> sock_send_all A s buf w = Some (rc, w') \<Longrightarrow> quiet w w' \<and> rc \<in> {0, - 1, - 2}"
  using send_loop_spec [of A s buf 0 w "(rc, w')"] by (simp add: sock_send_all_def)

lemma sock_class_neq: "sock_class rc \<noteq> HTTPS_SC_OK" "sock_class rc \<noteq> HTTPS_SC_ERR_ALLOC"
  by (simp_all add: sock_class_def sc_codes)

lemma hs_first_spec:
  assumes inv: "sc_inv s" and ok: "win_ok A" and ctx: "\<not> have_ctx s"
    and r: "hs_first A s status w = Some ((early, status'), s', w')"
  shows "still s w s' w'" and "early = None \<Longrightarrow> have_ctx s'" and "early \<noteq> Some HTTPS_SC_OK"
    and "early = None \<Longrightarrow> eof s' = eof s"
proof -
  obtain q e where q: "InitializeSecurityContextW A False (hostw s) False None (env w) = (q, e)" by fastforce
  define w1 where "w1 = acquire_token (isc_token q) (w\<lparr>env := e\<rparr>)"
  let ?s1 = "s\<lparr>have_ctx := True\<rparr>"
  have "still s w s' w' \<and> (early = None \<longrightarrow> have_ctx s') \<and> early \<noteq> Some HTTPS_SC_OK \<and> (early = None \<longrightarrow> eof s' = eof s)"
  proof (cases "isc_ss q \<noteq> SEC_I_CONTINUE_NEEDED")
    case True
    then have "s' = s" "w' = release_token (isc_token q) w1" "early = Some HTTPS_SC_ERR_HANDSHAKE"
      using r q by (auto simp: hs_first_def call_def w1_def)
    then show ?thesis using inv
      by (auto simp: still_def kept_def balance_def token_live w1_def sc_codes)
  next
    case False
    obtain rc w2 where w2: "(if contents (isc_token q) \<noteq> [] then sock_send_all A ?s1 (contents (isc_token q)) (emit (Acq RCtx) w1)
        else Some (0, emit (Acq RCtx) w1)) = Some (rc, w2)" "s' = ?s1" "w' = release_token (isc_token q) w2"
        "early = (if rc \<noteq> 0 then Some (sock_class rc) else None)"
      using r q False by (auto simp: hs_first_def call_def w1_def Let_def bind_eq_Some_conv split: if_splits)
    have "quiet (emit (Acq RCtx) w1) w2"
      using w2(1) sock_send_all_quiet [OF ok] by (fastforce split: if_splits)
    then show ?thesis
      using inv ctx w2(2-4) sock_class_neq(1) [of rc]
      by (auto simp: still_def kept_def balance_def token_live w1_def quiet_def sc_inv_def cfg_def held_bufs)
  qed
  then show "still s w s' w'" and "early = None \<Longrightarrow> have_ctx s'" and "early \<noteq> Some HTTPS_SC_OK"
    and "early = None \<Longrightarrow> eof s' = eof s" by blast+
qed

lemma hs_read_spec:
  assumes inv: "sc_inv s" and ok: "win_ok A" and r: "hs_read A s status w = Some ((early, status'), s', w')"
  shows "still s w s' w'" and "have_ctx s' = have_ctx s" and "early \<noteq> Some HTTPS_SC_OK"
    and "early = None \<Longrightarrow> 0 < enc_len s'"
proof -
  obtain rc s1 w1 where room: "enc_room A s w = (rc, s1, w1)" by (cases "enc_room A s w") auto
  note er = enc_room_spec [OF inv room]
  have "still s w s' w' \<and> have_ctx s' = have_ctx s \<and> early \<noteq> Some HTTPS_SC_OK \<and> (early = None \<longrightarrow> 0 < enc_len s')"
  proof (cases "rc = 0")
    case False
    then show ?thesis using r room er by (auto simp: hs_read_def sc_codes)
  next
    case True
    then obtain n where n: "enc_recv A s1 w1 = Some (n, s', w')"
        "early = (if n < 0 then Some (sock_class n) else if n = 0 then Some HTTPS_SC_ERR_HANDSHAKE else None)"
      using r room by (auto simp: hs_read_def bind_eq_Some_conv split: if_splits)
    note rc = enc_recv_spec [OF still_inv [OF er(1)] ok er(2) [OF True] n(1)]
    show ?thesis
      using rc er n(2) still_trans [OF er(1) rc(1)] sock_class_neq(1) [of n] by (auto simp: sc_codes split: if_splits)
  qed
  then show "still s w s' w'" and "have_ctx s' = have_ctx s" and "early \<noteq> Some HTTPS_SC_OK"
    and "early = None \<Longrightarrow> 0 < enc_len s'" by blast+
qed

lemmas hs_loop_induct = hs_loop.raw_induct [rotated, consumes 1, case_names step]

text \<open>One turn of the handshake loop after the read, for any continuation \<open>k\<close> of the loop.\<close>

definition hs_turn ::
  "'w winapi \<Rightarrow> (https_sc \<Rightarrow> int \<Rightarrow> bool \<Rightarrow> bool \<Rightarrow> 'w sio \<Rightarrow> ((int \<times> int) \<times> https_sc \<times> 'w sio) option) \<Rightarrow>
     https_sc \<Rightarrow> int \<Rightarrow> bool \<Rightarrow> 'w sio \<Rightarrow> ((int \<times> int) \<times> https_sc \<times> 'w sio) option" where
  "hs_turn A k s status retried w =
      (let (r, w) = call (InitializeSecurityContextW A True None retried
                      (Some (take (enc_len s) (contents (enc s))))) w;
           w = acquire_token (isc_alert r) (acquire_token (isc_token r) w);
           ss = isc_ss r
       in if ss = SEC_E_INCOMPLETE_MESSAGE then
            let (rc, s, w) = enc_room A s w
            in if rc \<noteq> 0 then Some ((HTTPS_SC_ERR_ALLOC, status), s, w) else k s status True retried w
          else do {
            (rc, w) \<leftarrow> (if contents (isc_token r) \<noteq> [] then sock_send_all A s (contents (isc_token r)) w
                        else Some (0, w));
            let w = release_token (isc_alert r) (release_token (isc_token r) w);
            if rc \<noteq> 0 \<and> (ss = SEC_E_OK \<or> ss = SEC_I_CONTINUE_NEEDED)
            then Some ((sock_class rc, status), s, w)
            else if ss = SEC_I_INCOMPLETE_CREDENTIALS \<and> \<not> retried then k s status False True w
            else
              let (s, w) = enc_keep s (isc_extra r) w
              in if ss = SEC_E_OK then Some ((HTTPS_SC_OK, status), s, w)
                 else if ss = SEC_I_CONTINUE_NEEDED then k s status (enc_len s = 0) retried w
                 else Some ((HTTPS_SC_ERR_HANDSHAKE, ss), s, w)
          })"

text \<open>A turn either returns or continues, in a state it has only stepped to.\<close>

lemma hs_turn_spec:
  assumes inv: "sc_inv s" and ok: "win_ok A" and r: "hs_turn A k s status retried w = Some y"
  obtains rc st s' w' where "y = ((rc, st), s', w')" and "still s w s' w'" and "have_ctx s' = have_ctx s"
    | s' w' nr rt where "k s' status nr rt w' = Some y" and "still s w s' w'" and "have_ctx s' = have_ctx s"
proof -
  obtain q e where q: "InitializeSecurityContextW A True None retried (Some (take (enc_len s) (contents (enc s)))) (env w)
      = (q, e)" by fastforce
  define w1 where "w1 = acquire_token (isc_alert q) (acquire_token (isc_token q) (w\<lparr>env := e\<rparr>))"
  show thesis
  proof (cases "isc_ss q = SEC_E_INCOMPLETE_MESSAGE")
    case True
    then have "quiet w w1" using win_isc(2) [OF ok q] by (simp add: w1_def quiet_def token_live acquire_token_def)
    then have w1: "still s w s w1" by (rule quiet_still [OF inv])
    obtain rc s2 w2 where room: "enc_room A s w1 = (rc, s2, w2)" by (cases "enc_room A s w1") auto
    note er = enc_room_spec [OF inv room]
    note st = still_trans [OF w1 er(1)]
    have r': "(if rc \<noteq> 0 then Some ((HTTPS_SC_ERR_ALLOC, status), s2, w2) else k s2 status True retried w2) = Some y"
      using r True q room [unfolded w1_def] by (simp add: hs_turn_def call_def split del: if_split)
    show thesis
    proof (cases "rc = 0")
      case True
      then show thesis using r' by (intro that(2) [OF _ st er(7)]) simp
    next
      case False
      then show thesis using r' by (intro that(1) [OF _ st er(7), of HTTPS_SC_ERR_ALLOC status]) simp
    qed
  next
    case False
    obtain rc w2 where w2: "(if contents (isc_token q) \<noteq> [] then sock_send_all A s (contents (isc_token q)) w1
        else Some (0, w1)) = Some (rc, w2)"
      using r q False by (auto simp: hs_turn_def call_def w1_def Let_def bind_eq_Some_conv split: if_splits)
    define w3 where "w3 = release_token (isc_alert q) (release_token (isc_token q) w2)"
    have "quiet w1 w2" using w2 sock_send_all_quiet [OF ok] by (fastforce split: if_splits)
    then have "quiet w w3" by (auto simp: quiet_def w1_def w3_def token_live)
    then have w3: "still s w s w3" by (rule quiet_still [OF inv])
    obtain s4 w4 where k4: "enc_keep s (isc_extra q) w3 = (s4, w4)" by fastforce
    have ex: "e \<le> enc_len s" if "isc_extra q = Some e" for e
      using win_isc(1) [OF ok q that] by simp
    note ks = enc_keep_spec [OF inv ex k4]
    have r': "(if rc \<noteq> 0 \<and> (isc_ss q = SEC_E_OK \<or> isc_ss q = SEC_I_CONTINUE_NEEDED)
        then Some ((sock_class rc, status), s, w3)
        else if isc_ss q = SEC_I_INCOMPLETE_CREDENTIALS \<and> \<not> retried then k s status False True w3
        else if isc_ss q = SEC_E_OK then Some ((HTTPS_SC_OK, status), s4, w4)
        else if isc_ss q = SEC_I_CONTINUE_NEEDED then k s4 status (enc_len s4 = 0) retried w4
        else Some ((HTTPS_SC_ERR_HANDSHAKE, isc_ss q), s4, w4)) = Some y"
      using r q False w2 k4 [unfolded w3_def] by (simp add: hs_turn_def call_def w1_def [symmetric] w3_def Let_def cong: if_cong split del: if_split)
    note st = still_trans [OF w3 ks(1)]
    consider (send) "rc \<noteq> 0 \<and> (isc_ss q = SEC_E_OK \<or> isc_ss q = SEC_I_CONTINUE_NEEDED)"
      | (creds) "\<not> (rc \<noteq> 0 \<and> (isc_ss q = SEC_E_OK \<or> isc_ss q = SEC_I_CONTINUE_NEEDED))"
          "isc_ss q = SEC_I_INCOMPLETE_CREDENTIALS \<and> \<not> retried"
      | (more) "k s4 status (enc_len s4 = 0) retried w4 = Some y"
      | (fin) rc st where "y = ((rc, st), s4, w4)"
      using r' by (auto split: if_splits)
    then show thesis
    proof cases
      case send
      then show thesis using r' by (intro that(1) [OF _ w3 refl, of "sock_class rc" status]) simp
    next
      case creds
      then have "k s status False True w3 = Some y" using r' by (simp only: if_False if_True refl simp_thms)
      then show thesis by (rule that(2) [OF _ w3 refl])
    next
      case more
      then show thesis by (rule that(2) [OF _ st ks(2)])
    next
      case fin
      then show thesis by (rule that(1) [OF _ st ks(2)])
    qed
  qed
qed

lemma hs_loop_turn:
  "hs_loop A s status need_read retried w = do {
     ((early, status), s, w) \<leftarrow> (if need_read then hs_read A s status w else Some ((None, status), s, w));
     case early of Some rc \<Rightarrow> Some ((rc, status), s, w)
     | None \<Rightarrow> hs_turn A (hs_loop A) s status retried w
   }"
  unfolding hs_turn_def by (subst hs_loop.simps) (rule refl)

lemma hs_loop_spec:
  "hs_loop A s status nr rt w = Some y \<Longrightarrow> win_ok A \<Longrightarrow> sc_inv s \<Longrightarrow>
     still s w (fst (snd y)) (snd (snd y)) \<and> have_ctx (fst (snd y)) = have_ctx s"
proof (induction rule: hs_loop_induct)
  case (step hl A s status nr rt w y)
  have body: "do {
     ((early, status), s, w) \<leftarrow> (if nr then hs_read A s status w else Some ((None, status), s, w));
     case early of Some rc \<Rightarrow> Some ((rc, status), s, w)
     | None \<Rightarrow> hs_turn A (hl A) s status rt w
   } = Some y"
    using step(2) unfolding hs_turn_def .
  obtain early st1 s1 w1 where rd: "(if nr then hs_read A s status w else Some ((None, status), s, w)) =
      Some ((early, st1), s1, w1)"
    using body by (auto simp: bind_eq_Some_conv)
  have s1: "still s w s1 w1" "have_ctx s1 = have_ctx s"
    using rd hs_read_spec [OF step(4,3), of status w] still_refl [OF step(4)] by (auto split: if_splits)
  show ?case
  proof (cases early)
    case (Some rc)
    then show ?thesis using body rd s1 by auto
  next
    case None
    then have t: "hs_turn A (hl A) s1 st1 rt w1 = Some y" using body rd by simp
    show ?thesis
    proof (rule hs_turn_spec [OF still_inv [OF s1(1)] step(3) t], goal_cases)
      case (1 rc st s' w')
      then show ?thesis using s1 still_trans by fastforce
    next
      case (2 s' w' nr' rt')
      from step(1) [OF 2(1) step(3) still_inv [OF 2(2)]] 2(3) s1 still_trans [OF still_trans [OF s1(1) 2(2)]]
      show ?thesis by simp
    qed
  qed
qed

lemma do_handshake_spec:
  assumes "win_ok A" and "sc_inv s" and r: "do_handshake A s status w = Some ((rc, status'), s', w')"
  shows "still s w s' w'" and "rc = HTTPS_SC_OK \<or> have_ctx s \<Longrightarrow> have_ctx s'"
proof -
  have "still s w s' w' \<and> (rc = HTTPS_SC_OK \<or> have_ctx s \<longrightarrow> have_ctx s')"
  proof (cases "have_ctx s")
    case True
    then show ?thesis using r hs_loop_spec [OF _ assms(1,2)] by (auto simp: do_handshake_def)
  next
    case False
    then obtain early st1 s1 w1 where f: "hs_first A s status w = Some ((early, st1), s1, w1)"
      using r by (auto simp: do_handshake_def bind_eq_Some_conv)
    note fs = hs_first_spec [OF assms(2,1) False f]
    show ?thesis
    proof (cases early)
      case None
      then have "hs_loop A s1 st1 True False w1 = Some ((rc, status'), s', w')"
        using r False f by (simp add: do_handshake_def)
      from hs_loop_spec [OF this assms(1) still_inv [OF fs(1)]] fs(2) [OF None] still_trans [OF fs(1)]
      show ?thesis by auto
    next
      case (Some c)
      then show ?thesis using r False f fs by (auto simp: do_handshake_def)
    qed
  qed
  then show "still s w s' w'" and "rc = HTTPS_SC_OK \<or> have_ctx s \<Longrightarrow> have_ctx s'" by blast+
qed

end
