(* ===== verification/Schannel_Rec.thy ===== *)
theory Schannel_Rec
  imports Schannel_Proto
begin

text \<open>
  The record layer of the Windows backend. Reading is a stream: what the records decrypt to is handed
  out once, in order, through the caller's buffer or the stash. Writing seals the caller's bytes in
  order, in pieces that Schannel accepts.
\<close>

section \<open>The stash\<close>

lemma slice_drop: "slice b off n = take n (drop off b)"
  by (simp add: slice_def)

lemma slice_front: "slice b 0 n = take n b"
  by (simp add: slice_def)

lemma length_pending: "sc_inv s \<Longrightarrow> length (pending s) = dec_len s - dec_off s"
  by (auto simp: pending_def slice_def sc_inv_def buf_cap_contents)

lemma pending_empty: "sc_inv s \<Longrightarrow> pending s = [] \<longleftrightarrow> dec_off s = dec_len s"
  using length_pending [of s] by (auto simp: sc_inv_def)

lemma pending_less: "sc_inv s \<Longrightarrow> dec_off s < dec_len s \<longleftrightarrow> pending s \<noteq> []"
  using length_pending [of s] by (cases "pending s") auto

text \<open>Everything of a connection but its stash.\<close>

definition rest_same :: "https_sc \<Rightarrow> https_sc \<Rightarrow> bool" where
  "rest_same s s' \<longleftrightarrow> enc s' = enc s \<and> enc_len s' = enc_len s \<and> eof s' = eof s \<and> have_ctx s' = have_ctx s \<and>
     deadline_ns s' = deadline_ns s"

definition compact :: "https_sc \<Rightarrow> 'w sio \<Rightarrow> https_sc \<times> 'w sio" where
  "compact s w = (if 0 < dec_off s
     then (s\<lparr>dec := Some (put (contents (dec s)) 0 (slice (contents (dec s)) (dec_off s) (dec_len s - dec_off s))),
             dec_len := dec_len s - dec_off s, dec_off := 0\<rparr>,
           check (dec_off s \<le> dec_len s \<and> dec_len s \<le> buf_cap (dec s)) w)
     else (s, w))"

lemma compact_spec:
  assumes inv: "sc_inv s" and c: "compact s w = (s', w')"
  shows "kept s w s' w'" and "pending s' = pending s" and "dec_off s' = 0" and "rest_same s s'"
    and "plain_of (trace w') = plain_of (trace w)"
proof -
  have "kept s w s' w' \<and> pending s' = pending s \<and> dec_off s' = 0 \<and> rest_same s s' \<and>
      plain_of (trace w') = plain_of (trace w)"
  proof (cases "0 < dec_off s")
    case False
    then show ?thesis using c inv by (auto simp: compact_def kept_refl rest_same_def)
  next
    case True
    define d where "d = slice (contents (dec s)) (dec_off s) (dec_len s - dec_off s)"
    have d: "length d = dec_len s - dec_off s" and cap: "dec_len s \<le> length (contents (dec s))"
      using inv by (auto simp: d_def slice_def sc_inv_def buf_cap_contents)
    have some: "dec s \<noteq> None"
      using True inv by (cases "dec s") (auto simp: sc_inv_def)
    have len: "length (put (contents (dec s)) 0 d) = length (contents (dec s))"
      using d cap by (simp add: fits_def)
    have s': "s' = s\<lparr>dec := Some (put (contents (dec s)) 0 d), dec_len := dec_len s - dec_off s, dec_off := 0\<rparr>"
      and w': "w' = check (dec_off s \<le> dec_len s \<and> dec_len s \<le> buf_cap (dec s)) w"
      using c True by (auto simp: compact_def d_def)
    have "balance r s' w' = balance r s w" for r
      using some by (simp add: balance_def s' w' held_bufs)
    then have "kept s w s' w'"
      using inv len some unfolding kept_def
      by (auto simp: s' w' sc_inv_def cfg_def buf_cap_contents)
    moreover have "pending s' = pending s"
      using d by (simp add: s' pending_def slice_front put_def d_def [symmetric])
    ultimately show ?thesis by (simp add: s' w' rest_same_def)
  qed
  then show "kept s w s' w'" and "pending s' = pending s" and "dec_off s' = 0" and "rest_same s s'"
    and "plain_of (trace w') = plain_of (trace w)" by blast+
qed

lemma stash_plaintext_compact:
  "stash_plaintext A s data w =
    (if data = [] then (0, s, w)
     else
       let (s, w) = compact s w;
           ((rc, b), w) = grow A (dec s) (dec_len s + length data) (dec_len s) SC_ENC_MAX w;
           s = s\<lparr>dec := b\<rparr>
       in if rc \<noteq> 0 then (- 1, s, w)
          else (0, s\<lparr>dec := Some (put (contents b) (dec_len s) data), dec_len := dec_len s + length data\<rparr>,
                check (fits (contents b) (dec_len s) (length data)) w))"
  by (simp add: stash_plaintext_def compact_def)

lemma stash_plaintext_spec:
  assumes inv: "sc_inv s" and r: "stash_plaintext A s data w = (rc, s', w')"
  shows "kept s w s' w'" and "rest_same s s'" and "plain_of (trace w') = plain_of (trace w)"
    and "pending s' = pending s @ (if rc = 0 then data else [])" and "rc = 0 \<or> rc = - 1"
proof -
  have "kept s w s' w' \<and> rest_same s s' \<and> plain_of (trace w') = plain_of (trace w) \<and>
      pending s' = pending s @ (if rc = 0 then data else []) \<and> (rc = 0 \<or> rc = - 1)"
  proof (cases "data = []")
    case True
    then show ?thesis using r inv by (auto simp: stash_plaintext_def kept_refl rest_same_def)
  next
    case False
    obtain s1 w1 where c: "compact s w = (s1, w1)" by fastforce
    note cs = compact_spec [OF inv c]
    have inv1: "sc_inv s1" by (rule kept_inv [OF cs(1)])
    obtain g b w2 where g: "grow A (dec s1) (dec_len s1 + length data) (dec_len s1) SC_ENC_MAX w1 = ((g, b), w2)"
      by (metis surj_pair)
    note gs = grow_spec [OF _ _ order.refl g]
    have gg: "oob w2 = oob w1" "g = 0 \<or> g = - 1" "g = - 1 \<Longrightarrow> b = dec s1" "buf_cap b \<le> SC_ENC_MAX"
      "buf_cap (dec s1) \<le> buf_cap b" "g = 0 \<Longrightarrow> dec_len s1 + length data \<le> buf_cap b"
      "take (dec_len s1) (contents b) = take (dec_len s1) (contents (dec s1))"
      "plain_of (trace w2) = plain_of (trace w1)" "sealed_of (trace w2) = sealed_of (trace w1)"
      "live r (trace w2) = live r (trace w1) +
        (if r = RBuf then of_bool (b \<noteq> None) - of_bool (dec s1 \<noteq> None) else 0)" for r
      using gs inv1 by (simp_all add: sc_inv_def)
    show ?thesis
    proof (cases "g = 0")
      case no: False
      have s': "rc = - 1" "s' = s1\<lparr>dec := b\<rparr>" "w' = w2" and b: "b = dec s1"
        using r False no gg(2,3) c g by (auto simp: stash_plaintext_compact)
      have "kept s1 w1 s' w'"
        using inv1 gg(1,8-10) grow_verdicts [OF g] by (simp add: kept_def s' b balance_def)
      then show ?thesis using kept_trans [OF cs(1)] cs gg(8) by (simp add: s' b)
    next
      case True
      have cap: "dec_len s1 + length data \<le> length (contents b)" using gg(6) [OF True] by (simp add: buf_cap_contents)
      have some: "b \<noteq> None" using cap False by (cases b) auto
      have s': "rc = 0" "s' = s1\<lparr>dec := Some (put (contents b) (dec_len s1) data), dec_len := dec_len s1 + length data\<rparr>"
          "w' = check (fits (contents b) (dec_len s1) (length data)) w2"
        using r False True c g by (auto simp: stash_plaintext_compact)
      have fit: "fits (contents b) (dec_len s1) (length data)" using cap by (simp add: fits_def)
      have bal: "balance r s' w' = balance r s1 w1" for r
        using some gg(10) [of r] by (simp add: balance_def s' held_bufs)
      have len: "buf_cap (Some (put (contents b) (dec_len s1) data)) = buf_cap b"
        using fit by (simp add: buf_cap_contents)
      have "sc_inv s'" using inv1 cs(3) len gg(4) gg(6) [OF True] unfolding sc_inv_def s'(2) by simp
      then have k: "kept s1 w1 s' w'" using bal gg(1,9) fit grow_verdicts [OF g] by (simp add: kept_def s' cfg_def)
      have "pending s' = take (dec_len s1) (contents b) @ data"
        using take_put_end [OF fit] by (simp add: pending_def s' cs(3) slice_front)
      also have "\<dots> = pending s @ data" using cs(2,3) gg(7) by (simp add: pending_def slice_front)
      finally show ?thesis using kept_trans [OF cs(1) k] cs(4,5) gg(8) by (simp add: s' rest_same_def)
    qed
  qed
  then show "kept s w s' w'" and "rest_same s s'" and "plain_of (trace w') = plain_of (trace w)"
    and "pending s' = pending s @ (if rc = 0 then data else [])" and "rc = 0 \<or> rc = - 1" by blast+
qed

lemma take_plaintext_spec:
  assumes inv: "sc_inv s" and room: "off + len \<le> length buf"
    and r: "take_plaintext s buf off len w = ((n, buf'), s', w')"
  shows "kept s w s' w'" and "rest_same s s'" and "plain_of (trace w') = plain_of (trace w)"
    and "n = min len (length (pending s))" and "buf' = put buf off (take n (pending s))"
    and "pending s' = drop n (pending s)"
proof -
  have "kept s w s' w' \<and> rest_same s s' \<and> plain_of (trace w') = plain_of (trace w) \<and>
      n = min len (length (pending s)) \<and> buf' = put buf off (take n (pending s)) \<and> pending s' = drop n (pending s)"
  proof (cases "dec_len s \<le> dec_off s")
    case True
    then have "pending s = []" by (simp add: pending_def slice_def)
    then show ?thesis using r True inv by (simp add: take_plaintext_def kept_refl rest_same_def put_def)
  next
    case False
    define m where "m = min (dec_len s - dec_off s) len"
    define s1 where "s1 = s\<lparr>dec_off := dec_off s + m\<rparr>"
    have m: "(if dec_len s - dec_off s < len then dec_len s - dec_off s else len) = m" by (auto simp: m_def)
    have s': "n = m" "buf' = put buf off (slice (contents (dec s)) (dec_off s) m)"
        "s' = (if dec_off s1 = dec_len s1 then s1\<lparr>dec_off := 0, dec_len := 0\<rparr> else s1)"
        "w' = check (dec_len s \<le> buf_cap (dec s) \<and> fits buf off m) w"
      using r False unfolding take_plaintext_def Let_def m s1_def by auto
    have le: "m \<le> dec_len s - dec_off s" "m \<le> len" by (auto simp: m_def)
    have "kept s w s' w'"
      using inv le room by (auto simp: kept_def s' s1_def sc_inv_def cfg_def balance_def fits_def)
    moreover have "pending s' = drop n (pending s)"
      using le by (auto simp: s' s1_def pending_def slice_def drop_take add.commute)
    moreover have "take n (pending s) = slice (contents (dec s)) (dec_off s) m"
      using le by (simp add: pending_def slice_def s'(1) min_def)
    moreover have "n = min len (length (pending s))"
      using length_pending [OF inv] by (simp add: s'(1) m_def min.commute)
    ultimately show ?thesis by (auto simp: s' s1_def rest_same_def)
  qed
  then show "kept s w s' w'" and "rest_same s s'" and "plain_of (trace w') = plain_of (trace w)"
    and "n = min len (length (pending s))" and "buf' = put buf off (take n (pending s))"
    and "pending s' = drop n (pending s)" by blast+
qed

section \<open>Reading\<close>

lemma pick_set: "pick t bs = Some (off, n) \<Longrightarrow> (t, off, n) \<in> set bs"
  by (auto simp: pick_def find_Some_iff) (metis fst_conv nth_mem)

lemma kept_put_enc:
  assumes "sc_inv s" and "length e = buf_cap (enc s)" and "n \<le> buf_cap (enc s)"
    and "oob w' = oob w" and "sealed_of (trace w') = sealed_of (trace w)" and "\<And>r. live r (trace w') = live r (trace w)"
    and "verdicts (trace w') = verdicts (trace w)"
  shows "kept s w (s\<lparr>enc := Some e, enc_len := n\<rparr>) w'"
  using assms sc_inv_enc [OF assms(1)]
  by (auto simp: kept_def sc_inv_def cfg_def balance_def held_bufs)

lemma read_plain_spec:
  assumes inv: "sc_inv s" and fresh: "pending s = []" and len: "len \<le> length buf"
    and data: "\<And>off n. data = Some (off, n) \<Longrightarrow> off + n \<le> enc_len s"
    and r: "read_plain A s buf len 0 ss data w = ((rc, k, buf'), s', w')"
  obtains p where "kept s w s' w'" and "rest_same s s'" and "plain_of (trace w') = plain_of (trace w) @ p"
    and "rc = 0 \<or> rc = - 1" and "k \<le> len" and "k \<le> length p" and "buf' = put buf 0 (take k p)"
    and "rc = 0 \<Longrightarrow> pending s' = drop k p" and "ss = SEC_I_RENEGOTIATE \<Longrightarrow> k = 0"
    and "ss \<noteq> SEC_I_RENEGOTIATE \<Longrightarrow> k = min len (length p)"
proof (cases "\<exists>off n. data = Some (off, n) \<and> n \<noteq> 0")
  case False
  then have "rc = 0 \<and> k = 0 \<and> buf' = buf \<and> s' = s \<and> w' = w"
    using r by (auto simp: read_plain_def split: option.splits)
  then show thesis using that [of "[]"] fresh inv by (simp add: kept_refl rest_same_def put_def)
next
  case True
  then obtain off n where d: "data = Some (off, n)" "n \<noteq> 0" by blast
  define p where "p = slice (contents (enc s)) off n"
  define k0 where "k0 = (if ss \<noteq> SEC_I_RENEGOTIATE \<and> dec_len s = dec_off s \<and> 0 < len
      then (if len - 0 < n then len - 0 else n) else 0)"
  define w1 where "w1 = check (fits buf 0 k0) (emit (Plain p) (check (fits (contents (enc s)) off n) w))"
  have fit: "fits (contents (enc s)) off n" using data [OF d(1)] inv by (simp add: fits_def sc_inv_def buf_cap_contents)
  have lp: "length p = n" using fit by (simp add: p_def)
  have e: "dec_len s = dec_off s" using fresh pending_empty [OF inv] by simp
  obtain g s2 w2 where st: "stash_plaintext A s (drop k0 p) w1 = (g, s2, w2)" by (metis surj_pair)
  have k0: "k0 = (if ss \<noteq> SEC_I_RENEGOTIATE then min len n else 0)" using e by (simp add: k0_def min_def)
  have "read_plain A s buf len 0 ss data w =
      (let (rc, s, w) = stash_plaintext A s (drop k0 p) w1 in ((rc, k0, put buf 0 (take k0 p)), s, w))"
    using d(2) unfolding read_plain_def d(1) k0_def p_def w1_def Let_def by simp
  then have res: "rc = g" "k = k0" "buf' = put buf 0 (take k0 p)" "s' = s2" "w' = w2"
    using r st by simp_all
  note ss = stash_plaintext_spec [OF inv st]
  have "kept s w s w1" using inv fit len by (auto simp: kept_def w1_def balance_def fits_def k0)
  note k = kept_trans [OF this ss(1)]
  show thesis
    by (rule that [of p]) (use k ss fresh lp in \<open>auto simp: res k0 w1_def\<close>)
qed

lemma read_extra_spec:
  assumes inv: "sc_inv s" and ex: "\<And>off n. extra = Some (off, n) \<Longrightarrow> off + n \<le> enc_len s"
    and r: "read_extra s extra w = (s', w')"
  shows "still s w s' w'" and "have_ctx s' = have_ctx s" and "eof s' = eof s"
    and "enc_len s' = (case extra of None \<Rightarrow> 0 | Some (off, n) \<Rightarrow> n)" and "env w' = env w"
proof -
  have "still s w s' w' \<and> have_ctx s' = have_ctx s \<and> eof s' = eof s \<and>
      enc_len s' = (case extra of None \<Rightarrow> 0 | Some (off, n) \<Rightarrow> n) \<and> env w' = env w"
  proof (cases "\<exists>off n. extra = Some (off, n) \<and> 0 < n")
    case False
    then show ?thesis
      using r inv by (auto simp: read_extra_def still_def kept_def balance_def sc_inv_def cfg_def split: option.splits)
  next
    case True
    then obtain off n where e: "extra = Some (off, n)" "0 < n" by blast
    have fit: "fits (contents (enc s)) off n" using ex [OF e(1)] inv by (simp add: fits_def sc_inv_def buf_cap_contents)
    have l: "length (put (contents (enc s)) 0 (slice (contents (enc s)) off n)) = buf_cap (enc s)"
      using fit by (simp add: fits_def buf_cap_contents)
    have n: "n \<le> buf_cap (enc s)" using fit by (simp add: fits_def buf_cap_contents)
    show ?thesis
      using r e fit kept_put_enc [OF inv l n, of "check (fits (contents (enc s)) off n) w" w]
      by (auto simp: read_extra_def still_def)
  qed
  then show "still s w s' w'" and "have_ctx s' = have_ctx s" and "eof s' = eof s"
    and "enc_len s' = (case extra of None \<Rightarrow> 0 | Some (off, n) \<Rightarrow> n)" and "env w' = env w" by blast+
qed

lemma read_more_spec:
  assumes inv: "sc_inv s" and ok: "win_ok A" and room: "enc_len s < buf_cap (enc s)"
    and r: "read_more A s w = Some ((e, stop), s', w')"
  shows "still s w s' w'" and "have_ctx s' = have_ctx s" and "e = None \<Longrightarrow> stop \<Longrightarrow> eof s'"
    and "e = Some rc \<Longrightarrow> rc \<noteq> HTTPS_SC_OK \<and> rc \<noteq> HTTPS_SC_ERR_ALLOC" and "stop \<Longrightarrow> e = None"
proof -
  have "still s w s' w' \<and> have_ctx s' = have_ctx s \<and> (e = None \<longrightarrow> stop \<longrightarrow> eof s') \<and>
      (\<forall>rc. e = Some rc \<longrightarrow> rc \<noteq> HTTPS_SC_OK \<and> rc \<noteq> HTTPS_SC_ERR_ALLOC) \<and> (stop \<longrightarrow> e = None)"
  proof (cases "eof s")
    case True
    then show ?thesis using r inv by (auto simp: read_more_def still_refl)
  next
    case False
    then obtain n where n: "enc_recv A s w = Some (n, s', w')"
        "(e, stop) = (if n < 0 then (Some (sock_class n), False) else if n = 0 then (None, True) else (None, False))"
      using r by (auto simp: read_more_def bind_eq_Some_conv split: if_splits)
    show ?thesis using n(2) enc_recv_spec [OF inv ok room n(1)] sock_class_neq by (auto split: if_splits)
  qed
  then show "still s w s' w'" and "have_ctx s' = have_ctx s" and "e = None \<Longrightarrow> stop \<Longrightarrow> eof s'"
    and "e = Some rc \<Longrightarrow> rc \<noteq> HTTPS_SC_OK \<and> rc \<noteq> HTTPS_SC_ERR_ALLOC" and "stop \<Longrightarrow> e = None" by blast+
qed

text \<open>What a read of at most \<open>len\<close> bytes that started with an empty stash has done: of the new plaintext
  the first \<open>n\<close> bytes are in the caller's buffer and the rest is in the stash.\<close>

definition read_post ::
  "https_sc \<Rightarrow> bytes \<Rightarrow> nat \<Rightarrow> 'w sio \<Rightarrow> (int \<times> nat \<times> int \<times> bytes) \<times> https_sc \<times> 'w sio \<Rightarrow> bool" where
  "read_post s buf len w = (\<lambda>((rc, n, st, buf'), s', w').
     kept s w s' w' \<and> have_ctx s' \<and> n \<le> len \<and> (\<exists>new. plain_of (trace w') = plain_of (trace w) @ new \<and>
       (rc = HTTPS_SC_OK \<longrightarrow> n \<le> length new \<and> buf' = put buf 0 (take n new) \<and> pending s' = drop n new \<and>
          (new = [] \<longrightarrow> eof s') \<and> (0 < n \<longrightarrow> n < len \<longrightarrow> n = length new)) \<and>
       (rc \<noteq> HTTPS_SC_OK \<longrightarrow> rc \<noteq> HTTPS_SC_ERR_ALLOC \<longrightarrow> pending s' = new)))"

lemma read_post_trans:
  assumes "kept s w s1 w1" and "plain_of (trace w1) = plain_of (trace w)" and "read_post s1 buf len w1 y"
  shows "read_post s buf len w y"
  using assms kept_trans [OF assms(1)] by (auto simp: read_post_def split: prod.splits)

lemma read_post_nothing:
  assumes "kept s w s' w'" and "plain_of (trace w') = plain_of (trace w)" and "have_ctx s'" and "pending s' = []"
    and "rc = HTTPS_SC_OK \<Longrightarrow> eof s'"
  shows "read_post s buf len w ((rc, 0, st, buf), s', w')"
  using assms by (simp add: read_post_def put_def)

definition read_next ::
  "'w winapi \<Rightarrow> (https_sc \<Rightarrow> bytes \<Rightarrow> nat \<Rightarrow> nat \<Rightarrow> int \<Rightarrow> 'w sio \<Rightarrow> ((int \<times> nat \<times> int \<times> bytes) \<times> https_sc \<times> 'w sio) option) \<Rightarrow>
     https_sc \<Rightarrow> bytes \<Rightarrow> nat \<Rightarrow> nat \<Rightarrow> int \<Rightarrow> 'w sio \<Rightarrow> ((int \<times> nat \<times> int \<times> bytes) \<times> https_sc \<times> 'w sio) option" where
  "read_next A k s buf len direct status w = do {
     ((e, stop), s, w) \<leftarrow> read_more A s w;
     case e of Some rc \<Rightarrow> Some ((rc, 0, status, buf), s, w)
     | None \<Rightarrow> if stop then Some ((HTTPS_SC_OK, direct, status, buf), s, w)
         else k s buf len direct status w
   }"

definition read_record ::
  "'w winapi \<Rightarrow> (https_sc \<Rightarrow> bytes \<Rightarrow> nat \<Rightarrow> nat \<Rightarrow> int \<Rightarrow> 'w sio \<Rightarrow> ((int \<times> nat \<times> int \<times> bytes) \<times> https_sc \<times> 'w sio) option) \<Rightarrow>
     https_sc \<Rightarrow> bytes \<Rightarrow> nat \<Rightarrow> nat \<Rightarrow> int \<Rightarrow> int \<Rightarrow> sec_buffer list \<Rightarrow> 'w sio \<Rightarrow>
     ((int \<times> nat \<times> int \<times> bytes) \<times> https_sc \<times> 'w sio) option" where
  "read_record A k s buf len direct status ss bs w =
    (let ((rc, direct, buf), s, w) = read_plain A s buf len direct ss (pick SECBUFFER_DATA bs) w
     in if rc \<noteq> 0 then Some ((HTTPS_SC_ERR_ALLOC, 0, status, buf), s, w)
        else do {
          let (s, w) = read_extra s (pick SECBUFFER_EXTRA bs) w;
          ((rc, status), s, w) \<leftarrow>
            (if ss = SEC_I_CONTEXT_EXPIRED then Some ((HTTPS_SC_OK, status), s\<lparr>eof := True\<rparr>, w)
             else if ss = SEC_I_RENEGOTIATE then do_handshake A s status w
             else Some ((HTTPS_SC_OK, status), s, w));
          if rc \<noteq> HTTPS_SC_OK then Some ((rc, 0, status, buf), s, w)
          else if 0 < direct \<or> dec_off s < dec_len s \<or> eof s then
            Some ((HTTPS_SC_OK, direct, status, buf), s, w)
          else k s buf len direct status w
        })"

lemma read_loop_body:
  "read_loop A s buf len direct status w =
    (if 0 < enc_len s then
       let ((ss, enc', bs), w) = call (DecryptMessage A (contents (enc s)) (enc_len s)) w
       in if ss = SEC_E_OK \<or> ss = SEC_I_RENEGOTIATE \<or> ss = SEC_I_CONTEXT_EXPIRED
          then read_record A (read_loop A) (s\<lparr>enc := Some enc'\<rparr>) buf len direct status ss bs w
          else if ss \<noteq> SEC_E_INCOMPLETE_MESSAGE then Some ((HTTPS_SC_ERR_IO, 0, ss, buf), s\<lparr>enc := Some enc'\<rparr>, w)
          else
            let (rc, s, w) = enc_room A (s\<lparr>enc := Some enc'\<rparr>) w
            in if rc \<noteq> 0 then Some ((HTTPS_SC_ERR_ALLOC, 0, status, buf), s, w)
               else read_next A (read_loop A) s buf len direct status w
     else read_next A (read_loop A) s buf len direct status w)"
  by (subst read_loop.simps) (unfold read_record_def read_next_def Let_def, rule refl)

lemma read_next_spec:
  assumes inv: "sc_inv s" and ok: "win_ok A" and room: "enc_len s < buf_cap (enc s)" and ctx: "have_ctx s"
    and fresh: "pending s = []" and r: "read_next A k s buf len 0 status w = Some y"
  obtains "read_post s buf len w y"
    | s' w' where "k s' buf len 0 status w' = Some y" and "kept s w s' w'"
        and "plain_of (trace w') = plain_of (trace w)" and "pending s' = []" and "have_ctx s'"
proof -
  obtain e stop s' w' where m: "read_more A s w = Some ((e, stop), s', w')"
    using r by (auto simp: read_next_def bind_eq_Some_conv)
  note ms = read_more_spec [OF inv ok room m]
  have st: "kept s w s' w'" "plain_of (trace w') = plain_of (trace w)" "pending s' = []" "have_ctx s'"
    using ms(1,2) ctx fresh still_pending [OF ms(1)] by (auto simp: still_def)
  show thesis
  proof (cases "e = None \<and> \<not> stop")
    case True
    then have "k s' buf len 0 status w' = Some y" using r m by (simp add: read_next_def)
    then show thesis using st by (rule that(2))
  next
    case False
    then obtain rc where y: "y = ((rc, 0, status, buf), s', w')" and "rc = HTTPS_SC_OK \<Longrightarrow> eof s'"
      using r m ms(3,4) by (fastforce simp: read_next_def split: option.splits if_splits)
    then show thesis using read_post_nothing [OF st(1,2,4,3)] that(1) by blast
  qed
qed

lemma kept_set_enc:
  assumes "sc_inv s" and "length e = length (contents (enc s))"
  shows "still s w (s\<lparr>enc := Some e\<rparr>) (w\<lparr>env := x\<rparr>)"
  using assms sc_inv_enc [OF assms(1)]
  by (auto simp: still_def kept_def sc_inv_def cfg_def balance_def held_bufs buf_cap_contents)

lemma read_record_spec:
  assumes inv: "sc_inv s" and ok: "win_ok A" and ctx: "have_ctx s" and fresh: "pending s = []"
    and len: "len \<le> length buf" and b: "\<And>t off n. (t, off, n) \<in> set bs \<Longrightarrow> off + n \<le> enc_len s"
    and r: "read_record A k s buf len 0 status ss bs w = Some y"
  obtains "read_post s buf len w y"
    | s' w' st where "k s' buf len 0 st w' = Some y" and "kept s w s' w'"
        and "plain_of (trace w') = plain_of (trace w)" and "pending s' = []" and "have_ctx s'"
proof -
  obtain rc d buf1 s1 w1 where p: "read_plain A s buf len 0 ss (pick SECBUFFER_DATA bs) w = ((rc, d, buf1), s1, w1)"
    by (metis surj_pair)
  from read_plain_spec [OF inv fresh len _ p] b pick_set
  obtain new where ps: "kept s w s1 w1" "rest_same s s1" "plain_of (trace w1) = plain_of (trace w) @ new"
      "rc = 0 \<or> rc = - 1" "d \<le> len" "d \<le> length new" "buf1 = put buf 0 (take d new)"
      "rc = 0 \<Longrightarrow> pending s1 = drop d new" "ss = SEC_I_RENEGOTIATE \<Longrightarrow> d = 0"
      "ss \<noteq> SEC_I_RENEGOTIATE \<Longrightarrow> d = min len (length new)" by metis
  show thesis
  proof (cases "rc = 0")
    case False
    then have "y = ((HTTPS_SC_ERR_ALLOC, 0, status, buf1), s1, w1)" using r p by (simp add: read_record_def)
    then have "read_post s buf len w y" using ps ctx by (simp add: read_post_def rest_same_def sc_codes)
    then show thesis by (rule that(1))
  next
    case True
    obtain s2 w2 where x: "read_extra s1 (pick SECBUFFER_EXTRA bs) w1 = (s2, w2)" by fastforce
    have "off + n \<le> enc_len s1" if "pick SECBUFFER_EXTRA bs = Some (off, n)" for off n
      using b [OF pick_set [OF that]] ps(2) by (simp add: rest_same_def)
    note xs = read_extra_spec [OF kept_inv [OF ps(1)] this x]
    note k2 = kept_trans [OF ps(1) still_kept [OF xs(1)]]
    obtain rc3 st3 s3 w3 where h: "(if ss = SEC_I_CONTEXT_EXPIRED then Some ((HTTPS_SC_OK, status), s2\<lparr>eof := True\<rparr>, w2)
        else if ss = SEC_I_RENEGOTIATE then do_handshake A s2 status w2
        else Some ((HTTPS_SC_OK, status), s2, w2)) = Some ((rc3, st3), s3, w3)"
      using r p True x by (auto simp: read_record_def bind_eq_Some_conv)
    have ctx2: "have_ctx s2" using xs(2) ps(2) ctx by (simp add: rest_same_def)
    have h3: "still s2 w2 s3 w3" "have_ctx s3" "rc3 = HTTPS_SC_OK \<or> ss = SEC_I_RENEGOTIATE"
      using h do_handshake_spec [OF ok still_inv [OF xs(1)], of status w2 rc3 st3 s3 w3] ctx2
        still_eof [OF still_inv [OF xs(1)] quiet_refl, of w2] still_refl [OF still_inv [OF xs(1)], of w2]
      by (auto split: if_splits)
    note k3 = kept_trans [OF k2 still_kept [OF h3(1)]]
    have pl: "plain_of (trace w3) = plain_of (trace w) @ new" using ps(3) xs(1) h3(1) by (simp add: still_def)
    have pe: "pending s3 = drop d new" using ps(8) True still_pending [OF xs(1)] still_pending [OF h3(1)] by simp
    have y: "(if rc3 \<noteq> HTTPS_SC_OK then Some ((rc3, 0, st3, buf1), s3, w3)
        else if 0 < d \<or> dec_off s3 < dec_len s3 \<or> eof s3 then Some ((HTTPS_SC_OK, d, st3, buf1), s3, w3)
        else k s3 buf1 len d st3 w3) = Some y"
      using r p True x h by (simp add: read_record_def)
    have dm: "d = 0 \<or> d = min len (length new)" using ps(9,10) by blast
    show thesis
    proof (cases "rc3 = HTTPS_SC_OK \<and> d = 0 \<and> pending s3 = [] \<and> \<not> eof s3")
      case True
      then have "new = []" "buf1 = buf" using pe ps(6,7) by (auto simp: put_def)
      moreover have "k s3 buf1 len 0 st3 w3 = Some y" using y True pending_empty [OF still_inv [OF h3(1)]] by simp
      ultimately show thesis using that(2) [OF _ k3 _ _ h3(2)] pl True by simp
    next
      case False
      then have "read_post s buf len w y"
        using y k3 pl pe ps(5-7,9) dm h3 pending_less [OF still_inv [OF h3(1)]]
        by (auto simp: read_post_def min_def split: if_splits)
      then show thesis by (rule that(1))
    qed
  qed
qed

lemmas read_loop_induct = read_loop.raw_induct [rotated, consumes 1, case_names step]

lemma read_loop_spec:
  "read_loop A s buf len direct status w = Some y \<Longrightarrow> win_ok A \<Longrightarrow> sc_inv s \<Longrightarrow> have_ctx s \<Longrightarrow> pending s = [] \<Longrightarrow>
     direct = 0 \<Longrightarrow> len \<le> length buf \<Longrightarrow> read_post s buf len w y"
proof (induction rule: read_loop_induct)
  case (step rl A s buf len direct status w y)
  note IH = step(1) [OF _ step(3)]
  obtain ss e bs x where d: "DecryptMessage A (contents (enc s)) (enc_len s) (env w) = ((ss, e, bs), x)" by (metis surj_pair)
  let ?s1 = "s\<lparr>enc := Some e\<rparr>" and ?w1 = "w\<lparr>env := x\<rparr>"
  have body: "(if 0 < enc_len s then
       if ss = SEC_E_OK \<or> ss = SEC_I_RENEGOTIATE \<or> ss = SEC_I_CONTEXT_EXPIRED
       then read_record A (rl A) ?s1 buf len 0 status ss bs ?w1
       else if ss \<noteq> SEC_E_INCOMPLETE_MESSAGE then Some ((HTTPS_SC_ERR_IO, 0, ss, buf), ?s1, ?w1)
       else let (rc, s, w) = enc_room A ?s1 ?w1
            in if rc \<noteq> 0 then Some ((HTTPS_SC_ERR_ALLOC, 0, status, buf), s, w)
               else read_next A (rl A) s buf len 0 status w
     else read_next A (rl A) s buf len 0 status w) = Some y"
    using step(2) unfolding step(7) call_def d Let_def read_record_def read_next_def prod.case .
  have next': "read_post s buf len w y" if "read_next A (rl A) s buf len 0 status w = Some y" "sc_inv s" "have_ctx s"
      "pending s = []" "enc_len s < buf_cap (enc s)" for s w
  proof (rule read_next_spec [OF that(2) step(3) that(5,3,4,1)], goal_cases)
    case (2 s' w')
    from read_post_trans [OF 2(2,3) IH [OF 2(1) kept_inv [OF 2(2)] 2(5,4) refl step(8)]] show ?case .
  qed
  show ?case
  proof (cases "0 < enc_len s")
    case False
    then show ?thesis using body next' [OF _ step(4-6)] step(4) by (simp add: sc_inv_def)
  next
    case True
    have st1: "still s w ?s1 ?w1" by (rule kept_set_enc [OF step(4) win_decrypt(1) [OF step(3) d]])
    note inv1 = still_inv [OF st1]
    have pl1: "pending ?s1 = []" "have_ctx ?s1" "plain_of (trace ?w1) = plain_of (trace w)"
      using step(5,6) still_pending [OF st1] by auto
    note up = read_post_trans [OF still_kept [OF st1] pl1(3)]
    obtain rc s2 w2 where room: "enc_room A ?s1 ?w1 = (rc, s2, w2)" by (metis surj_pair)
    note er = enc_room_spec [OF inv1 room]
    consider (rec) "read_record A (rl A) ?s1 buf len 0 status ss bs ?w1 = Some y"
      | (err) "y = ((HTTPS_SC_ERR_IO, 0, ss, buf), ?s1, ?w1)"
      | (full) "y = ((HTTPS_SC_ERR_ALLOC, 0, status, buf), s2, w2)"
      | (more) "rc = 0" "read_next A (rl A) s2 buf len 0 status w2 = Some y"
      using body unfolding if_P [OF True] room Let_def prod.case by (metis option.inject)
    then show ?thesis
    proof cases
      case rec
      show ?thesis
      proof (rule read_record_spec [OF inv1 step(3) pl1(2,1) step(8) _ rec], goal_cases)
        case (1 t off n)
        then show ?case using win_decrypt(2) [OF step(3) d] by simp
      next
        case (3 s' w' st)
        from up [OF read_post_trans [OF 3(2,3) IH [OF 3(1) kept_inv [OF 3(2)] 3(5,4) refl step(8)]]] show ?case .
      qed (rule up)
    next
      case err
      show ?thesis unfolding err
        by (rule up, rule read_post_nothing [OF kept_refl [OF inv1] refl pl1(2,1)]) (simp add: sc_codes)
    next
      case full
      have "read_post ?s1 buf len ?w1 y" unfolding full
        by (rule read_post_nothing) (use er pl1 still_pending [OF er(1)] in \<open>auto simp: still_def sc_codes\<close>)
      then show ?thesis by (rule up)
    next
      case more
      have "read_post s2 buf len w2 y"
        by (rule next' [OF more(2) still_inv [OF er(1)]]) (use er more(1) pl1 still_pending [OF er(1)] in auto)
      then show ?thesis using up read_post_trans [OF still_kept [OF er(1)]] er(1) by (auto simp: still_def)
    qed
  qed
qed

text \<open>A whole read: what was pending before and what was decrypted now is what the caller has got and
  what is pending after.\<close>

lemma put_take: "n \<le> length src \<Longrightarrow> n \<le> length buf \<Longrightarrow> take n (put buf 0 (take n src)) = take n src"
  by (simp add: put_def)

lemma put_twice:
  "n + length b \<le> length buf \<Longrightarrow> length a = n \<Longrightarrow> put (put buf 0 a) n b = put buf 0 (a @ b)"
  by (simp add: put_def add.commute)

lemma deadline_from_frame:
  "deadline_from A t w = (d, w') \<Longrightarrow> trace w' = trace w \<and> oob w' = oob w"
  by (auto simp: deadline_from_def now_ns_def call_def Let_def split: if_splits prod.splits)

lemma kept_deadline: "sc_inv s \<Longrightarrow> trace w' = trace w \<Longrightarrow> oob w' = oob w \<Longrightarrow> still s w (s\<lparr>deadline_ns := d\<rparr>) w'"
  by (simp add: still_def kept_def sc_inv_def cfg_def balance_def)

definition read_stream :: "https_sc \<Rightarrow> bytes \<Rightarrow> nat \<Rightarrow> 'w sio \<Rightarrow> (int \<times> nat \<times> int \<times> bytes) \<times> https_sc \<times> 'w sio \<Rightarrow> bool" where
  "read_stream s buf len w = (\<lambda>((rc, n, st, buf'), s', w').
     kept s w s' w' \<and> have_ctx s' \<and> n \<le> len \<and> (\<exists>new. plain_of (trace w') = plain_of (trace w) @ new \<and>
       (rc = HTTPS_SC_OK \<longrightarrow> pending s @ new = take n buf' @ pending s' \<and> length buf' = length buf \<and>
          drop n buf' = drop n buf \<and> (n = 0 \<longrightarrow> eof s')) \<and>
       (rc \<noteq> HTTPS_SC_OK \<longrightarrow> n = 0) \<and>
       (rc \<noteq> HTTPS_SC_OK \<longrightarrow> rc \<noteq> HTTPS_SC_ERR_ALLOC \<longrightarrow> pending s' = pending s @ new)))"

lemma read_finish:
  assumes post: "read_post s buf len w ((HTTPS_SC_OK, d, st, buf1), s1, w1)" and fresh: "pending s = []"
    and len: "0 < len" "len \<le> length buf"
    and t: "take_plaintext s1 buf1 d (len - d) w1 = ((n, buf2), s2, w2)"
  shows "read_stream s buf len w ((HTTPS_SC_OK, d + n, st, buf2), s2, w2)"
proof -
  obtain new where p: "kept s w s1 w1" "have_ctx s1" "d \<le> len" "plain_of (trace w1) = plain_of (trace w) @ new"
      "d \<le> length new" "buf1 = put buf 0 (take d new)" "pending s1 = drop d new" "new = [] \<Longrightarrow> eof s1"
    using post by (auto simp: read_post_def)
  have l1: "length buf1 = length buf" using p(3,5,6) len by (simp add: fits_def min_def)
  have "d + (len - d) \<le> length buf1" using p(3) len l1 by simp
  note ts = take_plaintext_spec [OF kept_inv [OF p(1)] this t]
  define m where "m = d + n"
  have n: "n \<le> length new - d" "n \<le> len - d" using ts(4) p(7) by auto
  then have m: "m \<le> len" "m \<le> length new" using p(3,5) by (auto simp: m_def)
  have buf2: "buf2 = put buf 0 (take m new)"
    using put_twice [of d "take n (drop d new)" buf "take d new"] n len p(3,5) ts(5)
    by (simp add: p(6,7) m_def take_add)
  have "pending s2 = drop m new" using ts(6) p(7) by (simp add: m_def add.commute)
  moreover have "m = 0 \<Longrightarrow> eof s2"
    using ts(2,4) p(7,8) len by (auto simp: m_def rest_same_def min_def split: if_splits)
  ultimately show ?thesis
    using kept_trans [OF p(1) ts(1)] p(2,4) ts(2,3) m len fresh
    by (auto simp: read_stream_def rest_same_def buf2 m_def [symmetric] put_take put_def min_def)
qed

lemma https_sc_read_spec:
  assumes ok: "win_ok A" and inv: "sc_inv s" and ctx: "have_ctx s" and len: "0 < len" "nat len \<le> length buf"
    and r: "https_sc_read A (Some s) buf len timeout w = Some (res, h, w')"
  obtains s' where "h = Some s'" and "read_stream s buf (nat len) w (res, s', w')"
proof (cases "dec_off s < dec_len s")
  case True
  obtain n buf' s' w1 where t: "take_plaintext s buf 0 (nat len) w = ((n, buf'), s', w1)" by (metis surj_pair)
  have room: "0 + nat len \<le> length buf" using len by simp
  note ts = take_plaintext_spec [OF inv room t]
  have res: "h = Some s'" "res = (HTTPS_SC_OK, n, 0, buf')" "w' = w1"
    using r True t ctx len by (auto simp: https_sc_read_def)
  have "n \<le> nat len" "n \<le> length (pending s)" "n \<noteq> 0"
    using ts(4) len True length_pending [OF inv] by auto
  then have "read_stream s buf (nat len) w (res, s', w')"
    using ts ctx len by (auto simp: read_stream_def res rest_same_def put_take fits_def put_def min_def)
  with res(1) show thesis by (rule that)
next
  case False
  then have fresh: "pending s = []" using pending_less [OF inv] by simp
  obtain dl w0 where dl: "deadline_from A timeout w = (dl, w0)" by fastforce
  let ?s0 = "s\<lparr>deadline_ns := dl\<rparr>"
  have st: "still s w ?s0 w0" using deadline_from_frame [OF dl] kept_deadline [OF inv] by blast
  have pl: "plain_of (trace w0) = plain_of (trace w)" using st by (simp add: still_def)
  obtain rc d st1 buf1 s1 w1 where l: "read_loop A ?s0 buf (nat len) 0 0 w0 = Some ((rc, d, st1, buf1), s1, w1)"
    using r False ctx len dl by (auto simp: https_sc_read_def bind_eq_Some_conv)
  have "pending ?s0 = []" using still_pending [OF st] fresh by simp
  with read_loop_spec [OF l ok still_inv [OF st]] ctx len
  have "read_post ?s0 buf (nat len) w0 ((rc, d, st1, buf1), s1, w1)" by simp
  from read_post_trans [OF still_kept [OF st] pl this]
  have post: "read_post s buf (nat len) w ((rc, d, st1, buf1), s1, w1)" .
  show thesis
  proof (cases "rc = HTTPS_SC_OK")
    case True
    obtain n buf2 s2 w2 where t: "take_plaintext s1 buf1 d (nat len - d) w1 = ((n, buf2), s2, w2)" by (metis surj_pair)
    have "read_stream s buf (nat len) w ((HTTPS_SC_OK, d + n, st1, buf2), s2, w2)"
      using read_finish [OF post [unfolded True] fresh _ len(2) t] len by simp
    then show thesis using that [of s2] r False ctx len dl l t True by (simp add: https_sc_read_def)
  next
    case no: False
    have "read_stream s buf (nat len) w ((rc, 0, st1, buf1), s1, w1)"
      using post no fresh by (auto simp: read_post_def read_stream_def)
    then show thesis using that [of s1] r False ctx len dl l no by (simp add: https_sc_read_def)
  qed
qed

section \<open>Writing\<close>

definition out_inv :: "https_sc \<Rightarrow> bool" where
  "out_inv s \<longleftrightarrow> sc_out s \<noteq> None \<and> cbHeader (sizes s) + cbMaximumMessage (sizes s) + cbTrailer (sizes s) \<le> buf_cap (sc_out s)"

lemma drop_take_split: "i + c \<le> m \<Longrightarrow> drop i (take (i + c) xs) @ drop (i + c) (take m xs) = drop i (take m xs)"
  using append_take_drop_id [of c "drop i (take m xs)"] by (simp add: drop_take add.commute)

lemmas write_loop_induct = write_loop.raw_induct [rotated, consumes 1, case_names step]

text \<open>A write changes nothing of the connection but the bytes of its output buffer; what it seals is a
  prefix of the caller's bytes that starts where it was called and covers what it reports.\<close>

definition write_post :: "https_sc \<Rightarrow> bytes \<Rightarrow> nat \<Rightarrow> 'w sio \<Rightarrow> (int \<times> nat \<times> int) \<times> https_sc \<times> 'w sio \<Rightarrow> bool" where
  "write_post s buf sent w = (\<lambda>((rc, n, st), s', w').
     s' = s\<lparr>sc_out := sc_out s'\<rparr> \<and> buf_cap (sc_out s') = buf_cap (sc_out s) \<and>
     (sc_out s' = None \<longleftrightarrow> sc_out s = None) \<and> oob w' = oob w \<and>
     plain_of (trace w') = plain_of (trace w) \<and> (\<forall>r. live r (trace w') = live r (trace w)) \<and>
     sent \<le> n \<and> n \<le> length buf \<and> (rc = HTTPS_SC_OK \<longleftrightarrow> n = length buf) \<and>
     (\<exists>m. n \<le> m \<and> m \<le> length buf \<and> m \<le> n + cbMaximumMessage (sizes s) \<and> (rc = HTTPS_SC_OK \<longrightarrow> m = n) \<and>
        sealed_of (trace w') = sealed_of (trace w) @ drop sent (take m buf)))"

lemma write_loop_spec:
  "write_loop A s buf sent w = Some y \<Longrightarrow> win_ok A \<Longrightarrow> out_inv s \<Longrightarrow> sent \<le> length buf \<Longrightarrow>
     write_post s buf sent w y"
proof (induction rule: write_loop_induct)
  case (step wl A s buf sent w y)
  show ?case
  proof (cases "sent < length buf")
    case False
    then show ?thesis using step(2,5) by (auto simp: write_post_def)
  next
    case True
    define c where "c = min (cbMaximumMessage (sizes s)) (length buf - sent)"
    have c: "(if cbMaximumMessage (sizes s) < length buf - sent then cbMaximumMessage (sizes s) else length buf - sent) = c"
      by (simp add: c_def min_def)
    have cc: "c \<le> cbMaximumMessage (sizes s)" "c \<le> length buf - sent" by (auto simp: c_def)
    define o1 where "o1 = put (contents (sc_out s)) (cbHeader (sizes s)) (slice buf sent c)"
    have fit: "fits (contents (sc_out s)) (cbHeader (sizes s)) c"
        "fits (contents (sc_out s)) (cbHeader (sizes s) + c) (cbTrailer (sizes s))"
      using step(4) cc by (auto simp: out_inv_def fits_def buf_cap_contents)
    have o1: "length o1 = length (contents (sc_out s))" using fit(1) cc by (simp add: o1_def fits_def slice_def)
    have sealed: "slice o1 (cbHeader (sizes s)) c = slice buf sent c"
      using slice_put [of "contents (sc_out s)" "cbHeader (sizes s)" "slice buf sent c"] fit(1) cc
      by (simp add: o1_def slice_def)
    define w1 where "w1 = emit (Sealed (slice buf sent c)) (check True w)"
    obtain ss o2 c0 c1 c2 e where en: "EncryptMessage A o1 (cbHeader (sizes s)) c (cbTrailer (sizes s)) (env w)
        = ((ss, o2, c0, c1, c2), e)" by (metis surj_pair)
    note ws = win_encrypt [OF step(3) en]
    have le: "c0 + c1 + c2 \<le> length o2" using ws o1 cc step(4) by (simp add: out_inv_def buf_cap_contents)
    let ?s2 = "s\<lparr>sc_out := Some o2\<rparr>" and ?w2 = "w1\<lparr>env := e\<rparr>"
    have body: "(if ss \<noteq> SEC_E_OK then Some ((HTTPS_SC_ERR_IO, sent, ss), ?s2, ?w2)
        else do {
          (rc, w) \<leftarrow> sock_send_all A ?s2 (take (c0 + c1 + c2) o2) (check (c0 + c1 + c2 \<le> length o2) ?w2);
          if rc \<noteq> 0 then Some ((sock_class rc, sent, 0), ?s2, w) else wl A ?s2 buf (sent + c) w }) = Some y"
      using step(2) fit unfolding if_P [OF True] c Let_def o1_def [symmetric]
      by (simp add: encrypt_message_def call_def en [unfolded o1_def] sealed [unfolded o1_def] w1_def o1_def
        split del: if_split cong: if_cong)
    have sl: "slice buf sent c = drop sent (take (sent + c) buf)" by (simp add: slice_def drop_take)
    have cap: "length o2 = buf_cap (sc_out s)" using ws(1) o1 by (simp add: buf_cap_contents)
    have out: "sc_out s \<noteq> None" using step(4) by (simp add: out_inv_def)
    have err: "write_post s buf sent w ((rc, sent, st), ?s2, w3)" if "quiet ?w2 w3" "rc \<noteq> HTTPS_SC_OK" for rc st w3
      using that True cc cap out by (auto simp: write_post_def quiet_def w1_def sl intro!: exI [of _ "sent + c"])
    show ?thesis
    proof (cases "ss = SEC_E_OK")
      case False
      then show ?thesis using body err [OF quiet_refl] by (auto simp: sc_codes)
    next
      case ok: True
      then obtain rc w3 where sd: "sock_send_all A ?s2 (take (c0 + c1 + c2) o2) (check True ?w2) = Some (rc, w3)"
        using body le by (auto simp: bind_eq_Some_conv)
      have q: "quiet ?w2 w3" using sock_send_all_quiet [OF step(3) sd] by (simp add: quiet_def)
      show ?thesis
      proof (cases "rc = 0")
        case False
        then show ?thesis using body ok le sd err [OF q] sock_class_neq(1) by auto
      next
        case True
        then have "wl A ?s2 buf (sent + c) w3 = Some y" using body ok le sd by simp
        moreover have "out_inv ?s2" using step(4) cap by (simp add: out_inv_def)
        ultimately have wp: "write_post ?s2 buf (sent + c) w3 y" using step(1,3) cc \<open>sent < length buf\<close> by auto
        obtain rc' n st s' w' where y1: "y = ((rc', n, st), s', w')" by (metis surj_pair)
        have y2: "s' = ?s2\<lparr>sc_out := sc_out s'\<rparr>" "buf_cap (sc_out s') = length o2" "sc_out s' \<noteq> None" "oob w' = oob w3"
            "plain_of (trace w') = plain_of (trace w3)" "\<forall>r. live r (trace w') = live r (trace w3)" "sent + c \<le> n"
            "n \<le> length buf" "rc' = HTTPS_SC_OK \<longleftrightarrow> n = length buf"
          using wp unfolding y1 by (simp_all add: write_post_def)
        obtain m where m: "n \<le> m" "m \<le> length buf" "m \<le> n + cbMaximumMessage (sizes s)" "rc' = HTTPS_SC_OK \<longrightarrow> m = n"
            "sealed_of (trace w') = sealed_of (trace w3) @ drop (sent + c) (take m buf)"
          using wp unfolding y1 write_post_def prod.case by (elim conjE exE) simp
        have "s' = s\<lparr>sc_out := sc_out s'\<rparr>" using y2(1) by simp
        then show ?thesis using y2(2-) m q cap out drop_take_split [of sent c m buf]
          unfolding y1 write_post_def prod.case by (intro conjI exI [of _ m]) (auto simp: quiet_def w1_def sl)
      qed
    qed
  qed
qed

end
