(* ===== verification/Schannel_Setup.thy ===== *)
theory Schannel_Setup
  imports Schannel_Rec
begin

text \<open>
  Trust, setup and teardown of the Windows backend: a handshake that is not told to skip verification
  succeeds only after a chain check accepted the peer; a failed one gives back everything it took and
  leaves the anchors to the caller; \<open>https_sc_close\<close> gives back the rest.
\<close>

section \<open>Trust\<close>

text \<open>A step that moves no plaintext and keeps the accounts; it may decide about trust.\<close>

definition hush :: "'w sio \<Rightarrow> 'w sio \<Rightarrow> bool" where
  "hush w w' \<longleftrightarrow> oob w' = oob w \<and> plain_of (trace w') = plain_of (trace w) \<and>
     sealed_of (trace w') = sealed_of (trace w) \<and> (\<forall>r. live r (trace w') = live r (trace w))"

lemma hush_refl [simp]: "hush w w"
  by (simp add: hush_def)

text \<open>Why a chain was accepted, in the answers of Windows. \<open>vouched\<close>: the engine built a chain for the
  certificate, the policy found nothing against it for the host name, and the status of the chain has
  none but the three bits that do not count. \<open>vouches\<close>: for the check of the extra anchors the engine was
  created with their store as the only root, for the other one it is the default engine. \<open>accepted\<close>:
  Windows reported the certificate of the peer, and the last check vouches for it; with \<open>ca_only\<close> that is
  the check of the extra anchors and no other was made.\<close>

definition tolerable :: "u32 \<Rightarrow> bool" where
  "tolerable t \<longleftrightarrow> t AND NOT (SC_TRUST_REVOCATION_STATUS_UNKNOWN OR SC_TRUST_IS_OFFLINE_REVOCATION OR
     SC_TRUST_IS_NOT_TIME_NESTED) = 0"

definition vouched :: "https_sc \<Rightarrow> nat \<Rightarrow> nat option \<Rightarrow> sc_ev list \<Rightarrow> bool" where
  "vouched s cert e vs \<longleftrightarrow> (\<exists>c t. tolerable t \<and>
     vs = [GotChain e cert (castore s) (Some c), Policy (hostw s) c (Some 0), Trust c t])"

definition vouches :: "https_sc \<Rightarrow> nat \<Rightarrow> bool \<Rightarrow> sc_ev list \<Rightarrow> bool" where
  "vouches s cert ex vs \<longleftrightarrow>
     (if ex then castore s \<noteq> 0 \<and> (\<exists>h us. vouched s cert (Some h) us \<and>
        vs = NewEngine \<lparr>ce_hExclusiveRoot = castore s, ce_dwExclusiveFlags = 1\<rparr> (Some h) # us)
      else vouched s cert None vs)"

definition accepted :: "https_sc \<Rightarrow> sc_ev list \<Rightarrow> bool" where
  "accepted s vs \<longleftrightarrow> (\<exists>cert us ex bs. cert \<noteq> 0 \<and> vs = PeerCert SEC_E_OK cert # us @ bs \<and> vouches s cert ex bs \<and>
     (ca_only s \<longrightarrow> ex) \<and> (us = [] \<longleftrightarrow> ca_only s \<or> \<not> ex))"

lemma check_policy_spec:
  assumes "check_policy A s c status w = ((rc, status'), w')"
  shows "oob w' = oob w" and "\<exists>vs. trace w' = trace w @ vs \<and> list_all trust_ev vs \<and>
    (rc = 0 \<longrightarrow> (\<exists>t. tolerable t \<and> vs = [Policy (hostw s) c (Some 0), Trust c t]))"
  using assms
  by (auto simp: check_policy_def verify_policy_def trust_status_def call_def tolerable_def Let_def
      split: prod.splits option.splits if_splits)

lemma all_trust:
  assumes "list_all trust_ev vs"
  shows "plain_of vs = []" "sealed_of vs = []" "live r vs = 0" "verdicts vs = vs"
  using assms by (induction vs) simp_all

lemma verify_chain_with_spec:
  assumes "verify_chain_with A s cert engine status w = ((rc, status'), w')"
  shows "oob w' = oob w" and "plain_of (trace w') = plain_of (trace w)" and "sealed_of (trace w') = sealed_of (trace w)"
    and "live r (trace w') = live r (trace w) - (if r = REngine \<and> engine \<noteq> None then 1 else 0)"
    and "\<exists>vs. verdicts (trace w') = verdicts (trace w) @ vs \<and> vs \<noteq> [] \<and> (rc = 0 \<longrightarrow> vouched s cert engine vs)"
proof -
  obtain c e where c: "CertGetChain A engine cert (castore s) (env w) = (c, e)" by fastforce
  have "oob w' = oob w \<and> plain_of (trace w') = plain_of (trace w) \<and> sealed_of (trace w') = sealed_of (trace w) \<and>
      live r (trace w') = live r (trace w) - (if r = REngine \<and> engine \<noteq> None then 1 else 0) \<and>
      (\<exists>vs. verdicts (trace w') = verdicts (trace w) @ vs \<and> vs \<noteq> [] \<and> (rc = 0 \<longrightarrow> vouched s cert engine vs))"
  proof (cases c)
    case None
    then show ?thesis using assms c
      by (cases engine) (auto simp: verify_chain_with_def get_chain_def call_def release_engine_def)
  next
    case (Some h)
    let ?w1 = "emit (Acq RChain) (emit (GotChain engine cert (castore s) c) (w\<lparr>env := e\<rparr>))"
    obtain rc1 st1 w1 where p: "check_policy A s h status ?w1 = ((rc1, st1), w1)" by (metis surj_pair)
    obtain us where us: "trace w1 = trace ?w1 @ us" "list_all trust_ev us"
        "rc1 = 0 \<longrightarrow> (\<exists>t. tolerable t \<and> us = [Policy (hostw s) h (Some 0), Trust h t])"
      using check_policy_spec(2) [OF p] by blast
    show ?thesis
      using assms c Some p us check_policy_spec(1) [OF p] all_trust [OF us(2)]
      by (cases engine) (auto simp: verify_chain_with_def get_chain_def call_def release_engine_def vouched_def Let_def)
  qed
  then show "oob w' = oob w" and "plain_of (trace w') = plain_of (trace w)" and "sealed_of (trace w') = sealed_of (trace w)"
    and "live r (trace w') = live r (trace w) - (if r = REngine \<and> engine \<noteq> None then 1 else 0)"
    and "\<exists>vs. verdicts (trace w') = verdicts (trace w) @ vs \<and> vs \<noteq> [] \<and> (rc = 0 \<longrightarrow> vouched s cert engine vs)"
    by blast+
qed

lemma verify_with_spec:
  assumes "verify_with A s cert ex status w = ((rc, status'), w')"
  shows "hush w w'"
    and "\<exists>vs. verdicts (trace w') = verdicts (trace w) @ vs \<and> (\<not> ex \<longrightarrow> vs \<noteq> []) \<and> (rc = 0 \<longrightarrow> vouches s cert ex vs)"
proof -
  have "hush w w' \<and> (\<exists>vs. verdicts (trace w') = verdicts (trace w) @ vs \<and> (\<not> ex \<longrightarrow> vs \<noteq> []) \<and>
      (rc = 0 \<longrightarrow> vouches s cert ex vs))"
  proof (cases "ex \<and> castore s \<noteq> 0")
    case False
    then show ?thesis
      using assms verify_chain_with_spec [of A s cert None status w rc status' w']
      by (cases ex) (auto simp: verify_with_def hush_def vouches_def)
  next
    case True
    let ?cfg = "\<lparr>ce_hExclusiveRoot = castore s, ce_dwExclusiveFlags = 1\<rparr>"
    obtain h e where h: "CertCreateChainEngine A ?cfg (env w) = (h, e)" by fastforce
    show ?thesis
    proof (cases h)
      case None
      then show ?thesis using assms True h by (auto simp: verify_with_def new_engine_def call_def hush_def)
    next
      case (Some k)
      then have v: "verify_chain_with A s cert (Some k) status (emit (Acq REngine) (emit (NewEngine ?cfg h) (w\<lparr>env := e\<rparr>)))
          = ((rc, status'), w')"
        using assms True h by (simp add: verify_with_def new_engine_def call_def)
      show ?thesis using verify_chain_with_spec [OF v] True Some by (auto simp: hush_def vouches_def)
    qed
  qed
  then show "hush w w'"
    and "\<exists>vs. verdicts (trace w') = verdicts (trace w) @ vs \<and> (\<not> ex \<longrightarrow> vs \<noteq> []) \<and> (rc = 0 \<longrightarrow> vouches s cert ex vs)"
    by blast+
qed

lemma verify_chain_spec:
  assumes v: "verify_chain A s status w = ((rc, status'), w')"
  shows "hush w w'"
    and "rc = 0 \<Longrightarrow> \<exists>vs. verdicts (trace w') = verdicts (trace w) @ vs \<and> (if skip_verify s then vs = [] else accepted s vs)"
proof -
  have "hush w w' \<and> (rc = 0 \<longrightarrow>
      (\<exists>vs. verdicts (trace w') = verdicts (trace w) @ vs \<and> (if skip_verify s then vs = [] else accepted s vs)))"
  proof (cases "skip_verify s")
    case True
    then show ?thesis using v by (simp add: verify_chain_def)
  next
    case False
    obtain ss cert e where q: "QueryRemoteCert A (env w) = ((ss, cert), e)" by (metis surj_pair)
    show ?thesis
    proof (cases "ss \<noteq> SEC_E_OK \<or> cert = 0")
      case True
      then show ?thesis using v False q by (auto simp: verify_chain_def remote_cert_def call_def hush_def)
    next
      case c: False
      let ?w1 = "emit (Acq RPeer) (emit (PeerCert ss cert) (w\<lparr>env := e\<rparr>))"
      obtain rc1 st1 w1 where first: "verify_with A s cert (ca_only s) status ?w1 = ((rc1, st1), w1)" by (metis surj_pair)
      obtain us where f: "hush ?w1 w1" "verdicts (trace w1) = verdicts (trace ?w1) @ us" "\<not> ca_only s \<longrightarrow> us \<noteq> []"
          "rc1 = 0 \<longrightarrow> vouches s cert (ca_only s) us"
        using verify_with_spec [OF first] by blast
      obtain rc2 st2 w2 where second: "verify_with A s cert True st1 w1 = ((rc2, st2), w2)" by (metis surj_pair)
      obtain bs where g: "hush w1 w2" "verdicts (trace w2) = verdicts (trace w1) @ bs" "rc2 = 0 \<longrightarrow> vouches s cert True bs"
        using verify_with_spec [OF second] by blast
      have res: "((rc, status'), w') = (if \<not> ca_only s \<and> rc1 \<noteq> 0 \<and> castore s \<noteq> 0
          then ((rc2, st2), emit (Rel RPeer) w2) else ((rc1, st1), emit (Rel RPeer) w1))"
        using v False c q first second by (cases "ca_only s") (auto simp: verify_chain_def remote_cert_def call_def)
      show ?thesis
      proof (cases "\<not> ca_only s \<and> rc1 \<noteq> 0 \<and> castore s \<noteq> 0")
        case True
        then have "rc = 0 \<longrightarrow> accepted s (PeerCert ss cert # us @ bs)"
          using res f(3) g(3) c unfolding accepted_def by (intro impI exI [of _ cert] exI [of _ us] exI [of _ True] exI [of _ bs]) auto
        then show ?thesis using True res f(1,2) g(1,2) False by (auto simp: hush_def)
      next
        case no: False
        then have "rc = 0 \<longrightarrow> accepted s (PeerCert ss cert # [] @ us)"
          using res f(4) c unfolding accepted_def
          by (intro impI exI [of _ cert] exI [of _ "[]"] exI [of _ "ca_only s"] exI [of _ us]) auto
        then show ?thesis using no res f(1,2) False by (auto simp: hush_def)
      qed
    qed
  qed
  then show "hush w w'"
    and "rc = 0 \<Longrightarrow> \<exists>vs. verdicts (trace w') = verdicts (trace w) @ vs \<and> (if skip_verify s then vs = [] else accepted s vs)"
    by blast+
qed

section \<open>Teardown\<close>

lemma free_state_spec:
  "live r (trace (free_state s w)) = live r (trace w) - held r s" "oob (free_state s w) = oob w"
  "plain_of (trace (free_state s w)) = plain_of (trace w)" "sealed_of (trace (free_state s w)) = sealed_of (trace w)"
  by (simp_all add: free_state_def free_buf_def Let_def held_def split: sc_res.split)

lemma close_notify_quiet:
  assumes "win_ok A" and c: "close_notify A s w = Some w'"
  shows "quiet w w'"
proof -
  obtain ss e where ss: "ApplyShutdownToken A (env w) = (ss, e)" by fastforce
  obtain q e2 where q: "InitializeSecurityContextW A True None False None e = (q, e2)" by fastforce
  let ?w1 = "acquire_token (isc_token q) (w\<lparr>env := e2\<rparr>)"
  consider "w' = w\<lparr>env := e\<rparr>" | "w' = release_token (isc_token q) ?w1"
    | rc w2 where "sock_send_all A s (contents (isc_token q)) ?w1 = Some (rc, w2)" "w' = release_token (isc_token q) w2"
    using c ss q by (auto simp: close_notify_def call_def bind_eq_Some_conv Let_def split: if_splits)
  then show ?thesis
  proof cases
    case 3
    from sock_send_all_quiet [OF assms(1) 3(1)] show ?thesis by (simp add: 3(2) quiet_def token_live)
  qed (auto simp: quiet_def token_live)
qed

lemma https_sc_close_spec:
  assumes ok: "win_ok A" and c: "https_sc_close A (Some s) w = Some w'"
  shows "oob w' = oob w"
    and "live r (trace w') = live r (trace w) - held r s - (if r = RStore \<and> castore s \<noteq> 0 then 1 else 0)"
proof -
  obtain w1 where w1: "quiet w w1"
      and w': "w' = free_state s (if castore s \<noteq> 0 then emit (Rel RStore) w1 else w1)"
  proof (cases "have_ctx s \<and> have_cred s")
    case True
    obtain t w0 where t: "now_ns A w = (t, w0)" by fastforce
    have w0: "quiet w w0" using t by (auto simp: now_ns_def call_def quiet_def split: prod.splits)
    obtain w1 where n: "close_notify A (s\<lparr>deadline_ns := t + SC_SHUTDOWN_NS\<rparr>) w0 = Some w1"
      using c True t by (auto simp: https_sc_close_def bind_eq_Some_conv)
    from quiet_trans [OF w0 close_notify_quiet [OF ok n]] show thesis
      using that [of w1] c True t n by (simp add: https_sc_close_def)
  next
    case False
    then show thesis using that [of w] c by (auto simp: https_sc_close_def)
  qed
  show "oob w' = oob w"
    and "live r (trace w') = live r (trace w) - held r s - (if r = RStore \<and> castore s \<noteq> 0 then 1 else 0)"
    using w1 by (simp_all add: w' free_state_spec quiet_def)
qed

section \<open>Setup\<close>

text \<open>A step of the setup, before the connection has its buffers: the accounts stay level.\<close>

definition level :: "https_sc \<Rightarrow> 'w sio \<Rightarrow> https_sc \<Rightarrow> 'w sio \<Rightarrow> bool" where
  "level s w s' w' \<longleftrightarrow> oob w' = oob w \<and> (\<forall>r. balance r s' w' = balance r s w)"

lemma level_trans: "level s w s' w' \<Longrightarrow> level s' w' s'' w'' \<Longrightarrow> level s w s'' w''"
  by (simp add: level_def)

lemma kept_level: "kept s w s' w' \<Longrightarrow> level s w s' w'"
  by (simp add: level_def kept_def)

lemma hush_level: "hush w w' \<Longrightarrow> level s w s w'"
  by (simp add: level_def hush_def balance_def)

text \<open>Where the name the policy checks comes from: Windows converted the caller's host name.\<close>

definition named :: "string \<Rightarrow> https_sc \<Rightarrow> sc_ev list \<Rightarrow> bool" where
  "named host s vs \<longleftrightarrow> (\<exists>len x n wide. 0 < len \<and> 0 < n \<and> hostw s = Some wide \<and>
     vs = [Wide host None len x, Wide host (Some (nat len)) n wide])"

lemma set_host_spec:
  assumes "set_host A s host w = (early, s', w')" and "hostw s = None"
  shows "level s w s' w'" and "\<exists>h. s' = s\<lparr>hostw := h\<rparr>" and "early \<noteq> Some HTTPS_SC_OK"
    and "early = None \<Longrightarrow> \<exists>vs. verdicts (trace w') = verdicts (trace w) @ vs \<and> named host s' vs"
proof -
  obtain wlen x e where c1: "MultiByteToWideChar A host None (env w) = ((wlen, x), e)" by (metis surj_pair)
  obtain m e2 where c2: "malloc_ok A (nat wlen * 2) e = (m, e2)" by fastforce
  obtain n wide e3 where c3: "MultiByteToWideChar A host (Some (nat wlen)) e2 = ((n, wide), e3)" by (metis surj_pair)
  have "level s w s' w' \<and> (\<exists>h. s' = s\<lparr>hostw := h\<rparr>) \<and> early \<noteq> Some HTTPS_SC_OK \<and>
      (early = None \<longrightarrow> (\<exists>vs. verdicts (trace w') = verdicts (trace w) @ vs \<and> named host s' vs))"
  proof (cases "wlen \<le> 0 \<or> \<not> m")
    case True
    have "s = s\<lparr>hostw := hostw s\<rparr>" by simp
    then show ?thesis using assms True c1 c2
      by (auto simp: set_host_def to_wide_def call_def level_def balance_def sc_codes split: if_splits intro!: exI [of _ "hostw s"])
  next
    case False
    then have "s' = s\<lparr>hostw := Some wide\<rparr>" "oob w' = oob w"
        "trace w' = trace w @ [Wide host None wlen x, Acq RHost, Wide host (Some (nat wlen)) n wide]"
        "early = (if n \<le> 0 then Some HTTPS_SC_ERR_SETUP else None)"
      using assms c1 c2 c3 by (auto simp: set_host_def to_wide_def call_def Let_def split: if_splits)
    then show ?thesis using assms(2) False by (auto simp: level_def balance_def held_bufs sc_codes named_def)
  qed
  then show "level s w s' w'" and "\<exists>h. s' = s\<lparr>hostw := h\<rparr>" and "early \<noteq> Some HTTPS_SC_OK"
    and "early = None \<Longrightarrow> \<exists>vs. verdicts (trace w') = verdicts (trace w) @ vs \<and> named host s' vs" by blast+
qed

lemma acquire_cred_spec:
  assumes "acquire_cred A s v w = (ss, s', w')" and "\<not> have_cred s"
  shows "level s w s' w'" and "s' = s\<lparr>have_cred := (ss = SEC_E_OK)\<rparr>" and "verdicts (trace w') = verdicts (trace w)"
proof -
  obtain s1 e1 where c1: "AcquireCredentialsHandleW A (Modern (modern_cred s v)) (env w) = (s1, e1)" by fastforce
  obtain s2 e2 where c2: "AcquireCredentialsHandleW A (Legacy (legacy_cred s v)) e1 = (s2, e2)" by fastforce
  have upd: "s = s\<lparr>have_cred := False\<rparr>" using assms(2) by (cases s) simp
  have "level s w s' w' \<and> s' = s\<lparr>have_cred := (ss = SEC_E_OK)\<rparr> \<and> verdicts (trace w') = verdicts (trace w)"
    using assms c1 c2 upd
    by (auto simp: acquire_cred_def call_def level_def balance_def held_bufs split: if_splits)
  then show "level s w s' w'" and "s' = s\<lparr>have_cred := (ss = SEC_E_OK)\<rparr>" and "verdicts (trace w') = verdicts (trace w)"
    by blast+
qed

text \<open>The sizes Schannel reports: a record carries something, and its parts together are an \<open>int\<close>.\<close>

definition sizes_ok :: "'w winapi \<Rightarrow> bool" where
  "sizes_ok A \<longleftrightarrow> (\<forall>w ss sz w'. QueryStreamSizes A w = ((ss, sz), w') \<longrightarrow> ss = SEC_E_OK \<longrightarrow>
     0 < cbMaximumMessage sz \<and> cbHeader sz + cbMaximumMessage sz + cbTrailer sz \<le> 2147483647)"

lemma long32_id: "0 \<le> x \<Longrightarrow> x \<le> 2147483647 \<Longrightarrow> long32 x = x"
  unfolding long32_def by transfer (simp add: signed_take_bit_int_eq_self)

lemma finish_setup_spec:
  assumes inv: "sc_inv s" and out: "sc_out s = None" and sz: "sizes_ok A"
    and f: "finish_setup A s status w = ((rc, st), s', w')"
  shows "level s w s' w'"
    and "rc = HTTPS_SC_OK \<Longrightarrow> sc_inv s' \<and> out_inv s' \<and> 0 < cbMaximumMessage (sizes s') \<and> deadline_ns s' = 0 \<and>
      have_ctx s' = have_ctx s \<and> have_cred s' = have_cred s \<and> castore s' = castore s \<and> ca_only s' = ca_only s \<and>
      hostw s' = hostw s \<and> skip_verify s' = skip_verify s \<and> pending s' = pending s \<and> verdicts (trace w') = verdicts (trace w)"
proof -
  obtain ss z e where q: "QueryStreamSizes A (env w) = ((ss, z), e)" by (metis surj_pair)
  let ?sum = "cbHeader z + cbMaximumMessage z + cbTrailer z"
  let ?want = "nat (long32 (int ?sum))"
  obtain g b w2 where g: "grow A None ?want 0 SC_ENC_MAX (w\<lparr>env := e\<rparr>) = ((g, b), w2)" by (metis surj_pair)
  have gs: "oob w2 = oob w" "g = 0 \<or> g = - 1" "g = 0 \<Longrightarrow> ?want \<le> buf_cap b"
    "live r (trace w2) = live r (trace w) + (if r = RBuf then of_bool (b \<noteq> None) - of_bool (None \<noteq> (None::bytes option)) else 0)" for r
    using grow_spec [OF _ _ order.refl g] by simp_all
  show "level s w s' w'"
    using f q g out gs(1,4)
    by (auto simp: finish_setup_def call_def level_def balance_def held_bufs Let_def split: if_splits)
  assume "rc = HTTPS_SC_OK"
  then have ok: "ss = SEC_E_OK" "g = 0" "s' = s\<lparr>sizes := z, sc_out := b, deadline_ns := 0\<rparr>" "w' = w2"
    using f q g out by (auto simp: finish_setup_def call_def sc_codes Let_def split: if_splits)
  have z: "0 < cbMaximumMessage z" "?sum \<le> 2147483647" using sz q ok(1) unfolding sizes_ok_def by blast+
  then have want: "?want = ?sum" using long32_id [of "int ?sum"] by linarith
  moreover have "b \<noteq> None" using gs(3) [OF ok(2)] z(1) unfolding want by (cases b) auto
  ultimately show "sc_inv s' \<and> out_inv s' \<and> 0 < cbMaximumMessage (sizes s') \<and> deadline_ns s' = 0 \<and>
      have_ctx s' = have_ctx s \<and> have_cred s' = have_cred s \<and> castore s' = castore s \<and> ca_only s' = ca_only s \<and>
      hostw s' = hostw s \<and> skip_verify s' = skip_verify s \<and> pending s' = pending s \<and> verdicts (trace w') = verdicts (trace w)"
    using inv gs(3) [OF ok(2)] z grow_verdicts [OF g] by (simp add: ok(3,4) sc_inv_def out_inv_def pending_def)
qed

text \<open>A connection that can read and write.\<close>

definition conn_ok :: "https_sc \<Rightarrow> bool" where
  "conn_ok s \<longleftrightarrow> sc_inv s \<and> out_inv s \<and> 0 < cbMaximumMessage (sizes s) \<and> have_ctx s \<and> have_cred s"

lemma accepted_cong:
  "castore s = castore s' \<Longrightarrow> ca_only s = ca_only s' \<Longrightarrow> hostw s = hostw s' \<Longrightarrow> accepted s vs = accepted s' vs"
  by (simp add: accepted_def vouches_def vouched_def)

lemma handshake_run_spec:
  assumes ok: "win_ok A" and sz: "sizes_ok A"
    and s: "enc s = None" "dec s = None" "sc_out s = None" "enc_len s = 0" "dec_len s = 0" "dec_off s = 0"
      "\<not> have_cred s" "\<not> have_ctx s"
    and r: "handshake_run A s v w = Some ((rc, st), s', w')"
  shows "level s w s' w'"
    and "rc = HTTPS_SC_OK \<Longrightarrow> conn_ok s' \<and> pending s' = [] \<and> deadline_ns s' = 0 \<and> castore s' = castore s \<and> ca_only s' = ca_only s \<and>
      hostw s' = hostw s \<and> (\<exists>vs. verdicts (trace w') = verdicts (trace w) @ vs \<and> (if skip_verify s then vs = [] else accepted s vs))"
proof -
  obtain g b w1 where g: "grow A None SC_ENC_INITIAL 0 SC_ENC_MAX w = ((g, b), w1)" by (metis surj_pair)
  let ?s1 = "s\<lparr>enc := b\<rparr>"
  have gs: "oob w1 = oob w" "g = 0 \<or> g = - 1" "buf_cap b \<le> SC_ENC_MAX" "g = 0 \<Longrightarrow> SC_ENC_INITIAL \<le> buf_cap b"
    "live r (trace w1) = live r (trace w) + (if r = RBuf then of_bool (b \<noteq> None) - of_bool (None \<noteq> (None::bytes option)) else 0)" for r
    using grow_spec [OF _ _ order.refl g] by simp_all
  have l1: "level s w ?s1 w1" using gs(1,5) s(1) by (auto simp: level_def balance_def held_bufs)
  have "level s w s' w' \<and> (rc = HTTPS_SC_OK \<longrightarrow> conn_ok s' \<and> pending s' = [] \<and> deadline_ns s' = 0 \<and>
      castore s' = castore s \<and> ca_only s' = ca_only s \<and>
      hostw s' = hostw s \<and> (\<exists>vs. verdicts (trace w') = verdicts (trace w) @ vs \<and> (if skip_verify s then vs = [] else accepted s vs)))"
  proof (cases "g = 0")
    case False
    then show ?thesis using r g s(1) l1 by (auto simp: handshake_run_def sc_codes)
  next
    case True
    obtain ss s2 w2 where a: "acquire_cred A ?s1 v w1 = (ss, s2, w2)" by (metis surj_pair)
    have nc: "\<not> have_cred ?s1" using s(7) by simp
    note as = acquire_cred_spec [OF a nc]
    note l2 = level_trans [OF l1 as(1)]
    show ?thesis
    proof (cases "ss = SEC_E_OK")
      case False
      then show ?thesis using r g True s(1) a l2 by (auto simp: handshake_run_def sc_codes)
    next
      case ssok: True
      then have s2: "s2 = s\<lparr>enc := b, have_cred := True\<rparr>" using as(2) by simp
      have inv2: "sc_inv s2" using gs(3) gs(4) [OF True] s by (simp add: s2 sc_inv_def SC_ENC_INITIAL_def)
      obtain rc3 st3 s3 w3 where h: "do_handshake A s2 0 w2 = Some ((rc3, st3), s3, w3)"
        using r g True s(1) a ssok by (auto simp: handshake_run_def bind_eq_Some_conv)
      note hs = do_handshake_spec [OF ok inv2 h]
      note l3 = level_trans [OF l2 kept_level [OF still_kept [OF hs(1)]]]
      show ?thesis
      proof (cases "rc3 = HTTPS_SC_OK")
        case False
        then show ?thesis using r g True s(1) a ssok h l3 by (auto simp: handshake_run_def)
      next
        case rc3: True
        obtain vrc st4 w4 where v: "verify_chain A s3 st3 w3 = ((vrc, st4), w4)" by (metis surj_pair)
        note vs = verify_chain_spec [OF v]
        note l4 = level_trans [OF l3 hush_level [OF vs(1)]]
        show ?thesis
        proof (cases "vrc = 0")
          case False
          then show ?thesis using r g True s(1) a ssok h rc3 v l4 by (auto simp: handshake_run_def sc_codes)
        next
          case vrc: True
          have f: "finish_setup A s3 st4 w4 = ((rc, st), s', w')"
            using r g True s(1) a ssok h rc3 v vrc by (simp add: handshake_run_def)
          have s3: "sc_out s3 = None" "have_cred s3" "have_ctx s3" "pending s3 = []"
              "skip_verify s3 = skip_verify s" "castore s3 = castore s" "ca_only s3 = ca_only s" "hostw s3 = hostw s"
              "verdicts (trace w3) = verdicts (trace w)"
            using hs rc3 s still_pending [OF hs(1)] grow_verdicts [OF g] as(3)
            by (simp_all add: still_def kept_def s2 cfg_def pending_def slice_def)
          note fs = finish_setup_spec [OF still_inv [OF hs(1)] s3(1) sz f]
          have "accepted s3 x = accepted s x" for x using accepted_cong [of s3 s] s3 by simp
          then show ?thesis using level_trans [OF l4 fs(1)] fs(2) vs(2) [OF vrc] s3
            by (auto simp: conn_ok_def)
        qed
      qed
    qed
  qed
  then show "level s w s' w'"
    and "rc = HTTPS_SC_OK \<Longrightarrow> conn_ok s' \<and> pending s' = [] \<and> deadline_ns s' = 0 \<and> castore s' = castore s \<and> ca_only s' = ca_only s \<and>
      hostw s' = hostw s \<and> (\<exists>vs. verdicts (trace w') = verdicts (trace w) @ vs \<and> (if skip_verify s then vs = [] else accepted s vs))" by blast+
qed

lemma https_sc_handshake_spec:
  assumes ok: "win_ok A" and sz: "sizes_ok A"
    and r: "https_sc_handshake A sk host skip calist caonly v cc timeout w = Some ((rc, h, st), w')"
  shows "oob w' = oob w"
    and "rc \<noteq> HTTPS_SC_OK \<Longrightarrow> h = None \<and> (\<forall>r. live r (trace w') = live r (trace w))"
    and "rc = HTTPS_SC_OK \<Longrightarrow> \<exists>s. h = Some s \<and> conn_ok s \<and> pending s = [] \<and> deadline_ns s = 0 \<and> castore s = calist \<and> ca_only s = caonly \<and>
      (\<forall>r. live r (trace w') = live r (trace w) + held r s) \<and>
      (\<exists>name ns vs. host = Some name \<and> verdicts (trace w') = verdicts (trace w) @ ns @ vs \<and> named name s ns \<and>
         (if skip then vs = [] else accepted s vs))"
proof -
  obtain m e where m: "malloc_ok A 256 (env w) = (m, e)" by fastforce
  obtain dl w1 where dl: "deadline_from A timeout (emit (Acq RState) (w\<lparr>env := e\<rparr>)) = (dl, w1)" by fastforce
  have w1: "trace w1 = trace w @ [Acq RState]" "oob w1 = oob w" using deadline_from_frame [OF dl] by auto
  define s0 where "s0 = new_state sk calist caonly skip cc dl"
  have s0: "enc s0 = None" "dec s0 = None" "sc_out s0 = None" "enc_len s0 = 0" "dec_len s0 = 0" "dec_off s0 = 0"
    "\<not> have_cred s0" "\<not> have_ctx s0" "hostw s0 = None" "castore s0 = calist" "ca_only s0 = caonly" "skip_verify s0 = skip"
    by (simp_all add: s0_def new_state_def)
  have held0: "held r s0 = (if r = RState then 1 else 0)" for r using s0 by (cases r) (auto simp: held_def)
  have bal0: "balance r s0 w1 = live r (trace w)" for r by (simp add: balance_def held0 w1)
  define ok' where "ok' \<longleftrightarrow> (\<exists>s. h = Some s \<and> conn_ok s \<and> pending s = [] \<and> deadline_ns s = 0 \<and> castore s = calist \<and> ca_only s = caonly \<and>
      (\<forall>r. live r (trace w') = live r (trace w) + held r s) \<and>
      (\<exists>name ns vs. host = Some name \<and> verdicts (trace w') = verdicts (trace w) @ ns @ vs \<and> named name s ns \<and>
         (if skip then vs = [] else accepted s vs)))"
  let ?claim = "oob w' = oob w \<and> (rc \<noteq> HTTPS_SC_OK \<longrightarrow> h = None \<and> (\<forall>r. live r (trace w') = live r (trace w))) \<and>
      (rc = HTTPS_SC_OK \<longrightarrow> ok')"
  have freed: ?claim if "level s0 w1 s w2" "h = None" "rc \<noteq> HTTPS_SC_OK" "w' = free_state s w2" for s w2
    using that bal0 w1 by (simp add: level_def balance_def free_state_spec)
  have refl: "level s0 w1 s0 w1" by (simp add: level_def)
  have ?claim
  proof (cases "m \<and> (\<exists>x xs. host = Some (x # xs))")
    case False
    then consider "\<not> m" | "m" "host = None \<or> host = Some []" by (metis list.exhaust option.exhaust)
    then show ?thesis
    proof cases
      case 1
      then show ?thesis using r m by (auto simp: https_sc_handshake_def call_def sc_codes)
    next
      case 2
      then have "h = None" "rc \<noteq> HTTPS_SC_OK" "w' = free_state s0 w1"
        using r m dl by (auto simp: https_sc_handshake_def call_def s0_def sc_codes)
      then show ?thesis by (rule freed [OF refl])
    qed
  next
    case True
    then obtain x xs where host: "m" "host = Some (x # xs)" by blast
    obtain early s1 w2 where sh: "set_host A s0 (x # xs) w1 = (early, s1, w2)" by (metis surj_pair)
    note hs = set_host_spec [OF sh s0(9)]
    show ?thesis
    proof (cases early)
      case (Some c)
      then have "h = None" "rc \<noteq> HTTPS_SC_OK" "w' = free_state s1 w2"
        using r m dl host sh hs(3) by (auto simp: https_sc_handshake_def call_def s0_def)
      then show ?thesis by (rule freed [OF hs(1)])
    next
      case None
      then obtain rc3 st3 s3 w3 where run: "handshake_run A s1 v w2 = Some ((rc3, st3), s3, w3)"
        using r m dl host sh by (auto simp: https_sc_handshake_def call_def s0_def bind_eq_Some_conv)
      have s1: "enc s1 = None" "dec s1 = None" "sc_out s1 = None" "enc_len s1 = 0" "dec_len s1 = 0" "dec_off s1 = 0"
        "\<not> have_cred s1" "\<not> have_ctx s1" "castore s1 = calist" "ca_only s1 = caonly" "skip_verify s1 = skip"
        using hs(2) s0 by auto
      note rs = handshake_run_spec [OF ok sz s1(1-8) run]
      note lv = level_trans [OF hs(1) rs(1)]
      show ?thesis
      proof (cases "rc3 = HTTPS_SC_OK")
        case False
        then have "h = None" "rc \<noteq> HTTPS_SC_OK" "w' = free_state s3 w3"
          using r m dl host sh None run by (auto simp: https_sc_handshake_def call_def s0_def)
        then show ?thesis by (rule freed [OF lv])
      next
        case True
        then have res: "h = Some s3" "rc = HTTPS_SC_OK" "w' = w3"
          using r m dl host sh None run by (auto simp: https_sc_handshake_def call_def s0_def)
        have live3: "live r (trace w3) = live r (trace w) + held r s3" for r
        proof -
          have "balance r s3 w3 = live r (trace w)" using lv bal0 [of r] by (simp add: level_def)
          then show ?thesis by (simp add: balance_def)
        qed
        moreover obtain ns where ns: "verdicts (trace w2) = verdicts (trace w) @ ns" "named (x # xs) s1 ns"
          using hs(4) [OF None] w1 by auto
        moreover have "named (x # xs) s3 ns" using ns(2) rs(2) [OF True] by (simp add: named_def)
        moreover have "accepted s1 y = accepted s3 y" for y using rs(2) [OF True] accepted_cong [of s1 s3] by simp
        moreover obtain vs where "verdicts (trace w3) = verdicts (trace w2) @ vs" "if skip then vs = [] else accepted s1 vs"
          using rs(2) [OF True] s1(11) by blast
        ultimately have "\<exists>name ns vs. host = Some name \<and> verdicts (trace w3) = verdicts (trace w) @ ns @ vs \<and>
            named name s3 ns \<and> (if skip then vs = [] else accepted s3 vs)"
          using host by (intro exI [of _ "x # xs"] exI [of _ ns] exI [of _ vs]) auto
        then show ?thesis using rs(2) [OF True] s1 lv w1 live3 by (simp add: ok'_def res level_def)
      qed
    qed
  qed
  then show "oob w' = oob w"
    and "rc \<noteq> HTTPS_SC_OK \<Longrightarrow> h = None \<and> (\<forall>r. live r (trace w') = live r (trace w))"
    and "rc = HTTPS_SC_OK \<Longrightarrow> \<exists>s. h = Some s \<and> conn_ok s \<and> pending s = [] \<and> deadline_ns s = 0 \<and> castore s = calist \<and> ca_only s = caonly \<and>
      (\<forall>r. live r (trace w') = live r (trace w) + held r s) \<and>
      (\<exists>name ns vs. host = Some name \<and> verdicts (trace w') = verdicts (trace w) @ ns @ vs \<and> named name s ns \<and>
         (if skip then vs = [] else accepted s vs))"
    unfolding ok'_def by blast+
qed

end
