(* ===== verification/Schannel_Live.thy ===== *)
theory Schannel_Live
  imports Schannel_Setup
begin

text \<open>
  Progress of the Windows backend: with a Windows that makes progress (\<open>win_live\<close>), every operation
  returns. The measures weigh what the socket can still deliver against the ciphertext that is
  buffered.
\<close>

section \<open>Potential\<close>

definition falls :: "('w \<Rightarrow> nat) \<Rightarrow> https_sc \<Rightarrow> 'w sio \<Rightarrow> https_sc \<Rightarrow> 'w sio \<Rightarrow> bool" where
  "falls \<mu> s w s' w' \<longleftrightarrow> \<mu> (env w') \<le> \<mu> (env w) \<and> \<mu> (env w') + enc_len s' \<le> \<mu> (env w) + enc_len s"

lemma falls_refl [simp]: "falls \<mu> s w s w"
  by (simp add: falls_def)

lemma falls_trans: "falls \<mu> s w s' w' \<Longrightarrow> falls \<mu> s' w' s'' w'' \<Longrightarrow> falls \<mu> s w s'' w''"
  by (simp add: falls_def)

lemma grow_calm: "win_live A \<mu> \<Longrightarrow> grow A b want used limit w = (r, w') \<Longrightarrow> \<mu> (env w') \<le> \<mu> (env w)"
  by (auto simp: grow_def call_def Let_def split: if_splits prod.splits option.splits dest: calmD [OF win_live_calm(3)])

lemma enc_room_falls: "win_live A \<mu> \<Longrightarrow> enc_room A s w = (rc, s', w') \<Longrightarrow> falls \<mu> s w s' w'"
  by (auto simp: enc_room_def falls_def Let_def split: if_splits prod.splits dest: grow_calm)

lemma stash_calm: "win_live A \<mu> \<Longrightarrow> stash_plaintext A s data w = (rc, s', w') \<Longrightarrow> \<mu> (env w') \<le> \<mu> (env w)"
  by (auto simp: stash_plaintext_def Let_def split: if_splits prod.splits dest!: grow_calm)

lemma token_env [simp]: "env (acquire_token t w) = env w" "env (release_token t w) = env w"
  by (simp_all add: acquire_token_def release_token_def)

lemma sock_send_all_returns:
  "win_live A \<mu> \<Longrightarrow> win_ok A \<Longrightarrow> \<exists>r w'. sock_send_all A s buf w = Some (r, w') \<and> \<mu> (env w') \<le> \<mu> (env w)"
  unfolding sock_send_all_def by (rule send_loop_returns)

lemma sock_recv_returns:
  assumes "win_live A \<mu>"
  shows "\<exists>n bs s' w'. sock_recv A s len w = Some ((n, bs), s', w') \<and> \<mu> (env w') + length bs \<le> \<mu> (env w)"
proof -
  obtain r w1 where r: "(if deadline_ns s \<noteq> 0 then wait_ready A s False w else Some (0, w)) = Some (r, w1)"
    and le: "\<mu> (env w1) \<le> \<mu> (env w)"
    using wait_ready_returns [OF assms, of s False w] by (cases "deadline_ns s = 0") auto
  obtain d e where d: "recv_rc A (sock s) len (env w1) = (d, e)" by fastforce
  note rv = win_live_recv [OF assms d]
  show ?thesis
    using r d rv le by (auto simp: sock_recv_def call_def Let_def contents_def split: option.splits if_splits)
qed

lemma enc_recv_returns:
  assumes "win_live A \<mu>" and "sc_inv s" and "win_ok A" and "enc_len s < buf_cap (enc s)"
  shows "\<exists>n s' w'. enc_recv A s w = Some (n, s', w') \<and> falls \<mu> s w s' w' \<and>
    (0 < n \<longrightarrow> \<mu> (env w') < \<mu> (env w) \<and> 0 < enc_len s')"
proof -
  obtain n bs s1 w1 where r: "sock_recv A s (buf_cap (enc s) - enc_len s) w = Some ((n, bs), s1, w1)"
    and le: "\<mu> (env w1) + length bs \<le> \<mu> (env w)"
    using sock_recv_returns [OF assms(1)] by blast
  have "0 < buf_cap (enc s) - enc_len s" using assms(4) by simp
  note sp = sock_recv_spec [OF assms(2,3) this r]
  show ?thesis
  proof (cases "0 < n")
    case True
    then show ?thesis using r le sp(4,6) by (cases bs) (simp_all add: enc_recv_def falls_def)
  next
    case False
    have "enc_len s1 = enc_len s" using sp(2) by (elim disjE) simp_all
    then show ?thesis using False r le by (simp add: enc_recv_def falls_def)
  qed
qed

section \<open>The handshake\<close>

definition hs_m :: "('w \<Rightarrow> nat) \<Rightarrow> https_sc \<Rightarrow> bool \<Rightarrow> bool \<Rightarrow> 'w sio \<Rightarrow> nat" where
  "hs_m \<mu> s nr rt w = 4 * \<mu> (env w) + 2 * enc_len s + (if nr then 0 else 1) + (if rt then 0 else 2)"

lemma hs_read_returns:
  assumes "win_live A \<mu>" and "win_ok A" and inv: "sc_inv s"
  obtains early st s' w' where "hs_read A s status w = Some ((early, st), s', w')" and "falls \<mu> s w s' w'"
    and "early = None \<Longrightarrow> hs_m \<mu> s' False rt w' < hs_m \<mu> s True rt w"
proof -
  obtain rc s1 w1 where room: "enc_room A s w = (rc, s1, w1)" by (metis surj_pair)
  note er = enc_room_spec [OF inv room] and f1 = enc_room_falls [OF assms(1) room]
  show thesis
  proof (cases "rc = 0")
    case False
    then show thesis using that [of "Some HTTPS_SC_ERR_ALLOC" status s1 w1] room f1 by (simp add: hs_read_def)
  next
    case True
    obtain n s2 w2 where n: "enc_recv A s1 w1 = Some (n, s2, w2)" "falls \<mu> s1 w1 s2 w2"
        "0 < n \<Longrightarrow> \<mu> (env w2) < \<mu> (env w1)"
      using enc_recv_returns [OF assms(1) still_inv [OF er(1)] assms(2) er(2) [OF True]] by blast
    show thesis
    proof (cases "n < 0 \<or> n = 0")
      case stop: True
      then show thesis using that [of "Some (if n < 0 then sock_class n else HTTPS_SC_ERR_HANDSHAKE)"
          "if n < 0 then status else SEC_E_INCOMPLETE_MESSAGE" s2 w2] room n True falls_trans [OF f1 n(2)]
        by (auto simp: hs_read_def split: if_splits)
    next
      case False
      then show thesis using that [of None status s2 w2] room n True falls_trans [OF f1 n(2)] f1
        by (auto simp: hs_read_def hs_m_def falls_def)
    qed
  qed
qed

lemma if_five:
  "x = (if a then p else if b then q else if c then r else if d then u else v) \<Longrightarrow>
    (a \<and> x = p) \<or> (b \<and> x = q) \<or> (c \<and> x = r) \<or> (d \<and> x = u) \<or> x = v"
  by (auto split: if_splits)

lemma hs_turn_progress:
  assumes live: "win_live A \<mu>" and ok: "win_ok A" and inv: "sc_inv s" and ne: "0 < enc_len s"
  obtains y where "hs_turn A k s status rt w = Some y" and "falls \<mu> s w (fst (snd y)) (snd (snd y))"
    | s' w' nr' rt' where "hs_turn A k s status rt w = k s' status nr' rt' w'" and "falls \<mu> s w s' w'"
        and "sc_inv s'" and "nr' \<or> 0 < enc_len s'" and "hs_m \<mu> s' nr' rt' w' < hs_m \<mu> s False rt w"
proof -
  obtain q e where q: "InitializeSecurityContextW A True None rt (Some (take (enc_len s) (contents (enc s)))) (env w)
      = (q, e)" by fastforce
  have le: "\<mu> e \<le> \<mu> (env w)" by (rule calmD [OF win_live_calm(5) [OF live] q])
  define w1 where "w1 = acquire_token (isc_alert q) (acquire_token (isc_token q) (w\<lparr>env := e\<rparr>))"
  have w1: "env w1 = e" by (simp add: w1_def)
  show thesis
  proof (cases "isc_ss q = SEC_E_INCOMPLETE_MESSAGE")
    case True
    obtain rc s2 w2 where room: "enc_room A s w1 = (rc, s2, w2)" by (cases "enc_room A s w1") auto
    note er = enc_room_spec [OF inv room] and f = enc_room_falls [OF live room]
    have t: "hs_turn A k s status rt w = (if rc \<noteq> 0 then Some ((HTTPS_SC_ERR_ALLOC, status), s2, w2) else k s2 status True rt w2)"
      using True q room by (simp add: hs_turn_def call_def w1_def split del: if_split)
    have f': "falls \<mu> s w s2 w2" using f le w1 by (simp add: falls_def)
    show thesis
    proof (cases "rc = 0")
      case True
      then show thesis
        by (intro that(2) [OF _ f' still_inv [OF er(1)]]) (use t f' er(4) in \<open>auto simp: hs_m_def falls_def\<close>)
    next
      case False
      then show thesis by (intro that(1)) (use t f' in auto)
    qed
  next
    case False
    obtain rc w2 where w2: "(if contents (isc_token q) \<noteq> [] then sock_send_all A s (contents (isc_token q)) w1
        else Some (0, w1)) = Some (rc, w2)" and le2: "\<mu> (env w2) \<le> \<mu> (env w1)"
      using sock_send_all_returns [OF live ok, of s "contents (isc_token q)" w1] by (cases "contents (isc_token q) = []") auto
    define w3 where "w3 = release_token (isc_alert q) (release_token (isc_token q) w2)"
    have f3: "falls \<mu> s w s w3" using le le2 w1 by (simp add: falls_def w3_def)
    obtain s4 w4 where k4: "enc_keep s (isc_extra q) w3 = (s4, w4)" by fastforce
    have ex: "e \<le> enc_len s" if "isc_extra q = Some e" for e
      using win_isc(1) [OF ok q that] by simp
    note ks = enc_keep_spec [OF inv ex k4]
    have env4: "env w4 = env w3" using k4 by (auto simp: enc_keep_def split: option.splits if_splits)
    have le4: "enc_len s4 \<le> enc_len s" using ks(4) ex by (auto split: option.splits)
    have f4: "falls \<mu> s w s4 w4" using f3 le4 env4 by (simp add: falls_def)
    have t: "hs_turn A k s status rt w = (if rc \<noteq> 0 \<and> (isc_ss q = SEC_E_OK \<or> isc_ss q = SEC_I_CONTINUE_NEEDED)
        then Some ((sock_class rc, status), s, w3)
        else if isc_ss q = SEC_I_INCOMPLETE_CREDENTIALS \<and> \<not> rt then k s status False True w3
        else if isc_ss q = SEC_E_OK then Some ((HTTPS_SC_OK, status), s4, w4)
        else if isc_ss q = SEC_I_CONTINUE_NEEDED then k s4 status (enc_len s4 = 0) rt w4
        else Some ((HTTPS_SC_ERR_HANDSHAKE, isc_ss q), s4, w4))"
      using q False w2 k4 [unfolded w3_def]
      by (simp add: hs_turn_def call_def w1_def [symmetric] w3_def Let_def cong: if_cong split del: if_split)
    have lt: "enc_len s4 < enc_len s" if "isc_ss q = SEC_I_CONTINUE_NEEDED"
      using ks(4) win_live_isc [OF live q that] ne inv by (fastforce simp: sc_inv_def buf_cap_contents split: option.splits)
    from if_five [OF t] consider y where "hs_turn A k s status rt w = Some y" "falls \<mu> s w (fst (snd y)) (snd (snd y))"
      | "hs_turn A k s status rt w = k s status False True w3" "\<not> rt"
      | "hs_turn A k s status rt w = k s4 status (enc_len s4 = 0) rt w4" "enc_len s4 < enc_len s"
      using f3 f4 lt by (metis fst_conv snd_conv)
    then show thesis
    proof cases
      case 2
      then show thesis by (intro that(2) [OF _ f3 inv]) (use f3 ne in \<open>auto simp: hs_m_def falls_def\<close>)
    next
      case 3
      then show thesis by (intro that(2) [OF _ f4 still_inv [OF ks(1)]]) (use f4 in \<open>auto simp: hs_m_def falls_def\<close>)
    qed (rule that(1))
  qed
qed

lemma hs_loop_returns:
  assumes live: "win_live A \<mu>" and ok: "win_ok A"
  shows "sc_inv s \<Longrightarrow> nr \<or> 0 < enc_len s \<Longrightarrow>
    \<exists>y. hs_loop A s status nr rt w = Some y \<and> falls \<mu> s w (fst (snd y)) (snd (snd y))"
proof (induction "hs_m \<mu> s nr rt w" arbitrary: s status nr rt w rule: less_induct)
  case less
  obtain early st1 s1 w1 where rd: "(if nr then hs_read A s status w else Some ((None, status), s, w)) = Some ((early, st1), s1, w1)"
    and f1: "falls \<mu> s w s1 w1" and m1: "early = None \<Longrightarrow> hs_m \<mu> s1 False rt w1 \<le> hs_m \<mu> s nr rt w"
  proof (cases nr)
    case True
    then show thesis
      by (rule_tac hs_read_returns [OF live ok less(2), of status w rt]) (rule that, auto intro: less_imp_le)
  next
    case False
    then show thesis by (intro that) auto
  qed
  have s1: "sc_inv s1" "early = None \<Longrightarrow> 0 < enc_len s1"
    using rd hs_read_spec [OF less(2) ok, of status w early st1 s1 w1] less(2,3) by (auto simp: still_def kept_def split: if_splits)
  show ?case
  proof (cases early)
    case (Some rc)
    then show ?thesis using rd f1 by (subst hs_loop_turn) auto
  next
    case None
    then have t: "hs_loop A s status nr rt w = hs_turn A (hs_loop A) s1 st1 rt w1"
      using rd by (subst hs_loop_turn) simp
    show ?thesis
    proof (rule hs_turn_progress [OF live ok s1(1) s1(2) [OF None], of "hs_loop A" st1 rt w1], goal_cases)
      case (1 y)
      then show ?case using t falls_trans [OF f1] by auto
    next
      case (2 s' w' nr' rt')
      have "hs_m \<mu> s' nr' rt' w' < hs_m \<mu> s nr rt w" using 2(5) m1 [OF None] by simp
      from less(1) [OF this 2(3,4), of st1] obtain y where
        "hs_loop A s' st1 nr' rt' w' = Some y" "falls \<mu> s' w' (fst (snd y)) (snd (snd y))" by blast
      then show ?case using t 2(1) falls_trans [OF falls_trans [OF f1 2(2)]] by auto
    qed
  qed
qed

lemma hs_first_returns:
  assumes live: "win_live A \<mu>" and ok: "win_ok A"
  shows "\<exists>early st s' w'. hs_first A s status w = Some ((early, st), s', w') \<and> falls \<mu> s w s' w'"
proof -
  obtain q e where q: "InitializeSecurityContextW A False (hostw s) False None (env w) = (q, e)" by fastforce
  have le: "\<mu> e \<le> \<mu> (env w)" by (rule calmD [OF win_live_calm(5) [OF live] q])
  let ?s1 = "s\<lparr>have_ctx := True\<rparr>" and ?w1 = "emit (Acq RCtx) (acquire_token (isc_token q) (w\<lparr>env := e\<rparr>))"
  obtain rc w2 where s: "sock_send_all A ?s1 (contents (isc_token q)) ?w1 = Some (rc, w2)" "\<mu> (env w2) \<le> \<mu> e"
    using sock_send_all_returns [OF live ok, of ?s1 "contents (isc_token q)" ?w1] by auto
  show ?thesis using q s le by (auto simp: hs_first_def call_def falls_def Let_def)
qed

lemma do_handshake_returns:
  assumes live: "win_live A \<mu>" and ok: "win_ok A" and inv: "sc_inv s"
  shows "\<exists>rc st s' w'. do_handshake A s status w = Some ((rc, st), s', w') \<and> falls \<mu> s w s' w'"
proof (cases "have_ctx s")
  case True
  then show ?thesis
    using hs_loop_returns [OF live ok inv, of "enc_len s = 0" status False w] by (auto simp: do_handshake_def)
next
  case False
  obtain early st1 s1 w1 where f: "hs_first A s status w = Some ((early, st1), s1, w1)" "falls \<mu> s w s1 w1"
    using hs_first_returns [OF live ok] by blast
  note fs = hs_first_spec [OF inv ok False f(1)]
  obtain y where y: "hs_loop A s1 st1 True False w1 = Some y" "falls \<mu> s1 w1 (fst (snd y)) (snd (snd y))"
    using hs_loop_returns [OF live ok still_inv [OF fs(1)], of True st1 False w1] by auto
  show ?thesis
    using False f y falls_trans [OF f(2) y(2)] by (cases y; cases early) (auto simp: do_handshake_def)
qed

section \<open>Reading and writing\<close>

definition rd_m :: "('w \<Rightarrow> nat) \<Rightarrow> https_sc \<Rightarrow> 'w sio \<Rightarrow> nat" where
  "rd_m \<mu> s w = 2 * \<mu> (env w) + enc_len s"

lemma falls_rd_m: "falls \<mu> s w s' w' \<Longrightarrow> rd_m \<mu> s' w' \<le> rd_m \<mu> s w"
  by (simp add: falls_def rd_m_def)

lemma read_next_progress:
  assumes live: "win_live A \<mu>" and ok: "win_ok A" and inv: "sc_inv s" and room: "enc_len s < buf_cap (enc s)"
    and ctx: "have_ctx s" and fresh: "pending s = []"
  obtains y where "read_next A k s buf len 0 status w = Some y"
    | s' w' where "read_next A k s buf len 0 status w = k s' buf len 0 status w'" and "rd_m \<mu> s' w' < rd_m \<mu> s w"
        and "sc_inv s'" and "have_ctx s'" and "pending s' = []"
proof (cases "eof s")
  case True
  then show thesis using that(1) by (simp add: read_next_def read_more_def)
next
  case False
  obtain n s1 w1 where n: "enc_recv A s w = Some (n, s1, w1)" "falls \<mu> s w s1 w1" "0 < n \<Longrightarrow> \<mu> (env w1) < \<mu> (env w)"
    using enc_recv_returns [OF live inv ok room] by blast
  note es = enc_recv_spec [OF inv ok room n(1)]
  show thesis
  proof (cases "0 < n")
    case True
    have "rd_m \<mu> s1 w1 < rd_m \<mu> s w" using n(2) n(3) [OF True] by (simp add: falls_def rd_m_def)
    moreover have "read_next A k s buf len 0 status w = k s1 buf len 0 status w1"
      using False n(1) True by (simp add: read_next_def read_more_def)
    ultimately show thesis using that(2) still_inv [OF es(1)] es(3) ctx still_pending [OF es(1)] fresh by simp
  next
    case stop: False
    show thesis
      by (rule that(1) [of "if n < 0 then ((sock_class n, 0, status, buf), s1, w1) else ((HTTPS_SC_OK, 0, status, buf), s1, w1)"])
         (use False n(1) stop in \<open>auto simp: read_next_def read_more_def\<close>)
  qed
qed

lemma read_record_progress:
  assumes live: "win_live A \<mu>" and ok: "win_ok A" and inv: "sc_inv s" and ctx: "have_ctx s" and fresh: "pending s = []"
    and len: "len \<le> length buf" and b: "\<And>t off n. (t, off, n) \<in> set bs \<Longrightarrow> off + n \<le> enc_len s"
    and x: "\<And>off n. (SECBUFFER_EXTRA, off, n) \<in> set bs \<Longrightarrow> n < enc_len s" and ne: "0 < enc_len s"
  obtains y where "read_record A k s buf len 0 status ss bs w = Some y"
    | s' w' st where "read_record A k s buf len 0 status ss bs w = k s' buf len 0 st w'" and "rd_m \<mu> s' w' < rd_m \<mu> s w"
        and "sc_inv s'" and "have_ctx s'" and "pending s' = []"
proof -
  obtain rc d buf1 s1 w1 where p: "read_plain A s buf len 0 ss (pick SECBUFFER_DATA bs) w = ((rc, d, buf1), s1, w1)"
    by (metis surj_pair)
  from read_plain_spec [OF inv fresh len _ p] b pick_set
  obtain new where ps: "kept s w s1 w1" "rest_same s s1" "d \<le> length new" "buf1 = put buf 0 (take d new)" by metis
  have le1: "\<mu> (env w1) \<le> \<mu> (env w)"
    using p by (auto simp: read_plain_def Let_def split: option.splits if_splits prod.splits dest!: stash_calm [OF live])
  obtain s2 w2 where e: "read_extra s1 (pick SECBUFFER_EXTRA bs) w1 = (s2, w2)" by fastforce
  have "off + n \<le> enc_len s1" if "pick SECBUFFER_EXTRA bs = Some (off, n)" for off n
    using b [OF pick_set [OF that]] ps(2) by (simp add: rest_same_def)
  note xs = read_extra_spec [OF kept_inv [OF ps(1)] this e]
  have lt: "enc_len s2 < enc_len s" using xs(4) x pick_set ne by (fastforce split: option.splits)
  have m2: "rd_m \<mu> s2 w2 < rd_m \<mu> s w" using lt le1 xs(5) by (simp add: rd_m_def)
  obtain rc3 st3 s3 w3 where h: "(if ss = SEC_I_CONTEXT_EXPIRED then Some ((HTTPS_SC_OK, status), s2\<lparr>eof := True\<rparr>, w2)
      else if ss = SEC_I_RENEGOTIATE then do_handshake A s2 status w2
      else Some ((HTTPS_SC_OK, status), s2, w2)) = Some ((rc3, st3), s3, w3)" and m3: "rd_m \<mu> s3 w3 \<le> rd_m \<mu> s2 w2"
  proof (cases "ss = SEC_I_RENEGOTIATE \<and> ss \<noteq> SEC_I_CONTEXT_EXPIRED")
    case True
    then show thesis
      using that do_handshake_returns [OF live ok still_inv [OF xs(1)], of status w2] falls_rd_m by fastforce
  next
    case False
    then show thesis
      using that [of HTTPS_SC_OK status "if ss = SEC_I_CONTEXT_EXPIRED then s2\<lparr>eof := True\<rparr> else s2" w2]
      by (auto simp: rd_m_def)
  qed
  have ctx2: "have_ctx s2" using xs(2) ps(2) ctx by (simp add: rest_same_def)
  have h3: "still s2 w2 s3 w3" "have_ctx s3"
    using h do_handshake_spec [OF ok still_inv [OF xs(1)], of status w2 rc3 st3 s3 w3] ctx2
      still_eof [OF still_inv [OF xs(1)] quiet_refl, of w2] still_refl [OF still_inv [OF xs(1)], of w2]
    by (auto split: if_splits)
  have t: "read_record A k s buf len 0 status ss bs w =
      (if rc \<noteq> 0 then Some ((HTTPS_SC_ERR_ALLOC, 0, status, buf1), s1, w1)
       else if rc3 \<noteq> HTTPS_SC_OK then Some ((rc3, 0, st3, buf1), s3, w3)
       else if 0 < d \<or> dec_off s3 < dec_len s3 \<or> eof s3 then Some ((HTTPS_SC_OK, d, st3, buf1), s3, w3)
       else k s3 buf1 len d st3 w3)"
    using p e h by (simp add: read_record_def)
  show thesis
  proof (cases "rc \<noteq> 0 \<or> rc3 \<noteq> HTTPS_SC_OK \<or> 0 < d \<or> dec_off s3 < dec_len s3 \<or> eof s3")
    case True
    then have "\<exists>y. read_record A k s buf len 0 status ss bs w = Some y" unfolding t by auto
    then show thesis using that(1) by blast
  next
    case False
    then have "pending s3 = []" "d = 0" using pending_less [OF still_inv [OF h3(1)]] by auto
    then show thesis using that(2) [of s3 st3 w3] False m2 m3 still_inv [OF h3(1)] h3(2) ps(4) by (simp add: t put_def)
  qed
qed

lemma read_loop_returns:
  assumes live: "win_live A \<mu>" and ok: "win_ok A" and len: "len \<le> length buf"
  shows "sc_inv s \<Longrightarrow> have_ctx s \<Longrightarrow> pending s = [] \<Longrightarrow> \<exists>y. read_loop A s buf len 0 status w = Some y"
proof (induction "rd_m \<mu> s w" arbitrary: s status w rule: less_induct)
  case less
  have nxt: "\<exists>y. read_next A (read_loop A) s1 buf len 0 status w1 = Some y"
    if "sc_inv s1" "have_ctx s1" "pending s1 = []" "enc_len s1 < buf_cap (enc s1)" "rd_m \<mu> s1 w1 \<le> rd_m \<mu> s w" for s1 w1
  proof (rule read_next_progress [OF live ok that(1,4,2,3), of "read_loop A" buf len status w1], goal_cases)
    case (2 s' w')
    then show ?case using less(1) [of s' w' status] that(5) by auto
  qed auto
  obtain ss e bs x where d: "DecryptMessage A (contents (enc s)) (enc_len s) (env w) = ((ss, e, bs), x)" by (metis surj_pair)
  let ?s1 = "s\<lparr>enc := Some e\<rparr>" and ?w1 = "w\<lparr>env := x\<rparr>"
  obtain rc s2 w2 where room: "enc_room A ?s1 ?w1 = (rc, s2, w2)" by (metis surj_pair)
  have body: "read_loop A s buf len 0 status w = (if 0 < enc_len s then
       if ss = SEC_E_OK \<or> ss = SEC_I_RENEGOTIATE \<or> ss = SEC_I_CONTEXT_EXPIRED
       then read_record A (read_loop A) ?s1 buf len 0 status ss bs ?w1
       else if ss \<noteq> SEC_E_INCOMPLETE_MESSAGE then Some ((HTTPS_SC_ERR_IO, 0, ss, buf), ?s1, ?w1)
       else if rc \<noteq> 0 then Some ((HTTPS_SC_ERR_ALLOC, 0, status, buf), s2, w2)
            else read_next A (read_loop A) s2 buf len 0 status w2
     else read_next A (read_loop A) s buf len 0 status w)"
    by (subst read_loop_body) (simp only: call_def d Let_def prod.case room)
  show ?case
  proof (cases "0 < enc_len s")
    case False
    then show ?thesis using body nxt [of s w] less(2-4) by (simp add: sc_inv_def)
  next
    case True
    have st1: "still s w ?s1 ?w1" by (rule kept_set_enc [OF less(2) win_decrypt(1) [OF ok d]])
    have le: "\<mu> x \<le> \<mu> (env w)" by (rule calmD [OF win_live_calm(6) [OF live] d])
    note inv1 = still_inv [OF st1]
    have pl1: "pending ?s1 = []" "have_ctx ?s1" using less(3,4) still_pending [OF st1] by auto
    have m1: "rd_m \<mu> ?s1 ?w1 \<le> rd_m \<mu> s w" using le by (simp add: rd_m_def)
    note er = enc_room_spec [OF inv1 room]
    have m2: "rd_m \<mu> s2 w2 \<le> rd_m \<mu> s w" using falls_rd_m [OF enc_room_falls [OF live room]] m1 by simp
    have "\<exists>y. read_record A (read_loop A) ?s1 buf len 0 status ss bs ?w1 = Some y"
    proof (rule read_record_progress [OF live ok inv1 pl1(2,1) len, of bs "read_loop A" status ss ?w1], goal_cases)
      case (1 t off n)
      then show ?case using win_decrypt(2) [OF ok d] by simp
    next
      case (2 off n)
      then show ?case using win_live_decrypt [OF live d _ True] by simp
    next
      case (5 s' w' st)
      then show ?case using less(1) [of s' w' st] m1 by auto
    qed (use True in auto)
    moreover have "rc = 0 \<Longrightarrow> \<exists>y. read_next A (read_loop A) s2 buf len 0 status w2 = Some y"
      using nxt [OF still_inv [OF er(1)] _ _ _ m2] er(2,7) still_pending [OF er(1)] pl1 by simp
    ultimately show ?thesis unfolding body using True by (auto split: if_splits)
  qed
qed

lemma write_loop_returns:
  assumes live: "win_live A \<mu>" and ok: "win_ok A"
  shows "out_inv s \<Longrightarrow> 0 < cbMaximumMessage (sizes s) \<Longrightarrow> \<exists>y. write_loop A s buf sent w = Some y"
proof (induction "length buf - sent" arbitrary: s sent w rule: less_induct)
  case less
  show ?case
  proof (cases "sent < length buf")
    case False
    then show ?thesis by (subst write_loop.simps) simp
  next
    case True
    define c where "c = (if cbMaximumMessage (sizes s) < length buf - sent then cbMaximumMessage (sizes s) else length buf - sent)"
    have c: "0 < c" using less(3) True by (auto simp: c_def)
    define o1 where "o1 = put (contents (sc_out s)) (cbHeader (sizes s)) (slice buf sent c)"
    define w1 where "w1 = emit (Sealed (slice o1 (cbHeader (sizes s)) c)) (check (fits (contents (sc_out s)) (cbHeader (sizes s)) c \<and>
      fits (contents (sc_out s)) (cbHeader (sizes s) + c) (cbTrailer (sizes s))) w)"
    obtain ss o2 c0 c1 c2 e where en: "EncryptMessage A o1 (cbHeader (sizes s)) c (cbTrailer (sizes s)) (env w)
        = ((ss, o2, c0, c1, c2), e)" by (metis surj_pair)
    let ?s2 = "s\<lparr>sc_out := Some o2\<rparr>" and ?w2 = "check (c0 + c1 + c2 \<le> length o2) (w1\<lparr>env := e\<rparr>)"
    have len: "length o1 = length (contents (sc_out s))"
      using less(2) True by (auto simp: o1_def out_inv_def fits_def slice_def buf_cap_contents c_def)
    have inv: "out_inv ?s2" using less(2) win_encrypt(1) [OF ok en] len by (simp add: out_inv_def buf_cap_contents)
    obtain r w3 where s: "sock_send_all A ?s2 (take (c0 + c1 + c2) o2) ?w2 = Some (r, w3)"
      using sock_send_all_returns [OF live ok] by blast
    have "write_loop A s buf sent w = (if ss \<noteq> SEC_E_OK then Some ((HTTPS_SC_ERR_IO, sent, ss), ?s2, w1\<lparr>env := e\<rparr>)
        else if r \<noteq> 0 then Some ((sock_class r, sent, 0), ?s2, w3) else write_loop A ?s2 buf (sent + c) w3)"
      using True s by (subst write_loop.simps)
        (simp add: c_def [symmetric] w1_def o1_def [symmetric] encrypt_message_def call_def en Let_def)
    moreover have "\<exists>y. write_loop A ?s2 buf (sent + c) w3 = Some y"
      using less(1) [of "sent + c" ?s2 w3] inv less(3) c True by simp
    ultimately show ?thesis by (auto split: if_splits)
  qed
qed

section \<open>The operations\<close>

lemma https_sc_read_returns:
  assumes "win_live A \<mu>" and "win_ok A" and "sc_inv s" and "nat len \<le> length buf"
  shows "\<exists>res s' w'. https_sc_read A (Some s) buf len timeout w = Some (res, Some s', w')"
proof (cases "\<not> have_ctx s \<or> len \<le> 0 \<or> dec_off s < dec_len s")
  case True
  then show ?thesis by (auto simp: https_sc_read_def split: prod.splits)
next
  case False
  obtain dl w0 where dl: "deadline_from A timeout w = (dl, w0)" by fastforce
  have inv: "sc_inv (s\<lparr>deadline_ns := dl\<rparr>)" using assms(3) by (simp add: sc_inv_def)
  have "pending (s\<lparr>deadline_ns := dl\<rparr>) = []" using False assms(3) by (simp add: pending_def slice_def)
  then obtain y where "read_loop A (s\<lparr>deadline_ns := dl\<rparr>) buf (nat len) 0 0 w0 = Some y"
    using read_loop_returns [OF assms(1,2,4) inv, of 0 w0] False by auto
  then show ?thesis using False dl by (cases y) (auto simp: https_sc_read_def split: prod.splits)
qed

lemma https_sc_write_returns:
  assumes "win_live A \<mu>" and "win_ok A" and "out_inv s" and "0 < cbMaximumMessage (sizes s)"
  shows "\<exists>res s' w'. https_sc_write A (Some s) buf len timeout w = Some (res, Some s', w')"
proof (cases "\<not> have_ctx s \<or> len \<le> 0")
  case True
  then show ?thesis by (auto simp: https_sc_write_def)
next
  case False
  obtain dl w0 where dl: "deadline_from A timeout (check (nat len \<le> length buf) w) = (dl, w0)" by fastforce
  have "out_inv (s\<lparr>deadline_ns := dl\<rparr>)" using assms(3) by (simp add: out_inv_def)
  then obtain y where "write_loop A (s\<lparr>deadline_ns := dl\<rparr>) (take (nat len) buf) 0 w0 = Some y"
    using write_loop_returns [OF assms(1,2), of "s\<lparr>deadline_ns := dl\<rparr>"] assms(4) by force
  then show ?thesis using False dl by (cases y) (auto simp: https_sc_write_def)
qed

lemma close_notify_returns:
  assumes "win_live A \<mu>" and "win_ok A"
  shows "\<exists>w'. close_notify A s w = Some w'"
proof -
  obtain ss e where ss: "ApplyShutdownToken A (env w) = (ss, e)" by fastforce
  obtain q e2 where q: "InitializeSecurityContextW A True None False None e = (q, e2)" by fastforce
  obtain r w2 where "sock_send_all A s (contents (isc_token q)) (acquire_token (isc_token q) (w\<lparr>env := e2\<rparr>)) = Some (r, w2)"
    using sock_send_all_returns [OF assms] by blast
  then show ?thesis using ss q by (simp add: close_notify_def call_def Let_def)
qed

lemma https_sc_close_returns:
  assumes "win_live A \<mu>" and "win_ok A"
  shows "\<exists>w'. https_sc_close A h w = Some w'"
proof (cases "\<exists>s. h = Some s \<and> have_ctx s \<and> have_cred s")
  case False
  then show ?thesis by (auto simp: https_sc_close_def split: option.split)
next
  case True
  then obtain s where s: "h = Some s" "have_ctx s" "have_cred s" by blast
  obtain t w1 where t: "now_ns A w = (t, w1)" by fastforce
  obtain w2 where "close_notify A (s\<lparr>deadline_ns := t + SC_SHUTDOWN_NS\<rparr>) w1 = Some w2"
    using close_notify_returns [OF assms] by blast
  then show ?thesis using s t by (simp add: https_sc_close_def)
qed

lemma handshake_run_returns:
  assumes live: "win_live A \<mu>" and ok: "win_ok A"
    and s: "enc s = None" "enc_len s = 0" "dec_len s = 0" "dec_off s = 0" "dec s = None" "\<not> have_cred s"
  shows "\<exists>y. handshake_run A s v w = Some y"
proof -
  obtain g b w1 where g: "grow A None SC_ENC_INITIAL 0 SC_ENC_MAX w = ((g, b), w1)" by (metis surj_pair)
  obtain ss s2 w2 where a: "acquire_cred A (s\<lparr>enc := b\<rparr>) v w1 = (ss, s2, w2)" by (metis surj_pair)
  show ?thesis
  proof (cases "g = 0 \<and> ss = SEC_E_OK")
    case False
    then show ?thesis using g a s(1) by (auto simp: handshake_run_def Let_def)
  next
    case True
    have "SC_ENC_INITIAL \<le> buf_cap b" "buf_cap b \<le> SC_ENC_MAX" using grow_spec [OF _ _ order.refl g] True by simp_all
    moreover have "s2 = s\<lparr>enc := b, have_cred := True\<rparr>" using acquire_cred_spec(2) [OF a] s(6) True by simp
    ultimately have "sc_inv s2" using s by (simp add: sc_inv_def SC_ENC_INITIAL_def)
    then obtain rc st s3 w3 where "do_handshake A s2 0 w2 = Some ((rc, st), s3, w3)"
      using do_handshake_returns [OF live ok] by blast
    then show ?thesis using g a s(1) True by (auto simp: handshake_run_def Let_def split: prod.split) (metis surj_pair)
  qed
qed

lemma https_sc_handshake_returns:
  assumes live: "win_live A \<mu>" and ok: "win_ok A"
  shows "\<exists>y. https_sc_handshake A sk host skip calist caonly v cc timeout w = Some y"
proof -
  obtain m e where m: "malloc_ok A 256 (env w) = (m, e)" by fastforce
  obtain dl w1 where dl: "deadline_from A timeout (emit (Acq RState) (w\<lparr>env := e\<rparr>)) = (dl, w1)" by fastforce
  let ?s0 = "new_state sk calist caonly skip cc dl"
  show ?thesis
  proof (cases host)
    case None
    then show ?thesis using m dl by (simp add: https_sc_handshake_def call_def)
  next
    case (Some x)
    obtain early s1 w2 where sh: "set_host A ?s0 x w1 = (early, s1, w2)" by (metis surj_pair)
    have "hostw ?s0 = None" by (simp add: new_state_def)
    then obtain hw where "s1 = ?s0\<lparr>hostw := hw\<rparr>" using set_host_spec(2) [OF sh] by blast
    then obtain y where "handshake_run A s1 v w2 = Some y"
      using handshake_run_returns [OF live ok, of s1 v w2] by (auto simp: new_state_def)
    then show ?thesis using m dl sh Some
      by (cases y; cases early) (auto simp: https_sc_handshake_def call_def Let_def split: prod.split)
  qed
qed

end
