(* ===== verification/Schannel_Session.thy ===== *)
theory Schannel_Session
  imports Schannel_Live
begin

text \<open>
  The Windows backend as its Go caller uses it: a handshake, any sequence of reads and writes, a
  close. The step relation is one read or write that returned; its invariant carries the memory
  safety, the accounts of resources and the byte stream. \<open>demo\<close> is a small Windows that has the
  properties the claims assume.
\<close>

section \<open>Steps\<close>

text \<open>A state is the connection, the world, the bytes the caller was given so far, and whether an
  allocation failure has been reported by a read.\<close>

type_synonym 'w session = "https_sc \<times> 'w sio \<times> bytes \<times> bool"

inductive sc_step :: "'w winapi \<Rightarrow> 'w session \<Rightarrow> 'w session \<Rightarrow> bool" for A where
  Read: "0 < len \<Longrightarrow> nat len \<le> length buf \<Longrightarrow>
    https_sc_read A (Some s) buf len t w = Some ((rc, n, st, buf'), Some s', w') \<Longrightarrow>
    sc_step A (s, w, got, lost) (s', w', got @ take n buf', lost \<or> rc = HTTPS_SC_ERR_ALLOC)"
| Write: "0 < len \<Longrightarrow> nat len \<le> length buf \<Longrightarrow>
    https_sc_write A (Some s) buf len t w = Some ((rc, n, st), Some s', w') \<Longrightarrow>
    sc_step A (s, w, got, lost) (s', w', got, lost)"

inductive_cases sc_stepE: "sc_step A x y"

text \<open>What every step keeps, with respect to the state the session started in.\<close>

definition sess_inv :: "'w session \<Rightarrow> 'w session \<Rightarrow> bool" where
  "sess_inv = (\<lambda>(s0, w0, got0, lost0) (s, w, got, lost).
     conn_ok s \<and> castore s = castore s0 \<and> oob w = oob w0 \<and> (\<forall>r. balance r s w = balance r s0 w0) \<and>
     (\<not> lost \<longrightarrow> (\<exists>new. plain_of (trace w) = plain_of (trace w0) @ new \<and> got0 @ pending s0 @ new = got @ pending s)))"

lemma put_drop_take: "length buf' = length buf \<Longrightarrow> n \<le> length buf \<Longrightarrow> length (take n buf') = n"
  by simp

lemma https_sc_write_spec:
  assumes ok: "win_ok A" and out: "out_inv s" and ctx: "have_ctx s" and len: "0 < len" "nat len \<le> length buf"
    and r: "https_sc_write A (Some s) buf len t w = Some (res, h, w')"
  obtains s' d where "h = Some s'" and "write_post (s\<lparr>deadline_ns := d\<rparr>) (take (nat len) buf) 0 w (res, s', w')"
proof -
  obtain dl w0 where dl: "deadline_from A t (check (nat len \<le> length buf) w) = (dl, w0)" by fastforce
  obtain s' where wl: "write_loop A (s\<lparr>deadline_ns := dl\<rparr>) (take (nat len) buf) 0 w0 = Some (res, s', w')" and h: "h = Some s'"
    using r ctx len dl by (auto simp: https_sc_write_def bind_eq_Some_conv)
  have "out_inv (s\<lparr>deadline_ns := dl\<rparr>)" using out by (simp add: out_inv_def)
  from write_loop_spec [OF wl ok this]
  have "write_post (s\<lparr>deadline_ns := dl\<rparr>) (take (nat len) buf) 0 w0 (res, s', w')" by simp
  then have "write_post (s\<lparr>deadline_ns := dl\<rparr>) (take (nat len) buf) 0 w (res, s', w')"
    using deadline_from_frame [OF dl] len by (simp add: write_post_def split: prod.splits)
  with h show thesis by (rule that)
qed

lemma write_keeps:
  assumes "conn_ok s" and "write_post (s\<lparr>deadline_ns := d\<rparr>) buf 0 w (res, s', w')"
  shows "conn_ok s'" "castore s' = castore s" "oob w' = oob w" "balance r s' w' = balance r s w"
    "plain_of (trace w') = plain_of (trace w)" "pending s' = pending s"
proof -
  have p: "s' = s\<lparr>deadline_ns := d, sc_out := sc_out s'\<rparr>" "buf_cap (sc_out s') = buf_cap (sc_out s)"
      "sc_out s' = None \<longleftrightarrow> sc_out s = None" "oob w' = oob w" "plain_of (trace w') = plain_of (trace w)"
      "live r (trace w') = live r (trace w)"
    using assms(2) by (auto simp: write_post_def split: prod.splits)
  have f: "enc s' = enc s" "enc_len s' = enc_len s" "dec s' = dec s" "dec_len s' = dec_len s" "dec_off s' = dec_off s"
      "have_ctx s' = have_ctx s" "have_cred s' = have_cred s" "sizes s' = sizes s" "castore s' = castore s"
      "hostw s' = hostw s"
    by (subst p(1), simp)+
  show "conn_ok s'" using assms(1) p(2,3) f by (simp add: conn_ok_def sc_inv_def out_inv_def)
  have "held r s' = held r s" by (subst p(1)) (simp add: held_bufs p(3))
  then show "balance r s' w' = balance r s w" using p(6) by (simp add: balance_def)
  show "castore s' = castore s" "oob w' = oob w" "plain_of (trace w') = plain_of (trace w)" "pending s' = pending s"
    using p(4,5) f by (simp_all add: pending_def)
qed

lemma read_keeps:
  assumes c: "conn_ok s" and k: "kept s w s' w'" "have_ctx s'"
  shows "conn_ok s'" "castore s' = castore s" "oob w' = oob w" "balance r s' w' = balance r s w"
  using assms by (simp_all add: conn_ok_def kept_def out_inv_def cfg_def)

lemma sess_inv_step:
  assumes ok: "win_ok A" and inv: "sess_inv x0 x" and st: "sc_step A x y"
  shows "sess_inv x0 y"
  using st
proof cases
  case (Read len buf s t w rc n st buf' s' w' got lost)
  obtain s0 w0 got0 lost0 where x0: "x0 = (s0, w0, got0, lost0)" by (cases x0)
  have c: "conn_ok s" "castore s = castore s0" "oob w = oob w0" "balance r s w = balance r s0 w0"
      "\<not> lost \<Longrightarrow> \<exists>new. plain_of (trace w) = plain_of (trace w0) @ new \<and> got0 @ pending s0 @ new = got @ pending s" for r
    using inv by (auto simp: sess_inv_def x0 Read(1))
  have "sc_inv s" "have_ctx s" using c(1) by (simp_all add: conn_ok_def)
  from https_sc_read_spec [OF ok this Read(3-5)]
  have rs: "read_stream s buf (nat len) w ((rc, n, st, buf'), s', w')" by auto
  then obtain new where new: "plain_of (trace w') = plain_of (trace w) @ new"
      "rc = HTTPS_SC_OK \<Longrightarrow> pending s @ new = take n buf' @ pending s'" "rc \<noteq> HTTPS_SC_OK \<Longrightarrow> n = 0"
      "rc \<noteq> HTTPS_SC_OK \<Longrightarrow> rc \<noteq> HTTPS_SC_ERR_ALLOC \<Longrightarrow> pending s' = pending s @ new"
    by (auto simp: read_stream_def)
  note k = read_keeps [OF c(1), of w s' w']
  have kk: "kept s w s' w'" "have_ctx s'" using rs by (auto simp: read_stream_def)
  have str: "pending s @ new = take n buf' @ pending s'" if "rc \<noteq> HTTPS_SC_ERR_ALLOC"
    using new(2-4) that by (cases "rc = HTTPS_SC_OK") auto
  have "\<exists>nw. plain_of (trace w') = plain_of (trace w0) @ nw \<and> got0 @ pending s0 @ nw = (got @ take n buf') @ pending s'"
    if nl: "\<not> lost" "rc \<noteq> HTTPS_SC_ERR_ALLOC"
  proof -
    obtain nw where "plain_of (trace w) = plain_of (trace w0) @ nw" "got0 @ pending s0 @ nw = got @ pending s"
      using c(5) [OF nl(1)] by blast
    then show ?thesis using new(1) str [OF nl(2)] by (intro exI [of _ "nw @ new"]) (simp, metis append.assoc)
  qed
  then show ?thesis using k [OF kk] c(2-4) by (simp add: sess_inv_def x0 Read(2))
next
  case (Write len buf s t w rc n st s' w' got lost)
  obtain s0 w0 got0 lost0 where x0: "x0 = (s0, w0, got0, lost0)" by (cases x0)
  have c: "conn_ok s" using inv by (auto simp: sess_inv_def x0 Write(1))
  then have o: "out_inv s" "have_ctx s" by (simp_all add: conn_ok_def)
  from https_sc_write_spec [OF ok o Write(3-5)] obtain d
    where "write_post (s\<lparr>deadline_ns := d\<rparr>) (take (nat len) buf) 0 w ((rc, n, st), s', w')" by auto
  from write_keeps [OF c this] inv show ?thesis by (auto simp: sess_inv_def x0 Write(1,2))
qed

lemma sess_inv_reach:
  assumes "win_ok A" and "(sc_step A)\<^sup>*\<^sup>* x y" and "sess_inv x x"
  shows "sess_inv x y"
  using assms(2,3) by (induction rule: rtranclp_induct) (auto intro: sess_inv_step [OF assms(1)])

lemma sess_inv_start: "conn_ok s \<Longrightarrow> sess_inv (s, w, got, False) (s, w, got, False)"
  by (simp add: sess_inv_def)

section \<open>A small Windows\<close>

text \<open>The world is what the peer still sends, in the clear: a socket that delivers at most eight bytes at a
  time, records that are the bytes themselves, a handshake of one message each way, a peer whose
  certificate is trusted.\<close>

definition demo :: "bytes winapi" where
  "demo = \<lparr>GetTickCount64 = (\<lambda>w. (0, w)), select_rc = (\<lambda>sk f tv w. (1, w)), WSAGetLastError = (\<lambda>w. 0),
     GetLastError = (\<lambda>w. 0), recv_rc = (\<lambda>sk n w. (Some (take (min n 8) w), drop (min n 8) w)),
     send_rc = (\<lambda>sk bs w. (int (length bs), w)), malloc_ok = (\<lambda>n w. (True, w)), heap_garbage = (\<lambda>w i. 0),
     CertOpenStore = (\<lambda>w. (1, w)), CertAddEncodedCertificateToStore = (\<lambda>h d w. (True, w)),
     CryptDecodePrivateKeyInfo = (\<lambda>d w. (Some (Some szOID_RSA_RSA, d), w)),
     CertCreateCertificateContext = (\<lambda>d w. (1, w)), CryptDecodeRsaPrivateKey = (\<lambda>d w. (Some d, w)),
     NCryptOpenStorageProvider = (\<lambda>w. ((0, 1), w)), NCryptImportKey = (\<lambda>p b w. ((0, 1), w)),
     CertSetKeyProperty = (\<lambda>c k w. (True, w)), AcquireCredentialsHandleW = (\<lambda>c w. (SEC_E_OK, w)),
     CertVerifyPolicy = (\<lambda>h c w. (Some 0, w)), CertCreateChainEngine = (\<lambda>c w. (Some 1, w)),
     CertGetChain = (\<lambda>e c st w. (Some 1, w)), TrustErrorStatus = (\<lambda>c w. 0),
     QueryRemoteCert = (\<lambda>w. ((SEC_E_OK, 1), w)),
     QueryStreamSizes = (\<lambda>w. ((SEC_E_OK, \<lparr>cbHeader = 1, cbTrailer = 1, cbMaximumMessage = 4\<rparr>), w)),
     MultiByteToWideChar = (\<lambda>h n w. ((int (length h) + 1, map of_char h @ [0]), w)),
     InitializeSecurityContextW = (\<lambda>c h f i w. (\<lparr>isc_ss = (if c then SEC_E_OK else SEC_I_CONTINUE_NEEDED),
        isc_token = (if c then None else Some [1]), isc_alert = None, isc_extra = None\<rparr>, w)),
     DecryptMessage = (\<lambda>b n w. ((SEC_E_OK, b, [(SECBUFFER_DATA, 0, n)]), w)),
     EncryptMessage = (\<lambda>b h c t w. ((SEC_E_OK, b, h, c, t), w)),
     ApplyShutdownToken = (\<lambda>w. (SEC_E_OK, w))\<rparr>"

lemma demo_ok: "win_ok demo"
  unfolding win_ok_def recv_ok_def send_ok_def isc_ok_def decrypt_ok_def encrypt_ok_def
  by (auto simp: demo_def sec_codes)

lemma demo_live: "win_live demo length"
  unfolding win_live_def calm_def by (auto simp: demo_def sec_codes)

lemma demo_sizes: "sizes_ok demo"
  by (auto simp: sizes_ok_def demo_def)

definition demo_conn :: https_sc where
  "demo_conn = (new_state 3 0 False False None 0)\<lparr>have_cred := True, have_ctx := True,
     sizes := \<lparr>cbHeader = 1, cbTrailer = 1, cbMaximumMessage = 4\<rparr>, enc := Some (replicate 6 0),
     dec := Some (replicate 4 0), sc_out := Some (replicate 6 0)\<rparr>"

definition demo_world :: "bytes \<Rightarrow> bytes sio" where
  "demo_world net = \<lparr>env = net, trace = [], oob = False\<rparr>"

lemma demo_conn_ok: "conn_ok demo_conn" "pending demo_conn = []"
  by (simp_all add: conn_ok_def sc_inv_def out_inv_def demo_conn_def new_state_def pending_def slice_def SC_ENC_MAX_def)

lemmas demo_ev = demo_def new_state_def demo_world_def deadline_from_def call_def emit_def check_def
  put_def slice_def fits_def sc_codes sec_codes

lemma demo_grow:
  assumes "want \<le> SC_ENC_MAX"
  shows "\<exists>b e. grow demo None want 0 SC_ENC_MAX w = ((0, b), w\<lparr>trace := e, oob := oob w\<rparr>)"
proof -
  obtain g b w' where g: "grow demo None want 0 SC_ENC_MAX w = ((g, b), w')" by (metis surj_pair)
  have "oob w' = oob w" using grow_spec(1) [OF _ _ order.refl g] by simp
  moreover have "g = 0" "env w' = env w" using g assms
    by (auto simp: grow_def demo_def call_def split: if_splits prod.splits)
  ultimately show ?thesis using g by (cases w', cases w) auto
qed

text \<open>Its handshake succeeds.\<close>

lemma demo_handshake:
  "\<exists>s st w'. https_sc_handshake demo 3 (Some ''x'') False 0 False 0 None 0 (demo_world [1, 2, 3]) = Some ((HTTPS_SC_OK, Some s, st), w')"
proof -
  define w1 :: "bytes sio" where "w1 = \<lparr>env = [1, 2, 3], trace = [Acq RState, Wide ''x'' None 2 [of_char (CHR ''x''), 0],
    Acq RHost, Wide ''x'' (Some 2) 2 [of_char (CHR ''x''), 0]], oob = False\<rparr>"
  obtain b e where g: "grow demo None SC_ENC_INITIAL 0 SC_ENC_MAX w1 = ((0, b), w1\<lparr>trace := e, oob := oob w1\<rparr>)"
    using demo_grow [of SC_ENC_INITIAL w1] by (auto simp: SC_ENC_INITIAL_def SC_ENC_MAX_def)
  have cap: "32768 \<le> buf_cap b" using grow_spec(6) [OF _ _ order.refl g] by (simp add: SC_ENC_INITIAL_def)
  then obtain c where b: "b = Some c" "8 \<le> length c" by (cases b) auto
  then have ne: "c \<noteq> []" "min (length c) 8 = 8" by auto
  define hw where "hw = [of_char (CHR ''x''), 0 :: nat]"
  define s1 where "s1 = (new_state 3 0 False False None 0)\<lparr>hostw := Some hw, enc := b, have_cred := True\<rparr>"
  define w2 where "w2 = w1\<lparr>trace := e @ [Acq RCred]\<rparr>"
  have "\<exists>w3. hs_first demo s1 0 w2 = Some ((None, 0), s1\<lparr>have_ctx := True\<rparr>, w3) \<and> env w3 = [1, 2, 3]"
    by (simp add: hs_first_def demo_ev s1_def w2_def w1_def sock_send_all_def acquire_token_def release_token_def,
        subst send_loop.simps, simp add: demo_ev, subst send_loop.simps, simp add: demo_ev)
  then obtain w3 where f: "hs_first demo s1 0 w2 = Some ((None, 0), s1\<lparr>have_ctx := True\<rparr>, w3)" "env w3 = [1, 2, 3]" by blast
  have "\<exists>s4 w4. hs_loop demo (s1\<lparr>have_ctx := True\<rparr>) 0 True False w3 = Some ((HTTPS_SC_OK, 0), s4, w4) \<and> cfg s4 = cfg s1 \<and> sc_out s4 = None"
    using b(1) ne f(2) by (subst hs_loop.simps)
      (simp add: hs_read_def enc_room_def enc_recv_def sock_recv_def demo_ev s1_def enc_keep_def cfg_def
        acquire_token_def release_token_def)
  then obtain s4 w4 where h: "hs_loop demo (s1\<lparr>have_ctx := True\<rparr>) 0 True False w3 = Some ((HTTPS_SC_OK, 0), s4, w4)"
      "cfg s4 = cfg s1" "sc_out s4 = None" by blast
  have d: "do_handshake demo s1 0 w2 = Some ((HTTPS_SC_OK, 0), s4, w4)"
    using f h(1) by (simp add: do_handshake_def) (simp add: s1_def new_state_def)
  have "\<exists>w5. verify_chain demo s4 0 w4 = ((0, 0), w5)"
    using h(2) by (simp add: verify_chain_def verify_with_def verify_chain_with_def check_policy_def release_engine_def
      remote_cert_def get_chain_def verify_policy_def trust_status_def
      demo_ev cfg_def s1_def)
  then obtain w5 where v: "verify_chain demo s4 0 w4 = ((0, 0), w5)" by blast
  have "\<exists>s6 w6. finish_setup demo s4 0 w5 = ((HTTPS_SC_OK, 0), s6, w6)"
    using demo_grow [of 6 w5] h(3) by (auto simp: finish_setup_def demo_ev SC_ENC_MAX_def long32_id)
  then obtain s6 w6 where fs: "finish_setup demo s4 0 w5 = ((HTTPS_SC_OK, 0), s6, w6)" by blast
  let ?s0 = "(new_state 3 0 False False None 0)\<lparr>hostw := Some hw\<rparr>"
  have "acquire_cred demo (?s0\<lparr>enc := b\<rparr>) 0 (w1\<lparr>trace := e, oob := oob w1\<rparr>) = (SEC_E_OK, s1, w2)"
    by (simp add: acquire_cred_def demo_ev s1_def w2_def w1_def)
  then have run: "handshake_run demo ?s0 0 w1 = Some ((HTTPS_SC_OK, 0), s6, w6)"
    using g d v fs unfolding handshake_run_def by (simp add: new_state_def)
  have "set_host demo (new_state 3 0 False False None 0) ''x'' (demo_world [1, 2, 3]\<lparr>trace := [Acq RState]\<rparr>) = (None, ?s0, w1)"
    by (simp add: set_host_def to_wide_def demo_ev w1_def hw_def)
  then show ?thesis using run by (simp add: https_sc_handshake_def deadline_from_def) (simp add: demo_ev)
qed

section \<open>Client certificates\<close>

lemma clientcert_pkcs1_live:
  assumes "clientcert_pkcs1 A key pkcs8 w = (x, w')"
  shows "live r (trace w') = live r (trace w) + (if r = RCopy \<and> pkcs8 \<and> (\<exists>p. x = Inr p) then 1 else 0)"
proof (cases pkcs8)
  case False
  then show ?thesis using assms by (auto simp: clientcert_pkcs1_def)
next
  case True
  obtain i e where i: "CryptDecodePrivateKeyInfo A key (env w) = (i, e)" by fastforce
  show ?thesis
  proof (cases i)
    case None
    then show ?thesis using assms True i by (auto simp: clientcert_pkcs1_def unwrap_pkcs8_def call_def)
  next
    case (Some ok)
    obtain oid k where "ok = (oid, k)" by fastforce
    moreover obtain m e2 where "malloc_ok A (length k) e = (m, e2)" by fastforce
    ultimately show ?thesis using assms True i Some
      by (auto simp: clientcert_pkcs1_def unwrap_pkcs8_def call_def Let_def split: if_splits)
  qed
qed

lemma clientcert_import_live:
  assumes "\<And>e ss p e'. NCryptOpenStorageProvider A e = ((ss, p), e') \<Longrightarrow> ss = 0 \<Longrightarrow> p \<noteq> 0" and "cert \<noteq> 0"
    and "clientcert_import A cert blob w = ((rc, h, st), w')"
  shows "(rc \<noteq> HTTPS_SC_OK \<longrightarrow> h = None \<and>
      live r (trace w') = live r (trace w) - (if r = RCert \<or> r = RBlob then 1 else 0)) \<and>
    (rc = HTTPS_SC_OK \<longrightarrow> h \<noteq> None \<and>
      live r (trace (https_sc_clientcert_free h w')) = live r (trace w) - (if r = RCert \<or> r = RBlob then 1 else 0))"
proof -
  obtain ss p e1 where p: "NCryptOpenStorageProvider A (env w) = ((ss, p), e1)" by (metis surj_pair)
  obtain ss2 k e2 where k: "NCryptImportKey A p blob e1 = ((ss2, k), e2)" by (metis surj_pair)
  obtain ok e3 where ok: "CertSetKeyProperty A cert k e2 = (ok, e3)" by fastforce
  obtain m e4 where m: "malloc_ok A 16 e3 = (m, e4)" by fastforce
  show ?thesis
    using assms(2,3) assms(1) [OF p] p k ok m
    by (auto simp: clientcert_import_def https_sc_clientcert_free_def call_def sc_codes Let_def split: if_splits)
qed

section \<open>Claims\<close>

text \<open>C1. A read of a connection of the Windows backend is a stream. Nothing outside a buffer is touched; on
  success the plaintext pending before followed by what the call decrypted is what the caller was
  given followed by what is pending after, and giving nothing means the end of the stream; on an
  error other than an allocation failure nothing is given and nothing is lost.\<close>

theorem https_sc_read_stream:
  assumes "win_ok A" and "sc_inv s" and "have_ctx s" and "0 < len" and "nat len \<le> length buf"
    and "https_sc_read A (Some s) buf len timeout w = Some ((rc, n, st, buf'), h, w')"
  shows "\<exists>s' new. h = Some s' \<and> sc_inv s' \<and> oob w' = oob w \<and> n \<le> nat len \<and>
    plain_of (trace w') = plain_of (trace w) @ new \<and>
    (rc = HTTPS_SC_OK \<longrightarrow> pending s @ new = take n buf' @ pending s' \<and> drop n buf' = drop n buf \<and> (n = 0 \<longrightarrow> eof s')) \<and>
    (rc \<noteq> HTTPS_SC_OK \<longrightarrow> n = 0) \<and>
    (rc \<noteq> HTTPS_SC_OK \<longrightarrow> rc \<noteq> HTTPS_SC_ERR_ALLOC \<longrightarrow> pending s' = pending s @ new)"
proof (rule https_sc_read_spec [OF assms])
  fix s' assume "h = Some s'" and "read_stream s buf (nat len) w ((rc, n, st, buf'), s', w')"
  then show ?thesis by (auto simp: read_stream_def kept_def)
qed

lemmas demo_read_eval = demo_ev demo_conn_def numeral_eq_Suc read_more_def enc_recv_def sock_recv_def read_plain_def read_extra_def
  stash_plaintext_def take_plaintext_def grow_def pick_def

lemma demo_read:
  "\<exists>s' w'. https_sc_read demo (Some demo_conn) [0, 0, 0] 3 0 (demo_world [1, 2, 3, 4, 5]) = Some ((0, 3, 0, [1, 2, 3]), Some s', w') \<and>
     pending s' = [4, 5]"
  by (simp add: https_sc_read_def demo_read_eval, subst read_loop.simps, simp add: demo_read_eval,
      subst read_loop.simps, simp add: demo_read_eval pending_def)

theorem https_sc_read_stream_witness:
  "\<exists>s' w'. https_sc_read demo (Some demo_conn) [0, 0, 0] 3 0 (demo_world [1, 2, 3, 4, 5]) = Some ((0, 3, 0, [1, 2, 3]), Some s', w') \<and>
     plain_of (trace w') = [1, 2, 3] @ pending s' \<and> pending s' = [4, 5]"
proof -
  obtain s' w' where r: "https_sc_read demo (Some demo_conn) [0, 0, 0] 3 0 (demo_world [1, 2, 3, 4, 5]) =
      Some ((0, 3, 0, [1, 2, 3]), Some s', w')" "pending s' = [4, 5]"
    using demo_read by auto
  have c: "sc_inv demo_conn" "have_ctx demo_conn" using demo_conn_ok by (simp_all add: conn_ok_def)
  from https_sc_read_stream [OF demo_ok c _ _ r(1)] r demo_conn_ok(2) show ?thesis
    by (auto simp: HTTPS_SC_OK_def demo_world_def)
qed

text \<open>C8. Reads return: with a Windows that makes progress (it delivers or consumes something, and a
  record's leftover is shorter than the record), a read that is given a buffer of the length it is
  told returns, also through partial records and renegotiation.\<close>

theorem https_sc_read_terminates:
  assumes "win_live A \<mu>" and "win_ok A" and "sc_inv s" and "nat len \<le> length buf"
  shows "\<exists>res s' w'. https_sc_read A (Some s) buf len timeout w = Some (res, Some s', w')"
  by (rule https_sc_read_returns [OF assms])

theorem https_sc_read_terminates_witness:
  "\<exists>res s' w'. https_sc_read demo (Some demo_conn) [0, 0, 0] 3 7 (demo_world [1, 2, 3, 4, 5]) = Some (res, Some s', w')"
  using https_sc_read_terminates [OF demo_live demo_ok, of demo_conn 3 "[0, 0, 0]" 7 "demo_world [1, 2, 3, 4, 5]"] demo_conn_ok
  by (simp add: conn_ok_def)

text \<open>C10. A handshake and a close return as well, whatever the trust services of the system answer.\<close>

theorem https_sc_setup_terminates:
  assumes "win_live A \<mu>" and "win_ok A"
  shows "(\<exists>y. https_sc_handshake A sk host skip calist caonly v cc timeout w = Some y) \<and> (\<exists>w'. https_sc_close A h w1 = Some w')"
  using https_sc_handshake_returns [OF assms] https_sc_close_returns [OF assms] by blast

theorem https_sc_setup_terminates_witness:
  "(\<exists>y. https_sc_handshake demo 3 (Some ''x'') False 0 False 0 None 5 (demo_world [1, 2, 3]) = Some y) \<and>
     (\<exists>w'. https_sc_close demo (Some demo_conn) (demo_world []) = Some w')"
  by (rule https_sc_setup_terminates [OF demo_live demo_ok])

text \<open>C9. A write returns, touches nothing outside the output buffer and seals the caller's bytes in
  order: the data parts of the output buffer as they are handed to \<open>EncryptMessage\<close> are together a prefix
  of those bytes; what the write reports is sealed, at most one record more is, and it reports everything
  exactly when it succeeds.\<close>

theorem https_sc_write_seals:
  assumes "win_live A \<mu>" and "win_ok A" and "conn_ok s" and "0 < len" and "nat len \<le> length buf"
  shows "\<exists>rc n st s' w' m. https_sc_write A (Some s) buf len timeout w = Some ((rc, n, st), Some s', w') \<and> conn_ok s' \<and>
    oob w' = oob w \<and> pending s' = pending s \<and> n \<le> m \<and> m \<le> nat len \<and> m \<le> n + cbMaximumMessage (sizes s) \<and>
    (rc = HTTPS_SC_OK \<longleftrightarrow> n = nat len) \<and> sealed_of (trace w') = sealed_of (trace w) @ take m buf"
proof -
  have o: "out_inv s" "0 < cbMaximumMessage (sizes s)" "have_ctx s" using assms(3) by (simp_all add: conn_ok_def)
  obtain rc n st s' w' where r: "https_sc_write A (Some s) buf len timeout w = Some ((rc, n, st), Some s', w')"
    using https_sc_write_returns [OF assms(1,2) o(1,2), of buf len timeout w] by auto
  from https_sc_write_spec [OF assms(2) o(1,3) assms(4,5) r] obtain d
    where wp: "write_post (s\<lparr>deadline_ns := d\<rparr>) (take (nat len) buf) 0 w ((rc, n, st), s', w')" by auto
  obtain m where m: "n \<le> m" "m \<le> nat len" "m \<le> n + cbMaximumMessage (sizes s)" "rc = HTTPS_SC_OK \<longleftrightarrow> n = nat len"
      "sealed_of (trace w') = sealed_of (trace w) @ take m buf"
    using wp assms(5) unfolding write_post_def prod.case by (elim conjE exE) (simp add: min_absorb1 min_absorb2)
  show ?thesis using r m write_keeps [OF assms(3) wp] by blast
qed

theorem https_sc_write_seals_witness:
  "\<exists>rc n st s' w' m. https_sc_write demo (Some demo_conn) [1, 2, 3, 4, 5, 6] 6 0 (demo_world []) = Some ((rc, n, st), Some s', w') \<and>
     n \<le> m \<and> m \<le> n + 4 \<and> sealed_of (trace w') = take m [1, 2, 3, 4, 5, 6]"
proof -
  have sz: "cbMaximumMessage (sizes demo_conn) = 4" "sealed_of (trace (demo_world [])) = []"
    by (simp_all add: demo_conn_def demo_world_def)
  have len: "nat 6 \<le> length [1, 2, 3, 4, 5, 6 :: u8]" by simp
  from https_sc_write_seals [OF demo_live demo_ok demo_conn_ok(1) _ len, of 0 "demo_world []"] sz
  show ?thesis by fastforce
qed

text \<open>C7. A handshake of the Windows backend either fails, gives back no handle and everything it took, and
  leaves the anchors to its caller; or succeeds with a connection that can read and write, and
  then Windows had converted the caller's host name and, unless verification was switched off, had
  reported the peer's certificate, built a chain for it, answered that the policy has nothing against
  that chain for that name, and reported a chain status with no bit but the three that are tolerated.
  The chain came from the default engine or from an engine created with the caller's anchors as its only
  roots; with \<open>ca_only\<close> from the latter, no other chain having been asked for, and never without anchors.
  The calls and the answers are those on the trace.\<close>

theorem https_sc_handshake_safe:
  assumes "win_ok A" and "sizes_ok A"
    and "https_sc_handshake A sk host skip calist caonly v cc timeout w = Some ((rc, h, st), w')"
  shows "oob w' = oob w \<and>
    (rc \<noteq> HTTPS_SC_OK \<longrightarrow> h = None \<and> (\<forall>r. live r (trace w') = live r (trace w))) \<and>
    (rc = HTTPS_SC_OK \<longrightarrow> (\<exists>s. h = Some s \<and> conn_ok s \<and> pending s = [] \<and>
       (\<forall>r. live r (trace w') = live r (trace w) + held r s) \<and>
       castore s = calist \<and> ca_only s = caonly \<and>
       (\<exists>name ns vs. host = Some name \<and> verdicts (trace w') = verdicts (trace w) @ ns @ vs \<and> named name s ns \<and>
          (if skip then vs = [] else accepted s vs))))"
  using https_sc_handshake_spec [OF assms] by blast

theorem https_sc_handshake_safe_witness:
  "\<exists>s st w' ns vs. https_sc_handshake demo 3 (Some ''x'') False 0 False 0 None 0 (demo_world [1, 2, 3]) = Some ((HTTPS_SC_OK, Some s, st), w') \<and>
     conn_ok s \<and> verdicts (trace w') = ns @ vs \<and> named ''x'' s ns \<and> accepted s vs"
proof -
  obtain s st w' where r:
    "https_sc_handshake demo 3 (Some ''x'') False 0 False 0 None 0 (demo_world [1, 2, 3]) = Some ((HTTPS_SC_OK, Some s, st), w')"
    using demo_handshake by blast
  from https_sc_handshake_safe [OF demo_ok demo_sizes r] r show ?thesis by (auto simp: demo_world_def)
qed

text \<open>C3. Over a whole session of reads and writes in any order, starting from a connection as the
  handshake leaves it: every state reached can read and write, no access was outside its buffer, and
  as long as no read reported an allocation failure the bytes given to the caller followed by those
  pending are exactly the plaintext of the records, in order.\<close>

theorem session_stream:
  assumes "win_ok A" and "conn_ok s0" and "pending s0 = []"
    and "(sc_step A)\<^sup>*\<^sup>* (s0, w0, [], False) (s, w, got, lost)"
  shows "conn_ok s \<and> oob w = oob w0 \<and> (\<not> lost \<longrightarrow> plain_of (trace w) = plain_of (trace w0) @ got @ pending s)"
  using sess_inv_reach [OF assms(1,4) sess_inv_start [OF assms(2)]] assms(3) by (auto simp: sess_inv_def)

theorem session_stream_witness:
  "\<exists>s w. (sc_step demo)\<^sup>*\<^sup>* (demo_conn, demo_world [1, 2, 3, 4, 5], [], False) (s, w, [1, 2, 3], False) \<and>
     plain_of (trace w) = [1, 2, 3] @ pending s"
proof -
  obtain s w where "https_sc_read demo (Some demo_conn) [0, 0, 0] 3 0 (demo_world [1, 2, 3, 4, 5]) =
      Some ((0, 3, 0, [1, 2, 3]), Some s, w)" using demo_read by blast
  from sc_step.Read [OF _ _ this, of "[]" False]
  have st: "(sc_step demo)\<^sup>*\<^sup>* (demo_conn, demo_world [1, 2, 3, 4, 5], [], False) (s, w, [1, 2, 3], False)"
    by (simp add: sc_codes r_into_rtranclp)
  from session_stream [OF demo_ok demo_conn_ok st] st show ?thesis by (auto simp: demo_world_def)
qed

text \<open>C5. Nothing leaks and nothing is released twice: after a handshake, any session and a close, every
  count of live resources is what it was before the handshake, except that the anchors, which
  belong to the connection once the handshake succeeded, are closed exactly once.\<close>

theorem session_balanced:
  assumes "win_ok A" and "sizes_ok A"
    and "https_sc_handshake A sk host skip calist caonly v cc timeout w0 = Some ((HTTPS_SC_OK, Some s0, st), w1)"
    and "(sc_step A)\<^sup>*\<^sup>* (s0, w1, [], False) (s, w2, got, lost)" and "https_sc_close A (Some s) w2 = Some w3"
  shows "oob w3 = oob w0 \<and> live r (trace w3) = live r (trace w0) - (if r = RStore \<and> calist \<noteq> 0 then 1 else 0)"
proof -
  have h: "conn_ok s0" "castore s0 = calist" "live r (trace w1) = live r (trace w0) + held r s0" "oob w1 = oob w0"
    using https_sc_handshake_spec [OF assms(1-3)] by auto
  have i: "castore s = castore s0" "oob w2 = oob w1" "balance r s w2 = balance r s0 w1"
    using sess_inv_reach [OF assms(1,4) sess_inv_start [OF h(1)]] by (auto simp: sess_inv_def)
  show ?thesis using https_sc_close_spec [OF assms(1,5)] h i by (auto simp: balance_def)
qed

theorem session_balanced_witness:
  "\<exists>s st w1 w3. https_sc_handshake demo 3 (Some ''x'') False 0 False 0 None 0 (demo_world [1, 2, 3]) = Some ((HTTPS_SC_OK, Some s, st), w1) \<and>
     https_sc_close demo (Some s) w1 = Some w3 \<and> \<not> oob w3 \<and> live RBuf (trace w3) = 0"
proof -
  obtain s st w1 where r:
    "https_sc_handshake demo 3 (Some ''x'') False 0 False 0 None 0 (demo_world [1, 2, 3]) = Some ((HTTPS_SC_OK, Some s, st), w1)"
    using demo_handshake by blast
  obtain w3 where c: "https_sc_close demo (Some s) w1 = Some w3" using https_sc_close_returns [OF demo_live demo_ok] by blast
  from session_balanced [OF demo_ok demo_sizes r rtranclp.rtrancl_refl c, of RBuf] r c show ?thesis
    by (auto simp: demo_world_def)
qed

text \<open>C38. The protocol masks of both credential structures agree with the version the caller asks for: a
  protocol is enabled exactly when it is not disabled, TLS 1.3 always is, TLS 1.2 is unless 1.3 is
  the minimum, and nothing older ever is.\<close>

theorem protocol_masks:
  "disabled_below v AND enabled_from v = 0 \<and> enabled_from v AND SC_PROT_TLS1_3_CLIENT \<noteq> 0 \<and>
   (enabled_from v AND SC_PROT_TLS1_2_CLIENT \<noteq> 0 \<longleftrightarrow> v < HTTPS_SC_TLS13) \<and>
   disabled_below v OR enabled_from v = SC_PROT_SSL2_CLIENT OR SC_PROT_SSL3_CLIENT OR SC_PROT_TLS1_0_CLIENT OR
     SC_PROT_TLS1_1_CLIENT OR SC_PROT_TLS1_2_CLIENT OR SC_PROT_TLS1_3_CLIENT"
  by (simp add: disabled_below_def enabled_from_def sc_prots Let_def)

text \<open>Growing a buffer stays within the limit and within \<open>int\<close>, keeps the bytes in use, and on failure
  leaves the buffer as it was.\<close>

theorem grow_bounded:
  assumes "used \<le> buf_cap b" and "buf_cap b \<le> SC_ENC_MAX" and "limit \<le> SC_ENC_MAX"
    and "grow A b want used limit w = ((rc, b'), w')"
  shows "oob w' = oob w \<and> buf_cap b' \<le> SC_ENC_MAX \<and> take used (contents b') = take used (contents b) \<and>
    (rc = 0 \<and> want \<le> buf_cap b' \<or> rc = - 1 \<and> b' = b)"
  using grow_spec [OF assms] by blast

theorem grow_bounded_witness:
  "\<exists>b' w'. grow demo (Some [7, 8]) 3 2 SC_ENC_MAX (demo_world []) = ((0, Some b'), w') \<and> \<not> oob w' \<and> take 2 b' = [7, 8]"
proof -
  have g: "grow demo (Some [7, 8]) 3 2 SC_ENC_MAX (demo_world []) = ((0, Some [7, 8, 0, 0]),
      \<lparr>env = [], trace = [Acq RBuf, Rel RBuf], oob = False\<rparr>)"
    by (simp add: grow_def demo_ev SC_ENC_MAX_def dbl.simps) (simp add: numeral_eq_Suc)
  from grow_bounded [OF _ _ order.refl g] g show ?thesis by (simp add: SC_ENC_MAX_def)
qed

text \<open>C37. Importing a client certificate gives back everything it took when it fails, on every path of the
  key conversion; a certificate it returns is undone completely by its free.\<close>

theorem clientcert_balanced:
  assumes "\<And>e ss p e'. NCryptOpenStorageProvider A e = ((ss, p), e') \<Longrightarrow> ss = 0 \<Longrightarrow> p \<noteq> 0"
    and "https_sc_clientcert_new A cert cert_len key key_len pkcs8 w = ((rc, h, st), w')"
  shows "(rc \<noteq> HTTPS_SC_OK \<longrightarrow> h = None \<and> live r (trace w') = live r (trace w)) \<and>
    (rc = HTTPS_SC_OK \<longrightarrow> h \<noteq> None \<and> live r (trace (https_sc_clientcert_free h w')) = live r (trace w))"
proof (cases "\<exists>c k. cert = Some c \<and> key = Some k \<and> 0 < cert_len \<and> 0 < key_len")
  case False
  then show ?thesis using assms(2)
    by (auto simp: https_sc_clientcert_new_def sc_codes split: option.splits if_splits)
next
  case True
  then obtain c k where ck: "cert = Some c" "key = Some k" "0 < cert_len" "0 < key_len" by blast
  let ?w0 = "check (nat cert_len \<le> length c \<and> nat key_len \<le> length k) w"
  obtain ce e1 where ce: "CertCreateCertificateContext A (take (nat cert_len) c) (env w) = (ce, e1)" by fastforce
  show ?thesis
  proof (cases "ce = 0")
    case True
    then show ?thesis using assms(2) ck ce by (auto simp: https_sc_clientcert_new_def call_def sc_codes)
  next
    case False
    obtain x w2 where x: "clientcert_pkcs1 A (take (nat key_len) k) pkcs8 (emit (Acq RCert) (?w0\<lparr>env := e1\<rparr>)) = (x, w2)"
      by fastforce
    note xs = clientcert_pkcs1_live [OF x]
    show ?thesis
    proof (cases x)
      case (Inl a)
      then show ?thesis using assms(2) ck ce False x xs by (auto simp: https_sc_clientcert_new_def call_def sc_codes)
    next
      case (Inr pk)
      obtain bl e3 where bl: "CryptDecodeRsaPrivateKey A pk (env w2) = (bl, e3)" by fastforce
      let ?w3 = "if pkcs8 then emit (Rel RCopy) (w2\<lparr>env := e3\<rparr>) else w2\<lparr>env := e3\<rparr>"
      show ?thesis
      proof (cases bl)
        case None
        then show ?thesis using assms(2) ck ce False x xs Inr bl
          by (auto simp: https_sc_clientcert_new_def call_def sc_codes Let_def)
      next
        case (Some b)
        then have "clientcert_import A ce b (emit (Acq RBlob) ?w3) = ((rc, h, st), w')"
          using assms(2) ck ce False x Inr bl by (simp add: https_sc_clientcert_new_def call_def Let_def)
        from clientcert_import_live [OF assms(1) False this, where r = r] xs Inr show ?thesis by auto
      qed
    qed
  qed
qed

theorem clientcert_balanced_witness:
  "\<exists>h st w'. https_sc_clientcert_new demo (Some [1, 2]) 2 (Some [3]) 1 True (demo_world []) = ((HTTPS_SC_OK, h, st), w') \<and>
     live RKey (trace w') = 1 \<and> live RKey (trace (https_sc_clientcert_free h w')) = 0"
proof -
  have n: "https_sc_clientcert_new demo (Some [1, 2]) 2 (Some [3]) 1 True (demo_world []) =
      ((HTTPS_SC_OK, Some \<lparr>cc_cert = 1, cc_prov = 1\<rparr>, 0), \<lparr>env = [], trace = [Acq RCert, Acq RInfo, Acq RCopy, Rel RInfo,
        Rel RCopy, Acq RBlob, Acq RProv, Rel RBlob, Acq RKey, Acq RClient], oob = False\<rparr>)"
    by (simp add: https_sc_clientcert_new_def clientcert_pkcs1_def unwrap_pkcs8_def clientcert_import_def demo_ev)
  from clientcert_balanced [OF _ n, of RKey] n show ?thesis by (simp add: demo_ev)
qed

end
