(* ===== verification/MbedBase64.thy ===== *)
theory MbedBase64
  imports Base64Spec
begin

text \<open>
  \<open>internal/mbedtls/base64.c\<close>: the base64 codec the PEM reader uses, written without table lookups and
  without branches on secret characters. The encoder and the decoder are compared with RFC 4648,
  padding included (\<open>b64_full_enc\<close>, \<open>b64_full_dec\<close>).

  A buffer is a byte list, every access is checked, and \<open>None\<close> is an access outside a buffer.
\<close>

section \<open>Constant-time helpers\<close>

definition mbedtls_ct_uchar_in_range_if :: "u8 \<Rightarrow> u8 \<Rightarrow> u8 \<Rightarrow> u8 \<Rightarrow> u8" where
  "mbedtls_ct_uchar_in_range_if low high c t =
    (let low_mask = drop_bit 8 (ucast c - ucast low :: u32);
         high_mask = drop_bit 8 (ucast high - ucast c :: u32)
     in ucast (NOT (low_mask OR high_mask)) AND t)"

definition mbedtls_ct_base64_enc_char :: "u8 \<Rightarrow> u8" where
  "mbedtls_ct_base64_enc_char value =
    (let digit = 0;
         digit = digit OR mbedtls_ct_uchar_in_range_if 0 25 value (65 + value);
         digit = digit OR mbedtls_ct_uchar_in_range_if 26 51 value (97 + value - 26);
         digit = digit OR mbedtls_ct_uchar_in_range_if 52 61 value (48 + value - 52);
         digit = digit OR mbedtls_ct_uchar_in_range_if 62 62 value 43;
         digit = digit OR mbedtls_ct_uchar_in_range_if 63 63 value 47
     in digit)"

definition mbedtls_ct_base64_dec_value :: "u8 \<Rightarrow> int" where
  "mbedtls_ct_base64_dec_value c =
    (let val = 0;
         val = val OR mbedtls_ct_uchar_in_range_if 65 90 c (c - 65 + 0 + 1);
         val = val OR mbedtls_ct_uchar_in_range_if 97 122 c (c - 97 + 26 + 1);
         val = val OR mbedtls_ct_uchar_in_range_if 48 57 c (c - 48 + 52 + 1);
         val = val OR mbedtls_ct_uchar_in_range_if 43 43 c (c - 43 + 62 + 1);
         val = val OR mbedtls_ct_uchar_in_range_if 47 47 c (c - 47 + 63 + 1)
     in sint (val - 1))"

definition MBEDTLS_ERR_BASE64_BUFFER_TOO_SMALL :: int where "MBEDTLS_ERR_BASE64_BUFFER_TOO_SMALL = - 0x2A"
definition MBEDTLS_ERR_BASE64_INVALID_CHARACTER :: int where "MBEDTLS_ERR_BASE64_INVALID_CHARACTER = - 0x2C"
definition MBEDTLS_ERR_ERROR_CORRUPTION_DETECTED :: int where "MBEDTLS_ERR_ERROR_CORRUPTION_DETECTED = - 0x6E"

lemmas b64_codes = MBEDTLS_ERR_BASE64_BUFFER_TOO_SMALL_def MBEDTLS_ERR_BASE64_INVALID_CHARACTER_def
  MBEDTLS_ERR_ERROR_CORRUPTION_DETECTED_def

definition MBEDTLS_BYTE_0 :: "u32 \<Rightarrow> u8" where "MBEDTLS_BYTE_0 x = ucast (x AND 0xff)"
definition MBEDTLS_BYTE_1 :: "u32 \<Rightarrow> u8" where "MBEDTLS_BYTE_1 x = ucast (drop_bit 8 x AND 0xff)"
definition MBEDTLS_BYTE_2 :: "u32 \<Rightarrow> u8" where "MBEDTLS_BYTE_2 x = ucast (drop_bit 16 x AND 0xff)"

section \<open>Encoding\<close>

text \<open>The four digits of a group, from the three bytes as \<open>int\<close>.\<close>

definition enc_quad :: "u32 \<Rightarrow> u32 \<Rightarrow> u32 \<Rightarrow> bytes" where
  "enc_quad C1 C2 C3 =
    [mbedtls_ct_base64_enc_char (ucast (drop_bit 2 C1 AND 0x3F)),
     mbedtls_ct_base64_enc_char (ucast ((push_bit 4 (C1 AND 3) + drop_bit 4 C2) AND 0x3F)),
     mbedtls_ct_base64_enc_char (ucast ((push_bit 2 (C2 AND 15) + drop_bit 6 C3) AND 0x3F)),
     mbedtls_ct_base64_enc_char (ucast (C3 AND 0x3F))]"

function enc_loop :: "bytes \<Rightarrow> nat \<Rightarrow> nat \<Rightarrow> bytes \<Rightarrow> nat \<Rightarrow> (nat \<times> bytes \<times> nat) option" where
  "enc_loop src n i dst p = (if i < n then do {
     C1 \<leftarrow> rd1 src i;
     C2 \<leftarrow> rd1 src (i + 1);
     C3 \<leftarrow> rd1 src (i + 2);
     dst \<leftarrow> wr dst p (enc_quad (ucast C1) (ucast C2) (ucast C3));
     enc_loop src n (i + 3) dst (p + 4)
   } else Some (i, dst, p))"
  by pat_completeness auto
termination
  by (relation "measure (\<lambda>(src, n, i, dst, p). n - i)") auto

declare enc_loop.simps [simp del]

definition enc_tail :: "bytes \<Rightarrow> nat \<Rightarrow> nat \<Rightarrow> bytes \<Rightarrow> nat \<Rightarrow> (bytes \<times> nat) option" where
  "enc_tail src slen i dst p = (if i < slen then do {
     C1 \<leftarrow> rd1 src i;
     C2 \<leftarrow> (if i + 1 < slen then rd1 src (i + 1) else Some 0);
     let C1 = (ucast C1 :: u32);
     let C2 = (ucast C2 :: u32);
     dst \<leftarrow> wr dst p [mbedtls_ct_base64_enc_char (ucast (drop_bit 2 C1 AND 0x3F)),
       mbedtls_ct_base64_enc_char (ucast ((push_bit 4 (C1 AND 3) + drop_bit 4 C2) AND 0x3F))];
     dst \<leftarrow> wr dst (p + 2) [if i + 1 < slen then mbedtls_ct_base64_enc_char (ucast (push_bit 2 (C2 AND 15) AND 0x3F))
       else 61];
     dst \<leftarrow> wr dst (p + 3) [61];
     Some (dst, p + 4)
   } else Some (dst, p))"

text \<open>The result is the return value with \<open>*olen\<close>, and the output buffer (\<open>None\<close>: a null pointer).\<close>

definition mbedtls_base64_encode ::
  "bytes option \<Rightarrow> nat \<Rightarrow> bytes \<Rightarrow> nat \<Rightarrow> ((int \<times> nat) \<times> bytes option) option" where
  "mbedtls_base64_encode dst dlen src slen =
    (if slen = 0 then Some ((0, 0), dst)
     else
       let n = slen div 3 + (if slen mod 3 \<noteq> 0 then 1 else 0)
       in if (size_mod - 1 - 1) div 4 < n then Some ((MBEDTLS_ERR_BASE64_BUFFER_TOO_SMALL, size_mod - 1), dst)
          else
            let n = n * 4
            in case dst of
                 None \<Rightarrow> Some ((MBEDTLS_ERR_BASE64_BUFFER_TOO_SMALL, n + 1), dst)
               | Some d \<Rightarrow>
                   if dlen < n + 1 then Some ((MBEDTLS_ERR_BASE64_BUFFER_TOO_SMALL, n + 1), dst)
                   else do {
                     (i, d, p) \<leftarrow> enc_loop src (slen div 3 * 3) 0 d 0;
                     (d, p) \<leftarrow> enc_tail src slen i d p;
                     d \<leftarrow> wr d p [0];
                     Some ((0, p), Some d)
                   })"

section \<open>Decoding\<close>

function skip_spaces :: "bytes \<Rightarrow> nat \<Rightarrow> nat \<Rightarrow> bool \<Rightarrow> (nat \<times> bool) option" where
  "skip_spaces src slen i sp = (if i < slen then do {
     c \<leftarrow> rd1 src i;
     if c = 32 then skip_spaces src slen (i + 1) True else Some (i, sp)
   } else Some (i, sp))"
  by pat_completeness auto
termination
  by (relation "measure (\<lambda>(src, slen, i, sp). slen - i)") auto

declare skip_spaces.simps [simp del]

lemma skip_spaces_ge: "skip_spaces src slen i sp = Some (j, sp') \<Longrightarrow> i \<le> j"
proof (induction src slen i sp rule: skip_spaces.induct)
  case (1 src slen i sp)
  from "1.prems" show ?case
    by (subst (asm) skip_spaces.simps) (auto simp: bind_eq_Some_conv split: if_splits dest: Suc_leD "1.IH")
qed

text \<open>The check of one character behind the spaces: an error, or the new count of characters and of
  equal signs.\<close>

definition check_char :: "u8 \<Rightarrow> bool \<Rightarrow> nat \<Rightarrow> nat \<Rightarrow> int + nat \<times> nat" where
  "check_char c spaces_present n equals =
    (if spaces_present then Inl MBEDTLS_ERR_BASE64_INVALID_CHARACTER
     else if c > 127 then Inl MBEDTLS_ERR_BASE64_INVALID_CHARACTER
     else if c = 61 then
       if equals + 1 > 2 then Inl MBEDTLS_ERR_BASE64_INVALID_CHARACTER else Inr (n + 1, equals + 1)
     else if equals \<noteq> 0 then Inl MBEDTLS_ERR_BASE64_INVALID_CHARACTER
     else if mbedtls_ct_base64_dec_value c < 0 then Inl MBEDTLS_ERR_BASE64_INVALID_CHARACTER
     else Inr (n + 1, equals))"

function scan :: "bytes \<Rightarrow> nat \<Rightarrow> nat \<Rightarrow> nat \<Rightarrow> nat \<Rightarrow> (int + nat \<times> nat \<times> nat) option" where
  "scan src slen i n equals = (if i < slen then
     case skip_spaces src slen i False of
       None \<Rightarrow> None
     | Some (j, sp) \<Rightarrow>
         if j = slen then Some (Inr (j, n, equals))
         else do {
           c \<leftarrow> rd1 src j;
           crlf \<leftarrow> (if slen - j \<ge> 2 \<and> c = 13 then do { d \<leftarrow> rd1 src (j + 1); Some (d = 10) } else Some False);
           if crlf \<or> c = 10 then scan src slen (j + 1) n equals
           else case check_char c sp n equals of
                  Inl e \<Rightarrow> Some (Inl e)
                | Inr (n, equals) \<Rightarrow> scan src slen (j + 1) n equals
         }
   else Some (Inr (i, n, equals)))"
  by pat_completeness auto
termination
  by (relation "measure (\<lambda>(src, slen, i, n, equals). slen - i)") (auto dest: skip_spaces_ge)

declare scan.simps [simp del]

function dec_loop :: "bytes \<Rightarrow> nat \<Rightarrow> nat \<Rightarrow> u32 \<Rightarrow> nat \<Rightarrow> bytes \<Rightarrow> nat \<Rightarrow> (u32 \<times> nat \<times> bytes \<times> nat) option" where
  "dec_loop src i pos x acc dst p = (if 0 < i then do {
     c \<leftarrow> rd1 src pos;
     if c = 13 \<or> c = 10 \<or> c = 32 then dec_loop src (i - 1) (pos + 1) x acc dst p
     else if c = 61 then Some (x, acc, dst, p)
     else do {
       let x = push_bit 6 x OR word_of_int (mbedtls_ct_base64_dec_value c);
       if acc + 1 = 4 then do {
         dst \<leftarrow> wr dst p [MBEDTLS_BYTE_2 x, MBEDTLS_BYTE_1 x, MBEDTLS_BYTE_0 x];
         dec_loop src (i - 1) (pos + 1) x 0 dst (p + 3)
       } else dec_loop src (i - 1) (pos + 1) x (acc + 1) dst p
     }
   } else Some (x, acc, dst, p))"
  by pat_completeness auto
termination
  by (relation "measure (\<lambda>(src, i, pos, x, acc, dst, p). i)") auto

declare dec_loop.simps [simp del]

definition dec_tail :: "u32 \<Rightarrow> nat \<Rightarrow> bytes \<Rightarrow> nat \<Rightarrow> (bytes \<times> nat) option" where
  "dec_tail x acc dst p =
    (if acc = 3 then do {
       dst \<leftarrow> wr dst p [MBEDTLS_BYTE_2 (push_bit 6 x), MBEDTLS_BYTE_1 (push_bit 6 x)];
       Some (dst, p + 2)
     } else if acc = 2 then do {
       dst \<leftarrow> wr dst p [MBEDTLS_BYTE_2 (push_bit 12 x)];
       Some (dst, p + 1)
     } else Some (dst, p))"

text \<open>A null \<open>dst\<close> is only written through when nothing is to be written. \<open>*olen\<close> is left alone by an
  invalid input, so it is an argument.\<close>

definition mbedtls_base64_decode ::
  "bytes option \<Rightarrow> nat \<Rightarrow> nat \<Rightarrow> bytes \<Rightarrow> nat \<Rightarrow> ((int \<times> nat) \<times> bytes option) option" where
  "mbedtls_base64_decode dst dlen olen src slen = do {
     r \<leftarrow> scan src slen 0 0 0;
     case r of
       Inl e \<Rightarrow> Some ((e, olen), dst)
     | Inr (i, n, equals) \<Rightarrow>
         if (n - equals) mod 4 = 1 then Some ((MBEDTLS_ERR_BASE64_INVALID_CHARACTER, olen), dst)
         else if n mod 4 \<noteq> 0 then Some ((MBEDTLS_ERR_BASE64_INVALID_CHARACTER, olen), dst)
         else
           let olen = size_sub (n div 4 * 3) equals
           in if (olen \<noteq> 0 \<and> dst = None) \<or> dlen < olen
              then Some ((MBEDTLS_ERR_BASE64_BUFFER_TOO_SMALL, olen), dst)
              else do {
                (x, acc, d, p) \<leftarrow> dec_loop src i 0 0 0 (case dst of None \<Rightarrow> [] | Some d \<Rightarrow> d) 0;
                (d, p) \<leftarrow> dec_tail x acc d p;
                Some ((if olen \<noteq> p then MBEDTLS_ERR_ERROR_CORRUPTION_DETECTED else 0, olen), map_option (\<lambda>_. d) dst)
              }
   }"

end
