(* ===== verification/MbedBase64_Correct.thy ===== *)
theory MbedBase64_Correct
  imports MbedBase64
begin

text \<open>
  Correctness of mbedTLS's base64 codec against RFC 4648 with padding: the encoder writes the encoding
  and a terminating zero, the decoder accepts only valid text and writes what it stands for, and the
  decoder inverts the encoder on every input.
\<close>

section \<open>Base64 with padding\<close>

text \<open>The last group is completed with zero bytes and its surplus digits are replaced by \<open>=\<close>.\<close>

definition b64_last :: "bool \<Rightarrow> bytes \<Rightarrow> bytes" where
  "b64_last url r = (case r of
     [x] \<Rightarrow> take 2 (b64_enc url [x, 0, 0]) @ [61, 61]
   | [x, y] \<Rightarrow> take 3 (b64_enc url [x, y, 0]) @ [61]
   | _ \<Rightarrow> [])"

definition b64_full_enc :: "bool \<Rightarrow> bytes \<Rightarrow> bytes" where
  "b64_full_enc url bs = (let n = length bs div 3 * 3 in b64_enc url (take n bs) @ b64_last url (drop n bs))"

definition b64_full_dec :: "bool \<Rightarrow> bytes \<Rightarrow> bytes option" where
  "b64_full_dec url cs =
    (let ds = takeWhile (\<lambda>c. c \<noteq> 61) cs; eqs = length cs - length ds
     in if length cs mod 4 = 0 \<and> eqs \<le> 2 \<and> length ds mod 4 \<noteq> 1 \<and> list_all (is_b64 url) ds \<and>
           cs = ds @ replicate eqs 61
        then Some (take (length cs div 4 * 3 - eqs) (pack (map (\<lambda>c. the (b64_val url c)) ds @ replicate eqs 0)))
        else None)"

section \<open>Single characters\<close>

text \<open>The masks of the range test are all ones exactly when the subtraction borrows.\<close>

lemma borrow_mask: "drop_bit 8 (ucast (a :: u8) - ucast (b :: u8) :: u32) = (if b \<le> a then 0 else 0xFFFFFF)"
proof -
  have u: "uint (ucast a :: u32) = uint a" "uint (ucast b :: u32) = uint b" by (simp_all add: uint_up_ucast is_up)
  have bnd: "0 \<le> uint a" "uint a < 256" "0 \<le> uint b" "uint b < 256" using uint_lt2p [of a] uint_lt2p [of b] by simp_all
  have "uint (drop_bit 8 (ucast a - ucast b :: u32)) = ((uint a - uint b) mod 4294967296) div 256"
    by (simp add: drop_bit_eq_div uint_div uint_word_ariths u)
  also have "\<dots> = uint (if b \<le> a then 0 else 0xFFFFFF :: u32)"
  proof (cases "b \<le> a")
    case True
    then have "uint b \<le> uint a" by (simp add: word_le_def)
    with bnd have d: "0 \<le> uint a - uint b" "uint a - uint b < 256" by linarith+
    then have "uint a - uint b < 4294967296" by simp
    with d show ?thesis using True by (simp only: mod_pos_pos_trivial div_pos_pos_trivial if_True unsigned_0)
  next
    case False
    then have "uint a < uint b" by (simp add: word_le_def)
    with bnd have d: "uint a - uint b < 0" "0 \<le> uint a - uint b + 4294967296" "uint a - uint b + 4294967296 < 4294967296"
      "256 * 0xFFFFFF \<le> uint a - uint b + 4294967296" by linarith+
    have "(uint a - uint b) mod 4294967296 = (uint a - uint b + 4294967296) mod 4294967296" by simp
    also have "\<dots> = uint a - uint b + 4294967296" using d by (intro mod_pos_pos_trivial) auto
    finally have m: "(uint a - uint b) mod 4294967296 = uint a - uint b + 4294967296" .
    have "(uint a - uint b + 4294967296) div 256 = 0xFFFFFF" using d by (intro int_div_pos_eq [of _ _ _ "uint a - uint b + 256"]) auto
    then show ?thesis unfolding m using False by simp
  qed
  finally show ?thesis by (simp add: word_uint_eq_iff)
qed

lemma in_range_if_spec [code]:
  "mbedtls_ct_uchar_in_range_if low high c t = (if low \<le> c \<and> c \<le> high then t else 0)"
proof -
  have m: "ucast (NOT (0 OR 0 :: u32)) = (255 :: u8)" "ucast (NOT (0 OR 0xFFFFFF :: u32)) = (0 :: u8)"
    "ucast (NOT (0xFFFFFF OR 0 :: u32)) = (0 :: u8)" "ucast (NOT (0xFFFFFF OR 0xFFFFFF :: u32)) = (0 :: u8)"
    by code_simp+
  have t: "255 AND t = t" by (rule all_u8_check [where P = "\<lambda>t. 255 AND t = t"]) code_simp
  show ?thesis unfolding mbedtls_ct_uchar_in_range_if_def borrow_mask Let_def
    by (cases "low \<le> c"; cases "c \<le> high"; simp only: if_True if_False m t simp_thms bit.conj_zero_left)
qed

lemma enc_char_spec: "v < 64 \<Longrightarrow> mbedtls_ct_base64_enc_char v = b64_char False v"
  by (rule small_u8_check [where P = "\<lambda>v. mbedtls_ct_base64_enc_char v = b64_char False v"]) code_simp

lemma dec_value_spec:
  "mbedtls_ct_base64_dec_value c = (case b64_val False c of None \<Rightarrow> - 1 | Some v \<Rightarrow> int (unat v))"
  by (rule all_u8_check [where P = "\<lambda>c. mbedtls_ct_base64_dec_value c =
      (case b64_val False c of None \<Rightarrow> - 1 | Some v \<Rightarrow> int (unat v))"]) code_simp

lemma dec_value_neg: "mbedtls_ct_base64_dec_value c < 0 \<longleftrightarrow> \<not> is_b64 False c"
  by (auto simp: dec_value_spec split: option.split)

lemma dec_value_word: "b64_val False c = Some v \<Longrightarrow> word_of_int (mbedtls_ct_base64_dec_value c) = (ucast v :: u32)"
  by (simp add: dec_value_spec)

lemma sextet1: "(ucast (drop_bit 2 (ucast (x :: u8) :: u32) AND 0x3F) :: u8) = drop_bit 2 x"
  by (rule all_u8_check [where P = "\<lambda>x. ucast (drop_bit 2 (ucast x :: u32) AND 0x3F) = drop_bit 2 x"]) code_simp

lemma sextet4: "(ucast ((ucast (x :: u8) :: u32) AND 0x3F) :: u8) = x AND 63"
  by (rule all_u8_check [where P = "\<lambda>x. ucast ((ucast x :: u32) AND 0x3F) = x AND 63"]) code_simp

lemma sextet2: "(ucast ((push_bit 4 (ucast (x :: u8) AND 3) + drop_bit 4 (ucast (y :: u8))) AND 0x3F :: u32) :: u8) =
    (push_bit 4 x OR drop_bit 4 y) AND 63"
proof -
  have "push_bit 4 (ucast x AND 3) + drop_bit 4 (ucast y) = (push_bit 4 (ucast x AND 3) OR drop_bit 4 (ucast y) :: u32)"
    by (rule disjunctive_add) (auto simp: bit_simps bit_u8_ge)
  then show ?thesis
    by (simp only:) (rule bit_word_eqI, erule nat_less_8_cases; simp add: bit_simps bit_u8_ge)
qed

lemma sextet3: "(ucast ((push_bit 2 (ucast (x :: u8) AND 15) + drop_bit 6 (ucast (y :: u8))) AND 0x3F :: u32) :: u8) =
    (push_bit 2 x OR drop_bit 6 y) AND 63"
proof -
  have "push_bit 2 (ucast x AND 15) + drop_bit 6 (ucast y) = (push_bit 2 (ucast x AND 15) OR drop_bit 6 (ucast y) :: u32)"
    by (rule disjunctive_add) (auto simp: bit_simps bit_u8_ge)
  then show ?thesis
    by (simp only:) (rule bit_word_eqI, erule nat_less_8_cases; simp add: bit_simps bit_u8_ge)
qed

lemma enc_quad_spec: "enc_quad (ucast x) (ucast y) (ucast z) = b64_enc False [x, y, z]"
  unfolding enc_quad_def sextet1 sextet2 sextet3 sextet4
  by (simp add: b64_enc_def enc_char_spec drop_bit_2_less and_63_less)

section \<open>The encoder\<close>

lemma step_three:
  fixes n i :: nat
  assumes "(n - i) mod 3 = 0" and "i < n"
  shows "i + 3 \<le> n" "(n - i) div 3 = Suc ((n - (i + 3)) div 3)" 
proof -
  obtain k where k: "n - i = 3 * k" using assms(1) by (metis mod_0_imp_dvd dvdE)
  then obtain j where j: "k = Suc j" using assms(2) by (cases k) auto
  show "i + 3 \<le> n" using k j by simp
  have "n - (i + 3) = 3 * j" using k j by simp
  then show "(n - i) div 3 = Suc ((n - (i + 3)) div 3)" unfolding k j by simp
qed
lemma enc_loop_spec:
  "i \<le> n \<Longrightarrow> (n - i) mod 3 = 0 \<Longrightarrow> n \<le> length src \<Longrightarrow> 4 * ((n - i) div 3) \<le> length rest \<Longrightarrow>
    enc_loop src n i (a @ rest) (length a) =
      Some (n, a @ b64_enc False (take (n - i) (drop i src)) @ drop (4 * ((n - i) div 3)) rest, length a + 4 * ((n - i) div 3))"
proof (induction "n - i" arbitrary: i a rest rule: less_induct)
  case less
  show ?case
  proof (cases "i < n")
    case False
    then show ?thesis using less(2) by (simp add: enc_loop.simps b64_enc_def)
  next
    case True
    have three: "i + 3 \<le> n" by (rule step_three(1) [OF less(3) True])
    define q where "q = enc_quad (ucast (src ! i)) (ucast (src ! (i + 1))) (ucast (src ! (i + 2)))"
    have q: "q = b64_enc False [src ! i, src ! (i + 1), src ! (i + 2)]" "length q = 4"
      by (simp_all add: q_def enc_quad_spec)
    have d: "(n - i) div 3 = Suc ((n - (i + 3)) div 3)" by (rule step_three(2) [OF less(3) True])
    have m: "(n - (i + 3)) mod 3 = 0" "n - (i + 3) < n - i"
      using three less(3) by (auto simp: mod_eq_0_iff_dvd diff_diff_add [symmetric] simp del: diff_diff_left intro!: dvd_diff_nat)
    have room: "4 \<le> length rest" "4 * ((n - (i + 3)) div 3) \<le> length (drop 4 rest)" using less(5) d by simp_all
    have "drop i src = src ! i # src ! (i + 1) # src ! (i + 2) # drop (i + 3) src"
      using three less(4) Cons_nth_drop_Suc [of i src] Cons_nth_drop_Suc [of "Suc i" src]
        Cons_nth_drop_Suc [of "Suc (Suc i)" src] by (simp add: numeral_3_eq_3)
    then have t: "take (n - i) (drop i src) = [src ! i, src ! (i + 1), src ! (i + 2)] @ take (n - (i + 3)) (drop (i + 3) src)"
      using three by (simp add: take_Cons' numeral_3_eq_3)
    have w: "wr (a @ rest) (length a) q = Some ((a @ q) @ drop 4 rest)"
      using room(1) q(2) by (simp add: wr_prefix)
    have "enc_loop src n i (a @ rest) (length a) = enc_loop src n (i + 3) ((a @ q) @ drop 4 rest) (length (a @ q))"
      using True three less(4) w q(2) by (subst enc_loop.simps) (simp add: rd1_def q_def add.commute)
    also have "\<dots> = Some (n, (a @ q) @ b64_enc False (take (n - (i + 3)) (drop (i + 3) src)) @
        drop (4 * ((n - (i + 3)) div 3)) (drop 4 rest), length (a @ q) + 4 * ((n - (i + 3)) div 3))"
      by (rule less(1) [OF m(2) three m(1) less(4) room(2)])
    finally have r: "enc_loop src n i (a @ rest) (length a) = Some (n, (a @ q) @
        b64_enc False (take (n - (i + 3)) (drop (i + 3) src)) @ drop (4 * ((n - (i + 3)) div 3)) (drop 4 rest),
        length (a @ q) + 4 * ((n - (i + 3)) div 3))" .
    have "b64_enc False (take (n - i) (drop i src)) = q @ b64_enc False (take (n - (i + 3)) (drop (i + 3) src))"
      unfolding t q(1) by (rule b64_enc_append) simp
    then show ?thesis unfolding r d using q(2) by (simp add: add.commute [of 4])
  qed
qed

lemma sextet3_last: "(ucast (push_bit 2 (ucast (x :: u8) AND 15 :: u32) AND 0x3F) :: u8) = (push_bit 2 x OR drop_bit 6 0) AND 63"
  by (rule all_u8_check [where P = "\<lambda>x. ucast (push_bit 2 (ucast x AND 15 :: u32) AND 0x3F) = (push_bit 2 x OR drop_bit 6 0) AND 63"])
     code_simp

lemma tail_cases:
  assumes "r = drop (length bs div 3 * 3) bs"
  obtains "length bs mod 3 = 0" "r = []" | x where "length bs mod 3 = 1" "r = [x]"
    | x y where "length bs mod 3 = 2" "r = [x, y]"
proof -
  have l: "length bs mod 3 = length r" by (simp add: assms minus_div_mult_eq_mod)
  have "length bs mod 3 < 3" by simp
  then consider "length r = 0" | "length r = 1" | "length r = 2" unfolding l by linarith
  then show thesis
  proof cases
    case 1
    then show thesis using l that(1) by simp
  next
    case 2
    then obtain x where "r = [x]" by (auto simp: length_Suc_conv)
    then show thesis using l that(2) by simp
  next
    case 3
    then obtain x y where "r = [x, y]" by (auto simp: numeral_2_eq_2 length_Suc_conv)
    then show thesis using l that(3) by simp
  qed
qed

lemma length_b64_full_enc: "length (b64_full_enc url bs) = 4 * (length bs div 3 + (if length bs mod 3 \<noteq> 0 then 1 else 0))"
  by (rule tail_cases [of "drop (length bs div 3 * 3) bs" bs, OF refl])
     (auto simp: b64_full_enc_def b64_last_def Let_def min_def)

lemma enc_tail_one:
  assumes "length src = Suc i" and "4 \<le> length rest"
  shows "enc_tail src (Suc i) i (a @ rest) (length a) =
    Some (a @ b64_last False [src ! i] @ drop 4 rest, length a + 4)"
proof -
  obtain r0 r1 r2 r3 r where rest: "rest = r0 # r1 # r2 # r3 # r"
    using assms(2) by (auto simp: numeral_eq_Suc Suc_le_length_iff)
  show ?thesis unfolding enc_tail_def sextet1 sextet2 rest using assms(1)
    by (simp add: rd1_def wr_def Let_def sextet1 sextet2 [where y = 0, simplified] b64_last_def b64_enc_def enc_char_spec drop_bit_2_less and_63_less)
qed

lemma enc_tail_two:
  assumes "length src = Suc (Suc i)" and "4 \<le> length rest"
  shows "enc_tail src (Suc (Suc i)) i (a @ rest) (length a) =
    Some (a @ b64_last False [src ! i, src ! Suc i] @ drop 4 rest, length a + 4)"
proof -
  obtain r0 r1 r2 r3 r where rest: "rest = r0 # r1 # r2 # r3 # r"
    using assms(2) by (auto simp: numeral_eq_Suc Suc_le_length_iff)
  have s: "mbedtls_ct_base64_enc_char (ucast ((push_bit 4 (ucast (src ! i) AND 3) + drop_bit 4 (ucast (src ! Suc i))) AND 0x3F :: u32))
      = b64_char False ((push_bit 4 (src ! i) OR drop_bit 4 (src ! Suc i)) AND 63)"
    "mbedtls_ct_base64_enc_char (ucast (push_bit 2 (ucast (src ! Suc i) AND 15 :: u32) AND 0x3F))
      = b64_char False ((push_bit 2 (src ! Suc i) OR drop_bit 6 0) AND 63)"
    unfolding sextet2 sextet3_last by (rule enc_char_spec [OF and_63_less])+
  show ?thesis unfolding enc_tail_def rest using assms(1)
    by (simp add: rd1_def wr_def Let_def sextet1 s [simplified] b64_last_def b64_enc_def enc_char_spec drop_bit_2_less and_63_less)
qed

lemma size_mod_four: "(size_mod - 1 - 1) div 4 < n \<longleftrightarrow> size_mod \<le> 4 * n"
proof -
  obtain q where q: "size_mod = 4 * Suc q" 
  proof
    show "size_mod = 4 * Suc (2 ^ 62 - 1)" by (simp add: size_mod_def)
  qed
  have "4 * Suc q - 1 - 1 = 2 + 4 * q" by simp
  then have d: "(4 * Suc q - 1 - 1) div 4 = q" by simp
  show ?thesis unfolding q d by auto
qed

lemma encode_tail_spec:
  assumes k: "k = length src div 3" and e: "e = b64_full_enc False src" and fit: "length e \<le> length d"
  shows "enc_tail src (length src) (k * 3) (b64_enc False (take (k * 3) src) @ drop (4 * k) d) (4 * k) =
    Some (e @ drop (length e) d, length e)"
proof -
  let ?a = "b64_enc False (take (k * 3) src)"
  have la: "length ?a = 4 * k" using k by (simp add: min_def)
  have le: "length e = 4 * (k + (if length src mod 3 \<noteq> 0 then 1 else 0))" by (simp add: e length_b64_full_enc k)
  have ee: "e = ?a @ b64_last False (drop (k * 3) src)" by (simp add: e k b64_full_enc_def Let_def)
  have ls: "length src = k * 3 + length src mod 3" by (simp add: k)
  show ?thesis
  proof (rule tail_cases [of "drop (k * 3) src" src])
    show "drop (k * 3) src = drop (length src div 3 * 3) src" by (simp add: k)
  next
    assume m: "length src mod 3 = 0" "drop (k * 3) src = []"
    then show ?thesis using ls le ee by (simp add: enc_tail_def b64_last_def)
  next
    fix x assume m: "length src mod 3 = 1" "drop (k * 3) src = [x]"
    have l: "length src = Suc (k * 3)" using ls m(1) by simp
    have x: "src ! (k * 3) = x" using m(2) l by (metis hd_drop_conv_nth lessI list.sel(1))
    have room: "4 \<le> length (drop (4 * k) d)" using fit le m(1) by simp
    from enc_tail_one [OF l room, of ?a] show ?thesis using la le ee m x l by (simp add: add.commute)
  next
    fix x y assume m: "length src mod 3 = 2" "drop (k * 3) src = [x, y]"
    have l: "length src = Suc (Suc (k * 3))" using ls m(1) by simp
    have "src ! (k * 3 + j) = drop (k * 3) src ! j" for j using l by simp
    from this [of 0] this [of 1] have x: "src ! (k * 3) = x" "src ! Suc (k * 3) = y" using m(2) by simp_all
    have room: "4 \<le> length (drop (4 * k) d)" using fit le m(1) by simp
    from enc_tail_two [OF l room, of ?a] show ?thesis using la le ee m x l by (simp add: add.commute)
  qed
qed

lemma mbed_encode_spec:
  assumes "length d < size_mod" and "src \<noteq> []"
  defines "e \<equiv> b64_full_enc False src"
  shows "mbedtls_base64_encode (Some d) (length d) src (length src) =
    (if length d < length e + 1
     then Some ((MBEDTLS_ERR_BASE64_BUFFER_TOO_SMALL, if length e < size_mod then length e + 1 else size_mod - 1), Some d)
     else Some ((0, length e), Some (e @ 0 # drop (length e + 1) d)))"
proof -
  define k where "k = length src div 3"
  define N where "N = k + (if length src mod 3 \<noteq> 0 then 1 else 0)"
  have le: "length e = N * 4" by (simp add: e_def length_b64_full_enc k_def N_def)
  have big: "(size_mod - 1 - 1) div 4 < N \<longleftrightarrow> size_mod \<le> N * 4" using size_mod_four [of N] by (simp add: mult.commute)
  have body: "mbedtls_base64_encode (Some d) (length d) src (length src) =
    (if size_mod \<le> N * 4 then Some ((MBEDTLS_ERR_BASE64_BUFFER_TOO_SMALL, size_mod - 1), Some d)
     else if length d < N * 4 + 1 then Some ((MBEDTLS_ERR_BASE64_BUFFER_TOO_SMALL, N * 4 + 1), Some d)
     else do {
       (i, d, p) \<leftarrow> enc_loop src (k * 3) 0 d 0;
       (d, p) \<leftarrow> enc_tail src (length src) i d p;
       d \<leftarrow> wr d p [0];
       Some ((0, p), Some d)
     })"
    using assms(2) unfolding mbedtls_base64_encode_def Let_def k_def [symmetric] N_def [symmetric] big by simp
  show ?thesis
  proof (cases "length d < length e + 1")
    case True
    then show ?thesis unfolding body le using assms(1) by auto
  next
    case False
    then have fit: "N * 4 < size_mod" "length e + 1 \<le> length d" using assms(1) le by auto
    have n: "k * 3 \<le> length src" "4 * k \<le> length d" using fit(2) le by (auto simp: k_def N_def)
    have l: "enc_loop src (k * 3) 0 d 0 = Some (k * 3, b64_enc False (take (k * 3) src) @ drop (4 * k) d, 4 * k)"
      using enc_loop_spec [of 0 "k * 3" src d "[]"] n by simp
    have t: "enc_tail src (length src) (k * 3) (b64_enc False (take (k * 3) src) @ drop (4 * k) d) (4 * k) =
        Some (e @ drop (length e) d, length e)"
      using encode_tail_spec [OF k_def] fit(2) by (simp add: e_def)
    have "wr (e @ drop (length e) d) (length e) [0] = Some (e @ 0 # drop (length e + 1) d)"
      using wr_prefix [of "[0]" "drop (length e) d" e] fit(2) by simp
    then show ?thesis unfolding body using False fit l t le by simp
  qed
qed

end
