(* ===== verification/MbedBase64_Dec.thy ===== *)
theory MbedBase64_Dec imports MbedBase64_Correct begin

text \<open>The decoder of \<open>src/internal/mbedtls/base64.c\<close>: its two passes are related to functions on lists
  of characters, and the whole decoder to the reference decoder \<^const>\<open>b64_full_dec\<close>. The claims
  about mbedTLS's base64 close the theory.\<close>

section \<open>The first pass of the decoder\<close>

text \<open>The first pass on the list of characters that are left.\<close>

function scan_list :: "bytes \<Rightarrow> nat \<Rightarrow> nat \<Rightarrow> int + nat \<times> nat" where
  "scan_list cs n equals = (case dropWhile (\<lambda>c. c = 32) cs of
     [] \<Rightarrow> Inr (n, equals)
   | c # r \<Rightarrow>
       if (c = 13 \<and> r \<noteq> [] \<and> hd r = 10) \<or> c = 10 then scan_list r n equals
       else case check_char c (cs \<noteq> c # r) n equals of
              Inl e \<Rightarrow> Inl e
            | Inr (n, equals) \<Rightarrow> scan_list r n equals)"
  by pat_completeness auto
termination
proof (relation "measure (\<lambda>(cs, n, equals). length cs)", goal_cases)
  case (2 cs n equals c r)
  then show ?case using length_dropWhile_le [of "\<lambda>c. c = 32" cs] by simp
next
  case (3 cs n equals c r)
  then show ?case using length_dropWhile_le [of "\<lambda>c. c = 32" cs] by simp
qed simp

declare scan_list.simps [simp del]

lemma skip_spaces_spec:
  "i \<le> length src \<Longrightarrow> \<exists>j. skip_spaces src (length src) i sp = Some (j, sp \<or> j \<noteq> i) \<and> i \<le> j \<and> j \<le> length src \<and>
     drop j src = dropWhile (\<lambda>c. c = 32) (drop i src)"
proof (induction "length src - i" arbitrary: i sp rule: less_induct)
  case less
  show ?case
  proof (cases "i < length src \<and> src ! i = 32")
    case False
    then show ?thesis using less(2)
      by (intro exI [of _ i], subst skip_spaces.simps) (auto simp: rd1_def simp flip: Cons_nth_drop_Suc)
  next
    case True
    then have lt: "length src - Suc i < length src - i" by (simp add: diff_less_mono2)
    obtain j where "skip_spaces src (length src) (Suc i) True = Some (j, True \<or> j \<noteq> Suc i) \<and> Suc i \<le> j \<and> j \<le> length src \<and>
        drop j src = dropWhile (\<lambda>c. c = 32) (drop (Suc i) src)"
      using less(1) [OF lt, of True] True by auto
    then show ?thesis using True
      by (intro exI [of _ j], subst skip_spaces.simps) (auto simp: rd1_def simp flip: Cons_nth_drop_Suc)
  qed
qed

lemma scan_spec:
  "i \<le> length src \<Longrightarrow> scan src (length src) i n equals =
     Some (map_sum id (\<lambda>(n, e). (length src, n, e)) (scan_list (drop i src) n equals))"
proof (induction "length src - i" arbitrary: i n equals rule: less_induct)
  case less
  show ?case
  proof (cases "i < length src")
    case False
    then show ?thesis using less(2) by (simp add: scan.simps scan_list.simps)
  next
    case True
    obtain j where j: "skip_spaces src (length src) i False = Some (j, j \<noteq> i)" "i \<le> j" "j \<le> length src"
        "drop j src = dropWhile (\<lambda>c. c = 32) (drop i src)"
      using skip_spaces_spec [OF less(2), of False] by auto
    show ?thesis
    proof (cases "j = length src")
      case fin: True
      then show ?thesis using True j by (subst scan.simps, subst scan_list.simps) simp
    next
      case False
      with j(3) have lt: "j < length src" by simp
      define c where "c = src ! j"
      have d: "dropWhile (\<lambda>c. c = 32) (drop i src) = c # drop (Suc j) src"
        using j(4) lt by (simp add: c_def Cons_nth_drop_Suc)
      have sp: "drop i src \<noteq> c # drop (Suc j) src \<longleftrightarrow> j \<noteq> i"
        using True lt j(2) by (auto simp: c_def Cons_nth_drop_Suc dest: arg_cong [where f = length])
      have IH: "scan src (length src) (Suc j) n equals =
          Some (map_sum id (\<lambda>(n, e). (length src, n, e)) (scan_list (drop (Suc j) src) n equals))" for n equals
        using less(1) [of "Suc j"] lt j(2) True by simp
      have crlf: "(if length src - j \<ge> 2 \<and> c = 13 then do { d \<leftarrow> rd1 src (j + 1); Some (d = 10) } else Some False) =
          Some (c = 13 \<and> drop (Suc j) src \<noteq> [] \<and> hd (drop (Suc j) src) = 10)"
        by (auto simp: rd1_def hd_drop_conv_nth)
      show ?thesis
        using True lt j(1) IH by (subst scan.simps, subst scan_list.simps)
          (auto simp: d sp crlf rd1_def c_def [symmetric] split: sum.splits)
    qed
  qed
qed


text \<open>What the first pass accepts.\<close>

definition not_ws :: "u8 \<Rightarrow> bool" where
  "not_ws c \<longleftrightarrow> c \<noteq> 13 \<and> c \<noteq> 10 \<and> c \<noteq> 32"

lemma b64_not_ws: "is_b64 url c \<Longrightarrow> not_ws c" "is_b64 url c \<Longrightarrow> c \<noteq> 61" "is_b64 url c \<Longrightarrow> c \<le> 127"
  by (auto simp: not_ws_def b64_val_def split: if_splits) (erule order_trans, simp)+

lemma check_char_spec:
  "check_char c sp n e = Inr (n', e') \<longleftrightarrow>
     \<not> sp \<and> n' = n + 1 \<and> (c = 61 \<and> e < 2 \<and> e' = e + 1 \<or> is_b64 False c \<and> e = 0 \<and> e' = 0)"
  using b64_not_ws(2,3) [of False c] by (auto simp: check_char_def dec_value_neg)

lemma filter_dropWhile: "filter not_ws (dropWhile (\<lambda>c. c = 32) cs) = filter not_ws cs"
  by (induction cs) (auto simp: not_ws_def)

lemma scan_list_sound:
  "scan_list cs n e = Inr (n', e') \<Longrightarrow> e \<le> 2 \<Longrightarrow>
    \<exists>ds. filter not_ws cs = ds @ replicate (e' - e) 61 \<and> list_all (is_b64 False) ds \<and>
      n' = n + length (filter not_ws cs) \<and> e \<le> e' \<and> e' \<le> 2 \<and> (e \<noteq> 0 \<longrightarrow> ds = [])"
proof (induction cs n e rule: scan_list.induct)
  case (1 cs n e)
  show ?case
  proof (cases "dropWhile (\<lambda>c. c = 32) cs")
    case Nil
    have "filter not_ws cs = []" using filter_dropWhile [of cs] unfolding Nil by simp
    then show ?thesis using "1.prems" Nil by (simp add: scan_list.simps [of cs])
  next
    case (Cons c r)
    have f: "filter not_ws cs = filter not_ws (c # r)" using filter_dropWhile [of cs] Cons by simp
    show ?thesis
    proof (cases "(c = 13 \<and> r \<noteq> [] \<and> hd r = 10) \<or> c = 10")
      case True
      then have "scan_list r n e = Inr (n', e')" using "1.prems"(1) Cons by (simp add: scan_list.simps [of cs])
      moreover have "filter not_ws cs = filter not_ws r" using True by (auto simp: f not_ws_def)
      ultimately show ?thesis using "1.IH"(1) [OF Cons True _ "1.prems"(2)] by simp
    next
      case False
      then obtain n1 e1 where c: "check_char c (cs \<noteq> c # r) n e = Inr (n1, e1)" and s: "scan_list r n1 e1 = Inr (n', e')"
        using "1.prems"(1) Cons by (auto simp: scan_list.simps [of cs] split: sum.splits)
      note cs = c [unfolded check_char_spec]
      have "e1 \<le> 2" using cs "1.prems"(2) by auto
      from "1.IH"(2) [OF Cons False c refl s this] obtain ds where ds: "filter not_ws r = ds @ replicate (e' - e1) 61"
          "list_all (is_b64 False) ds" "n' = n1 + length (filter not_ws r)" "e1 \<le> e'" "e' \<le> 2" "e1 \<noteq> 0 \<longrightarrow> ds = []" by blast
      show ?thesis
      proof (cases "c = 61")
        case True
        then have "e1 = e + 1" "n1 = n + 1" "not_ws c" using cs b64_not_ws(2) [of False c] by (auto simp: not_ws_def)
        then show ?thesis using ds True by (intro exI [of _ "[]"]) (auto simp: f Suc_diff_le simp flip: replicate_Suc)
      next
        case False
        then have "is_b64 False c" "e = 0" "e1 = 0" "n1 = n + 1" "not_ws c" using cs b64_not_ws(1) [of False c] by auto
        then show ?thesis using ds by (intro exI [of _ "c # ds"]) (auto simp: f)
      qed
    qed
  qed
qed

lemma scan_list_complete:
  "list_all (\<lambda>c. c \<noteq> 32 \<and> c \<noteq> 13) cs \<Longrightarrow> filter not_ws cs = ds @ replicate k 61 \<Longrightarrow> list_all (is_b64 False) ds \<Longrightarrow>
    e + k \<le> 2 \<Longrightarrow> (e \<noteq> 0 \<longrightarrow> ds = []) \<Longrightarrow> scan_list cs n e = Inr (n + length ds + k, e + k)"
proof (induction cs arbitrary: n e ds k)
  case Nil
  then show ?case by (simp add: scan_list.simps)
next
  case (Cons c cs)
  have d: "dropWhile (\<lambda>c. c = 32) (c # cs) = c # cs" using Cons.prems(1) by simp
  show ?case
  proof (cases "c = 10")
    case True
    then show ?thesis using Cons by (subst scan_list.simps) (simp add: d not_ws_def)
  next
    case False
    then have nw: "not_ws c" using Cons.prems(1) by (simp add: not_ws_def)
    have step: "scan_list (c # cs) n e = (case check_char c False n e of Inl x \<Rightarrow> Inl x | Inr (n, e) \<Rightarrow> scan_list cs n e)"
      using False Cons.prems(1) by (subst scan_list.simps) (simp add: d)
    show ?thesis
    proof (cases ds)
      case Nil
      then obtain k' where k: "k = Suc k'" "c = 61" "filter not_ws cs = [] @ replicate k' 61"
        using Cons.prems(2) nw by (cases k) auto
      then have "check_char c False n e = Inr (n + 1, e + 1)" using Cons.prems(4) by (simp add: check_char_spec)
      then show ?thesis using step Cons.IH [OF _ k(3), of "e + 1" "n + 1"] Cons.prems(1,4) Nil k by simp
    next
      case (Cons x xs)
      then have x: "c = x" "filter not_ws cs = xs @ replicate k 61" using Cons.prems(2) nw by auto
      have "e = 0" "is_b64 False c" using Cons.prems(3,5) Cons x by auto
      then have "check_char c False n e = Inr (n + 1, 0)" by (simp add: check_char_spec)
      then show ?thesis using step Cons.IH [OF _ x(2), of 0 "n + 1"] Cons.prems(1,3,4) Cons \<open>e = 0\<close> by simp
    qed
  qed
qed


section \<open>The second pass of the decoder\<close>

definition shift_in :: "u32 \<Rightarrow> u8 \<Rightarrow> u32" where
  "shift_in x v = push_bit 6 x OR ucast v"

lemma bit_small: "v < 64 \<Longrightarrow> \<not> bit (v :: u8) 6" "v < 64 \<Longrightarrow> \<not> bit v 7"
  by (rule small_u8_check [where P = "\<lambda>v. \<not> bit v 6"], code_simp, assumption)
     (rule small_u8_check [where P = "\<lambda>v. \<not> bit v 7"], code_simp, assumption)

lemma quad_bytes:
  fixes x :: u32
  assumes "a < 64" "b < 64" "c < 64" "d < 64"
  defines "x' \<equiv> shift_in (shift_in (shift_in (shift_in x a) b) c) d"
  shows "[MBEDTLS_BYTE_2 x', MBEDTLS_BYTE_1 x', MBEDTLS_BYTE_0 x'] = pack [a, b, c, d]"
proof -
  note small = bit_small [OF assms(1)] bit_small [OF assms(2)] bit_small [OF assms(3)] bit_small [OF assms(4)]
  have "MBEDTLS_BYTE_2 x' = push_bit 2 a OR drop_bit 4 b" "MBEDTLS_BYTE_1 x' = push_bit 4 b OR drop_bit 2 c"
    "MBEDTLS_BYTE_0 x' = push_bit 6 c OR d"
    unfolding x'_def shift_in_def MBEDTLS_BYTE_2_def MBEDTLS_BYTE_1_def MBEDTLS_BYTE_0_def
    by (rule bit_word_eqI, erule nat_less_8_cases; simp add: bit_simps bit_u8_ge small)+
  then show ?thesis by simp
qed

lemma tail_bytes_3:
  fixes x :: u32
  assumes "a < 64" "b < 64" "c < 64"
  defines "x' \<equiv> push_bit 6 (shift_in (shift_in (shift_in x a) b) c)"
  shows "[MBEDTLS_BYTE_2 x', MBEDTLS_BYTE_1 x'] = take 2 (pack [a, b, c, 0])"
proof -
  have "x' = shift_in (shift_in (shift_in (shift_in x a) b) c) 0" by (simp add: x'_def shift_in_def)
  then show ?thesis using quad_bytes [OF assms(1-3), of 0 x] by simp
qed

lemma tail_bytes_2:
  fixes x :: u32
  assumes "a < 64" "b < 64"
  defines "x' \<equiv> push_bit 12 (shift_in (shift_in x a) b)"
  shows "[MBEDTLS_BYTE_2 x'] = take 1 (pack [a, b, 0, 0])"
proof -
  have "x' = shift_in (shift_in (shift_in (shift_in x a) b) 0) 0" by (simp add: x'_def shift_in_def)
  then show ?thesis using quad_bytes [OF assms(1,2), of 0 0 x] by simp
qed



abbreviation val64 :: "u8 \<Rightarrow> u8" where
  "val64 c \<equiv> the (b64_val False c)"

lemma shift_in_dec: "is_b64 False c \<Longrightarrow> push_bit 6 x OR word_of_int (mbedtls_ct_base64_dec_value c) = shift_in x (val64 c)"
  by (auto simp: shift_in_def dec_value_word)

lemma pack_quad: "length q = 4 \<Longrightarrow> pack (take (4 * Suc n) (q @ v)) = pack q @ pack (take (4 * n) v)"
  by (simp add: pack_append)

lemma drop_quad: "length q = 4 \<Longrightarrow> drop (4 * Suc n) (q @ v) = drop (4 * n) v"
  by simp

lemma dec_loop_spec:
  "drop pos src = cs \<Longrightarrow> filter not_ws cs = ds @ replicate k 61 \<Longrightarrow> list_all (is_b64 False) ds \<Longrightarrow> length pend < 4 \<Longrightarrow>
    x = foldl shift_in x0 pend \<Longrightarrow> list_all (\<lambda>v. v < 64) pend \<Longrightarrow> V = pend @ map val64 ds \<Longrightarrow> 3 * (length V div 4) \<le> length rest \<Longrightarrow>
    \<exists>x1. dec_loop src (length cs) pos x (length pend) (a @ rest) (length a) =
      Some (foldl shift_in x1 (drop (4 * (length V div 4)) V), length V mod 4,
        a @ pack (take (4 * (length V div 4)) V) @ drop (3 * (length V div 4)) rest, length a + 3 * (length V div 4))"
proof (induction cs arbitrary: pos ds pend x x0 a rest V)
  case Nil
  then show ?case by (intro exI [of _ x0]) (simp add: dec_loop.simps)
next
  case (Cons c cs)
  have lt: "pos < length src" using Cons.prems(1) by (metis drop_all list.distinct(1) not_le)
  have pos: "src ! pos = c" "drop (Suc pos) src = cs" using Cons_nth_drop_Suc [OF lt] Cons.prems(1) by simp_all
  show ?case
  proof (cases "not_ws c")
    case False
    then have "dec_loop src (length (c # cs)) pos x (length pend) (a @ rest) (length a) =
        dec_loop src (length cs) (Suc pos) x (length pend) (a @ rest) (length a)"
      using lt pos by (subst dec_loop.simps) (auto simp: rd1_def not_ws_def)
    moreover have "filter not_ws cs = ds @ replicate k 61" using Cons.prems(2) False by simp
    ultimately show ?thesis using Cons.IH [OF pos(2) _ Cons.prems(3-8)] by simp
  next
    case nw: True
    show ?thesis
    proof (cases ds)
      case Nil
      then have "c = 61" "V = pend" using Cons.prems(2,7) nw by (cases k; simp)+
      then show ?thesis using lt pos nw Cons.prems(4,5)
        by (intro exI [of _ x0], subst dec_loop.simps) (simp add: rd1_def not_ws_def)
    next
      case (Cons c' ds')
      then have ds: "ds = c # ds'" "filter not_ws cs = ds' @ replicate k 61" "is_b64 False c" "list_all (is_b64 False) ds'"
        using Cons.prems(2,3) nw by auto
      define v where "v = val64 c"
      have v: "v < 64" "c \<noteq> 61" using ds(3) b64_val_less [of False c] b64_not_ws(2) [of False c] by (auto simp: v_def)
      define x' where "x' = shift_in x v"
      have step: "dec_loop src (length (c # cs)) pos x (length pend) (a @ rest) (length a) =
          (if length pend + 1 = 4 then do {
             dst \<leftarrow> wr (a @ rest) (length a) [MBEDTLS_BYTE_2 x', MBEDTLS_BYTE_1 x', MBEDTLS_BYTE_0 x'];
             dec_loop src (length cs) (Suc pos) x' 0 dst (length a + 3)
           } else dec_loop src (length cs) (Suc pos) x' (length pend + 1) (a @ rest) (length a))"
        using lt pos nw v(2) by (subst dec_loop.simps) (simp add: rd1_def not_ws_def shift_in_dec [OF ds(3)] x'_def v_def Let_def)
      have x': "x' = foldl shift_in x0 (pend @ [v])" using Cons.prems(5) by (simp add: x'_def)
      have small: "list_all (\<lambda>v. v < 64) (pend @ [v])" using Cons.prems(6) v by simp
      have V: "V = (pend @ [v]) @ map val64 ds'" using Cons.prems(7) ds(1) by (simp add: v_def)
      show ?thesis
      proof (cases "length pend + 1 = 4")
        case False
        then have "length (pend @ [v]) < 4" using Cons.prems(4) by simp
        from Cons.IH [OF pos(2) ds(2,4) this x' small V Cons.prems(8), of a] False show ?thesis unfolding step by simp
      next
        case True
        then obtain p0 p1 p2 where pend: "pend = [p0, p1, p2]" by (auto simp: numeral_eq_Suc length_Suc_conv)
        let ?q = "pend @ [v]" and ?W = "map val64 ds'"
        have bytes: "[MBEDTLS_BYTE_2 x', MBEDTLS_BYTE_1 x', MBEDTLS_BYTE_0 x'] = pack ?q"
          using quad_bytes [of p0 p1 p2 v x0] small by (simp add: x' pend)
        have n: "length V div 4 = Suc (length ?W div 4)" "length V mod 4 = length ?W mod 4" by (simp_all add: V pend)
        have room: "3 \<le> length rest" "3 * (length ?W div 4) \<le> length (drop 3 rest)" using Cons.prems(8) n by simp_all
        have "wr (a @ rest) (length a) (pack ?q) = Some ((a @ pack ?q) @ drop 3 rest)"
          using wr_prefix [of "pack ?q" rest a] room(1) by (simp add: pend numeral_3_eq_3)
        then have eq: "dec_loop src (length (c # cs)) pos x (length pend) (a @ rest) (length a) =
            dec_loop src (length cs) (Suc pos) x' (length ([] :: bytes)) ((a @ pack ?q) @ drop 3 rest) (length (a @ pack ?q))"
          unfolding step bytes using True by (simp add: pend numeral_3_eq_3)
        have "list_all (\<lambda>v. v < 64) ([] :: bytes)" "length ([] :: bytes) < 4" "x' = foldl shift_in x' []" "?W = [] @ ?W" by simp_all
        from Cons.IH [OF pos(2) ds(2,4) this(2,3,1,4) room(2), of "a @ pack ?q"] obtain x1 where
          "dec_loop src (length cs) (Suc pos) x' (length ([] :: bytes)) ((a @ pack ?q) @ drop 3 rest) (length (a @ pack ?q)) =
            Some (foldl shift_in x1 (drop (4 * (length ?W div 4)) ?W), length ?W mod 4,
              (a @ pack ?q) @ pack (take (4 * (length ?W div 4)) ?W) @ drop (3 * (length ?W div 4)) (drop 3 rest),
              length (a @ pack ?q) + 3 * (length ?W div 4))" by blast
        moreover have "drop (4 * Suc (length ?W div 4)) V = drop (4 * (length ?W div 4)) ?W"
          unfolding V by (rule drop_quad) (simp add: pend)
        moreover have "pack (take (4 * Suc (length ?W div 4)) V) = pack ?q @ pack (take (4 * (length ?W div 4)) ?W)"
          unfolding V by (rule pack_quad) (simp add: pend)
        moreover have "length (pack ?q) = 3" by (simp add: pend)
        ultimately show ?thesis unfolding eq n by (intro exI [of _ x1]) (simp add: add.commute)
      qed
    qed
  qed
qed


lemma full_dec_alt:
  assumes "list_all (is_b64 False) ds" and "e \<le> 2"
  shows "b64_full_dec False (ds @ replicate e 61) =
    (if (length ds + e) mod 4 = 0 \<and> length ds mod 4 \<noteq> 1
     then Some (take ((length ds + e) div 4 * 3 - e) (pack (map val64 ds @ replicate e 0))) else None)"
proof -
  have "takeWhile (\<lambda>c. c \<noteq> 61) (ds @ replicate e 61) = ds"
    using assms(1) b64_not_ws(2) [of False] by (subst takeWhile_append2) (auto simp: list_all_iff takeWhile_replicate)
  then show ?thesis using assms by (simp add: b64_full_dec_def Let_def)
qed

text \<open>The tail of the output, for the two, three or no digits that are left.\<close>

lemma dec_tail_spec:
  assumes t: "list_all (\<lambda>v. v < 64) t" "length t < 4" and e: "length t + e = (if t = [] then 0 else 4)" "e \<le> 2"
    and room: "(if t = [] then 0 else 3 - e) \<le> length rest"
  defines "out \<equiv> take (if t = [] then 0 else 3 - e) (pack (t @ replicate e 0))"
  shows "dec_tail (foldl shift_in x t) (length t) (a @ rest) (length a) = Some (a @ out @ drop (length out) rest, length a + length out)"
proof (cases "t = []")
  case True
  then show ?thesis by (simp add: dec_tail_def out_def)
next
  case False
  then have "length t + e = 4" using e(1) by simp
  with e(2) consider "e = 1" "length t = 3" | "e = 2" "length t = 2" using t(2) by linarith
  then show ?thesis
  proof cases
    case 1
    then obtain p q r where "t = [p, q, r]" by (auto simp: numeral_eq_Suc length_Suc_conv)
    then show ?thesis using t 1 room tail_bytes_3 [of p q r x] wr_prefix [of "take 2 (pack [p, q, r, 0])" rest a]
      by (simp add: dec_tail_def out_def)
  next
    case 2
    then obtain p q where "t = [p, q]" by (auto simp: numeral_eq_Suc length_Suc_conv)
    then show ?thesis using t 2 room tail_bytes_2 [of p q x] wr_prefix [of "take 1 (pack [p, q, 0, 0])" rest a]
      by (simp add: dec_tail_def out_def numeral_2_eq_2)
  qed
qed


lemma val64_less: "list_all (is_b64 False) ds \<Longrightarrow> list_all (\<lambda>v. v < 64) (map val64 ds)"
  using b64_val_less [of False] by (auto simp: list_all_iff)

text \<open>Both passes of an accepted text.\<close>

lemma quad_arith:
  fixes n e :: nat
  assumes "(n + e) mod 4 = 0" and "n mod 4 \<noteq> 1" and "e \<le> 2"
  shows "n mod 4 = 0 \<and> e = 0 \<and> (n + e) div 4 = n div 4 \<or>
      n mod 4 \<noteq> 0 \<and> n mod 4 + e = 4 \<and> (n + e) div 4 = n div 4 + 1"
proof -
  define q r where qr: "q = n div 4" "r = n mod 4"
  have n: "n = 4 * q + r" "r < 4" by (simp_all add: qr)
  have m: "(n + e) mod 4 = (r + e) mod 4" unfolding n(1) add.assoc by simp
  have d: "(n + e) div 4 = q + (r + e) div 4" unfolding n(1) add.assoc by simp
  have "r = 0 \<or> r = 2 \<or> r = 3" "e = 0 \<or> e = 1 \<or> e = 2" using n(2) assms(2,3) qr by linarith+
  then show ?thesis using assms(1) unfolding m d qr [symmetric] by (elim disjE) simp_all
qed

lemma decode_run:
  assumes f: "filter not_ws src = ds @ replicate e 61" and ds: "list_all (is_b64 False) ds" and e: "e \<le> 2"
    and len: "(length ds + e) mod 4 = 0" "length ds mod 4 \<noteq> 1"
    and out: "b64_full_dec False (ds @ replicate e 61) = Some out" and room: "length out \<le> length d"
  shows "\<exists>x acc d1 p1. dec_loop src (length src) 0 0 0 d 0 = Some (x, acc, d1, p1) \<and>
    dec_tail x acc d1 p1 = Some (out @ drop (length out) d, length out)"
    and "length out = (length ds + e) div 4 * 3 - e"
proof -
  let ?V = "map val64 ds" and ?q = "length ds div 4"
  define t where "t = drop (4 * ?q) ?V"
  have lt: "length t = length ds mod 4" by (simp add: t_def minus_mult_div_eq_mod)
  have arith: "length ds mod 4 = 0 \<and> e = 0 \<and> (length ds + e) div 4 = ?q \<or>
      length ds mod 4 \<noteq> 0 \<and> length ds mod 4 + e = 4 \<and> (length ds + e) div 4 = ?q + 1"
    by (rule quad_arith [OF len e])
  have t0: "t = [] \<longleftrightarrow> length ds mod 4 = 0" using lt by (metis length_0_conv)
  have te: "length t + e = (if t = [] then 0 else 4)" using arith lt t0 by auto
  have n: "(length ds + e) div 4 * 3 - e = 3 * ?q + (if t = [] then 0 else 3 - e)" using arith t0 e by auto
  have V: "?V = take (4 * ?q) ?V @ t" by (simp add: t_def)
  have l4: "length (take (4 * ?q) ?V) = 4 * ?q" by simp
  let ?o = "take (if t = [] then 0 else 3 - e) (pack (t @ replicate e 0))"
  have "pack (?V @ replicate e 0) = pack (take (4 * ?q) ?V) @ pack (t @ replicate e 0)"
    by (subst V) (simp add: pack_append)
  then have o: "out = pack (take (4 * ?q) ?V) @ ?o"
    using out len unfolding full_dec_alt [OF ds e] by (simp add: n)
  have lp: "length (pack (t @ replicate e 0)) = (if t = [] then 0 else 3)" using te by auto
  then have lo': "length ?o = (if t = [] then 0 else 3 - e)" by auto
  show "length out = (length ds + e) div 4 * 3 - e" unfolding n o using lo' by simp
  have lo: "length (pack (take (4 * ?q) ?V)) = 3 * ?q" by simp
  have "3 * (length ?V div 4) \<le> length d" using room o lo by simp
  from dec_loop_spec [of 0 src src ds e "[]" 0 0 ?V d "[]", OF _ f ds] this obtain x1 where
    l: "dec_loop src (length src) 0 0 0 d 0 = Some (foldl shift_in x1 t, length t, pack (take (4 * ?q) ?V) @ drop (3 * ?q) d, 3 * ?q)"
    by (auto simp: t_def [symmetric] lt)
  have small: "list_all (\<lambda>v. v < 64) t" using val64_less [OF ds] V by (metis list_all_append)
  have "(if t = [] then 0 else 3 - e) \<le> length (drop (3 * ?q) d)" using room lo lo' unfolding o by simp
  from dec_tail_spec [OF small _ te e this, of x1 "pack (take (4 * ?q) ?V)"]
  have "dec_tail (foldl shift_in x1 t) (length t) (pack (take (4 * ?q) ?V) @ drop (3 * ?q) d) (3 * ?q) =
      Some (out @ drop (length out) d, length out)"
    using lt lo lo' by (simp add: o add.commute)
  with l show "\<exists>x acc d1 p1. dec_loop src (length src) 0 0 0 d 0 = Some (x, acc, d1, p1) \<and>
    dec_tail x acc d1 p1 = Some (out @ drop (length out) d, length out)" by blast
qed


lemma scan_list_error: "scan_list cs n e = Inl x \<Longrightarrow> x = MBEDTLS_ERR_BASE64_INVALID_CHARACTER"
proof (induction cs n e rule: scan_list.induct)
  case (1 cs n e)
  show ?case
  proof (cases "dropWhile (\<lambda>c. c = 32) cs")
    case Nil
    show ?thesis using "1.prems" unfolding scan_list.simps [of cs] Nil by simp
  next
    case (Cons c r)
    show ?thesis
    proof (cases "(c = 13 \<and> r \<noteq> [] \<and> hd r = 10) \<or> c = 10")
      case True
      then show ?thesis using "1.prems" "1.IH"(1) [OF Cons True] Cons by (simp add: scan_list.simps [of cs])
    next
      case False
      show ?thesis
      proof (cases "check_char c (cs \<noteq> c # r) n e")
        case (Inl y)
        then show ?thesis using "1.prems" Cons False
          by (auto simp: scan_list.simps [of cs] check_char_def split: if_splits)
      next
        case (Inr ne)
        obtain n1 e1 where ne: "ne = (n1, e1)" by fastforce
        show ?thesis using "1.prems" "1.IH"(2) [OF Cons False Inr ne [symmetric]] Cons False Inr ne
          by (simp add: scan_list.simps [of cs])
      qed
    qed
  qed
qed

lemma full_dec_length:
  assumes "list_all (is_b64 False) ds" and "e \<le> 2" and "b64_full_dec False (ds @ replicate e 61) = Some out"
  shows "length out = (length ds + e) div 4 * 3 - e"
  using assms(3) unfolding full_dec_alt [OF assms(1,2)] by (auto split: if_splits)

lemma mbed_decode_spec:
  assumes "length src < size_mod"
  shows "mbedtls_base64_decode (Some d) (length d) olen src (length src) =
    (case scan_list src 0 0 of
       Inl x \<Rightarrow> Some ((MBEDTLS_ERR_BASE64_INVALID_CHARACTER, olen), Some d)
     | Inr _ \<Rightarrow> (case b64_full_dec False (filter not_ws src) of
         None \<Rightarrow> Some ((MBEDTLS_ERR_BASE64_INVALID_CHARACTER, olen), Some d)
       | Some out \<Rightarrow> if length d < length out then Some ((MBEDTLS_ERR_BASE64_BUFFER_TOO_SMALL, length out), Some d)
           else Some ((0, length out), Some (out @ drop (length out) d))))"
proof (cases "scan_list src 0 0")
  case (Inl x)
  then show ?thesis using scan_spec [of 0 src 0 0] scan_list_error [OF Inl] by (simp add: mbedtls_base64_decode_def)
next
  case (Inr ne)
  obtain n e where ne: "scan_list src 0 0 = Inr (n, e)" using Inr by (cases ne) auto
  then have sc: "scan src (length src) 0 0 0 = Some (Inr (length src, n, e))" using scan_spec [of 0 src 0 0] by simp
  from scan_list_sound [OF ne] obtain ds where f: "filter not_ws src = ds @ replicate e 61" "list_all (is_b64 False) ds"
      "n = length (filter not_ws src)" "e \<le> 2" by auto
  have n: "n = length ds + e" using f by simp
  show ?thesis
  proof (cases "n mod 4 = 0 \<and> length ds mod 4 \<noteq> 1")
    case False
    then have "b64_full_dec False (filter not_ws src) = None" using full_dec_alt [OF f(2,4)] f(1) n by auto
    then show ?thesis using False sc ne n by (auto simp: mbedtls_base64_decode_def)
  next
    case True
    then obtain out where out: "b64_full_dec False (ds @ replicate e 61) = Some out" using full_dec_alt [OF f(2,4)] n by auto
    have "e \<le> n div 4 * 3" using quad_arith [of "length ds" e] True n f(4) by auto
    moreover have "n div 4 * 3 < size_mod" using length_filter_le [of not_ws src] assms f(3) by linarith
    ultimately have sub: "size_sub (n div 4 * 3) e = length out" using full_dec_length [OF f(2,4) out] n by simp
    show ?thesis
    proof (cases "length d < length out")
      case small: True
      then show ?thesis using True sc ne n out sub f(1) by (simp add: mbedtls_base64_decode_def Let_def)
    next
      case False
      from decode_run(1) [OF f(1,2,4) _ _ out, of d] True n False
      show ?thesis using sc ne out sub f(1) by (auto simp: mbedtls_base64_decode_def Let_def)
    qed
  qed
qed

lemma full_dec_enc: "b64_full_dec False (b64_full_enc False bs) = Some bs"
proof -
  let ?n = "length bs div 3 * 3"
  let ?h = "take ?n bs" and ?s = "unpack (take ?n bs)"
  have h3: "length ?h mod 3 = 0" by (simp add: min_absorb2)
  have vals: "map val64 (b64_enc False ?h) = ?s" 
    unfolding b64_enc_def map_map by (rule map_idI) (simp add: b64_val_char unpack_less)
  have pk: "pack (?s @ v) = ?h @ pack v" for v using pack_append [of ?s v] pack_unpack [OF h3] by simp
  have valid: "list_all (is_b64 False) (b64_enc False ?h)" by (rule b64_enc_valid)
  have bb: "is_b64 False (b64_char False v)" "val64 (b64_char False v) = v" if "v < 64" for v
    using b64_val_char [OF that, of False] by simp_all
  have len: "length (b64_enc False ?h) = 4 * (length bs div 3)" by (simp add: min_absorb2)
  have odd: "Suc (Suc (4 * k)) mod 4 \<noteq> Suc 0" for k :: nat by presburger
  show ?thesis
  proof (rule tail_cases [OF refl, of bs])
    assume "length bs mod 3 = 0" "drop ?n bs = []"
    then show ?thesis using full_dec_alt [OF valid, of 0] vals pk [of "[]"] len
      by (simp add: b64_full_enc_def Let_def b64_last_def)
  next
    fix x assume m: "length bs mod 3 = 1" "drop ?n bs = [x]"
    let ?a = "drop_bit 2 x" and ?b = "(push_bit 4 x OR drop_bit 4 0) AND 63"
    have v: "list_all (is_b64 False) (b64_enc False ?h @ [b64_char False ?a, b64_char False ?b])"
      using valid bb(1) drop_bit_2_less and_63_less by simp
    have e: "b64_full_enc False bs = (b64_enc False ?h @ [b64_char False ?a, b64_char False ?b]) @ replicate 2 61"
      using m by (simp add: b64_full_enc_def Let_def b64_last_def b64_enc_def numeral_2_eq_2)
    have "pack (map val64 (b64_enc False ?h @ [b64_char False ?a, b64_char False ?b]) @ replicate 2 0) = ?h @ pack [?a, ?b, 0, 0]"
      using vals pk [of "[?a, ?b, 0, 0]"] bb(2) [OF drop_bit_2_less] bb(2) [OF and_63_less] by (simp add: numeral_2_eq_2)
    moreover have "take (3 * (length bs div 3) + 1) (?h @ pack [?a, ?b, 0, 0]) = bs"
      using append_take_drop_id [of ?n bs] m(2) pack_unpack_bytes(1) [of x 0] by (simp add: min_absorb2)
    ultimately show ?thesis unfolding e full_dec_alt [OF v order.refl] using len odd by simp
  next
    fix x y assume m: "length bs mod 3 = 2" "drop ?n bs = [x, y]"
    let ?a = "drop_bit 2 x" and ?b = "(push_bit 4 x OR drop_bit 4 y) AND 63" and ?c = "(push_bit 2 y OR drop_bit 6 0) AND 63"
    let ?l = "[b64_char False ?a, b64_char False ?b, b64_char False ?c]"
    have v: "list_all (is_b64 False) (b64_enc False ?h @ ?l)"
      using valid bb(1) drop_bit_2_less and_63_less by simp
    have e: "b64_full_enc False bs = (b64_enc False ?h @ ?l) @ replicate 1 61"
      unfolding b64_full_enc_def Let_def m(2) by (simp add: b64_last_def b64_enc_def)
    have "pack (map val64 (b64_enc False ?h @ ?l) @ replicate 1 0) = ?h @ pack [?a, ?b, ?c, 0]"
      using vals pk [of "[?a, ?b, ?c, 0]"] bb(2) [OF drop_bit_2_less] bb(2) [OF and_63_less] by simp
    moreover have "take (3 * (length bs div 3) + 2) (?h @ pack [?a, ?b, ?c, 0]) = bs"
      using append_take_drop_id [of ?n bs] m(2) pack_unpack_bytes(1) [of x y] pack_unpack_bytes(2) [of x y 0] by (simp add: min_absorb2)
    ultimately show ?thesis unfolding e full_dec_alt [OF v one_le_numeral] using len by simp
  qed
qed


lemma mbed_decode_full_enc:
  assumes "length (b64_full_enc False src) < size_mod" "length src \<le> length d2"
  shows "mbedtls_base64_decode (Some d2) (length d2) 0 (b64_full_enc False src) (length (b64_full_enc False src)) =
    Some ((0, length src), Some (src @ drop (length src) d2))"
proof -
  let ?e = "b64_full_enc False src"
  obtain ds e where f: "?e = ds @ replicate e 61" "list_all (is_b64 False) ds" "e \<le> 2"
    using full_dec_enc [of src] by (auto simp: b64_full_dec_def Let_def split: if_splits)
  then have nw: "filter not_ws ?e = ?e" "list_all (\<lambda>c. c \<noteq> 32 \<and> c \<noteq> 13) ?e"
    using b64_not_ws(1) [of False] by (auto simp: list_all_iff filter_id_conv not_ws_def)
  from scan_list_complete [OF nw(2), of ds e 0 0] f nw(1)
  have "scan_list ?e 0 0 = Inr (length ds + e, e)" by simp
  then show ?thesis using mbed_decode_spec [OF assms(1), of d2 0] nw(1) full_dec_enc [of src] assms(2) by simp
qed

section \<open>Claims\<close>

text \<open>C25. mbedTLS's encoder writes the RFC 4648 encoding with padding, followed by a zero byte, and nothing
  else; it reports the length it needs when the buffer is too small; it stays inside its buffers
  for every input, also when the length of the encoding does not fit \<open>size_t\<close>.\<close>

theorem mbedtls_base64_encode_correct:
  assumes "length d < size_mod"
  shows "mbedtls_base64_encode (Some d) (length d) src (length src) =
    (let e = b64_full_enc False src
     in if src = [] then Some ((0, 0), Some d)
        else if length d < length e + 1
        then Some ((MBEDTLS_ERR_BASE64_BUFFER_TOO_SMALL, if length e < size_mod then length e + 1 else size_mod - 1), Some d)
        else Some ((0, length e), Some (e @ 0 # drop (length e + 1) d)))"
proof (cases "src = []")
  case True
  then show ?thesis by (simp add: mbedtls_base64_encode_def)
next
  case False
  then show ?thesis unfolding Let_def if_not_P [OF False] by (rule mbed_encode_spec [OF assms])
qed

theorem mbedtls_base64_encode_correct_witness:
  "mbedtls_base64_encode (Some [9, 9, 9, 9, 9, 9]) 6 [77, 97] 2 = Some ((0, 4), Some [84, 87, 69, 61, 0, 9])"
proof -
  have e: "b64_full_enc False [77, 97] = [84, 87, 69, 61]" by code_simp
  have lens: "length [9, 9, 9, 9, 9, 9 :: u8] = 6" "length [77, 97 :: u8] = 2" "length [84, 87, 69, 61 :: u8] = 4"
    and l: "length [9, 9, 9, 9, 9, 9 :: u8] < size_mod" by simp_all
  show ?thesis using mbedtls_base64_encode_correct [OF l, of "[77, 97]"] unfolding e lens by (simp add: Let_def)
qed

text \<open>C26. mbedTLS's decoder returns for every input without touching a byte outside its buffers. It refuses
  what is not base64 with white space; otherwise it writes exactly the bytes that the digits, white
  space removed, stand for, or reports how many there are when they do not fit. Text that is broken
  into lines by newlines only is never refused when it is valid.\<close>

theorem mbedtls_base64_decode_correct:
  fixes d :: "u8 list" and olen :: nat
  assumes "length src < size_mod"
  defines "r \<equiv> mbedtls_base64_decode (Some d) (length d) olen src (length src)"
    and "v \<equiv> b64_full_dec False (filter not_ws src)"
  shows "(r = Some ((MBEDTLS_ERR_BASE64_INVALID_CHARACTER, olen), Some d) \<and>
       (v = None \<or> \<not> list_all (\<lambda>c. c \<noteq> 32 \<and> c \<noteq> 13) src)) \<or>
    (\<exists>out. v = Some out \<and> r = (if length d < length out
       then Some ((MBEDTLS_ERR_BASE64_BUFFER_TOO_SMALL, length out), Some d)
       else Some ((0, length out), Some (out @ drop (length out) d))))"
proof (cases "scan_list src 0 0")
  case (Inl x)
  have "v = None" if lf: "list_all (\<lambda>c. c \<noteq> 32 \<and> c \<noteq> 13) src"
  proof (rule ccontr)
    let ?f = "filter not_ws src"
    define ds where "ds = takeWhile (\<lambda>c. c \<noteq> 61) ?f"
    assume "v \<noteq> None"
    then have f: "?f = ds @ replicate (length ?f - length ds) 61" "list_all (is_b64 False) ds" "length ?f - length ds \<le> 2"
      by (auto simp: v_def b64_full_dec_def Let_def ds_def split: if_splits)
    from scan_list_complete [OF lf f(1,2), of 0 0] f(3) Inl show False by simp
  qed
  then show ?thesis using mbed_decode_spec [OF assms(1), of d olen] Inl by (auto simp: r_def)
next
  case (Inr ne)
  then show ?thesis using mbed_decode_spec [OF assms(1), of d olen] by (cases v) (auto simp: r_def v_def [symmetric])
qed

theorem mbedtls_base64_decode_correct_witness:
  "mbedtls_base64_decode (Some [9, 9, 9]) 3 0 [84, 87, 10, 69, 61] 5 = Some ((0, 2), Some [77, 97, 9])"
proof -
  have lens: "length [9, 9, 9 :: u8] = 3" "length [84, 87, 10, 69, 61 :: u8] = 5" "length [77, 97 :: u8] = 2" by simp_all
  have v: "b64_full_dec False (filter not_ws [84, 87, 10, 69, 61]) = Some [77, 97]" by code_simp
  have l: "length [84, 87, 10, 69, 61 :: u8] < size_mod" by simp
  from mbedtls_base64_decode_correct [OF l, of "[9, 9, 9]" 0] show ?thesis unfolding v lens by simp
qed

text \<open>C27. Decoding what the encoder wrote gives back the source, for every source that a buffer can hold.\<close>

theorem mbedtls_base64_round_trip:
  assumes "length d < size_mod" and "length (b64_full_enc False src) < length d" and "src \<noteq> []" and "length src \<le> length d2"
  shows "\<exists>n out rest. mbedtls_base64_encode (Some d) (length d) src (length src) = Some ((0, n), Some (out @ rest)) \<and> length out = n \<and>
    mbedtls_base64_decode (Some d2) (length d2) 0 out n = Some ((0, length src), Some (src @ drop (length src) d2))"
proof -
  let ?e = "b64_full_enc False src"
  have enc: "mbedtls_base64_encode (Some d) (length d) src (length src) = Some ((0, length ?e), Some (?e @ 0 # drop (length ?e + 1) d))"
    using mbed_encode_spec [OF assms(1,3)] assms(2) by simp
  have "length ?e < size_mod" using assms(1,2) by linarith
  from mbed_decode_full_enc [OF this assms(4)] show ?thesis using enc by blast
qed

theorem mbedtls_base64_round_trip_witness:
  "\<exists>n out rest. mbedtls_base64_encode (Some (replicate 6 0)) 6 [77, 97] 2 = Some ((0, n), Some (out @ rest)) \<and> length out = n \<and>
    mbedtls_base64_decode (Some [1, 1, 1]) 3 0 out n = Some ((0, 2), Some [77, 97, 1])"
proof -
  have e: "length (b64_full_enc False [77, 97]) < length (replicate 6 (0 :: u8))" by code_simp
  have l: "length (replicate 6 (0 :: u8)) < size_mod" by simp
  have lens: "length (replicate 6 (0 :: u8)) = 6" "length [1, 1, 1 :: u8] = 3" "length [77, 97 :: u8] = 2" by simp_all
  from mbedtls_base64_round_trip [OF l e, of "[1, 1, 1]"] show ?thesis unfolding lens by simp
qed
end
