(* ===== verification/Asn1.thy ===== *)
theory Asn1
  imports MbedBase64
begin

text \<open>
  \<open>internal/mbedtls/asn1parse.c\<close>: the DER reader under the certificate and key parsers.

  The input is a byte list; a pointer into it is an index. Every function takes the cursor \<open>*p\<close>, the
  end pointer and the old value of its output, and returns \<open>Some (ret, *p, output)\<close>; \<open>None\<close> is an
  access outside the input. An output that C leaves uninitialised starts as 0. \<open>size_t\<close> values are
  natural numbers: a length has at most four digits, so no shift wraps.
\<close>

section \<open>Constants and structures\<close>

definition MBEDTLS_ERR_ASN1_OUT_OF_DATA :: int where "MBEDTLS_ERR_ASN1_OUT_OF_DATA = - 0x60"
definition MBEDTLS_ERR_ASN1_UNEXPECTED_TAG :: int where "MBEDTLS_ERR_ASN1_UNEXPECTED_TAG = - 0x62"
definition MBEDTLS_ERR_ASN1_INVALID_LENGTH :: int where "MBEDTLS_ERR_ASN1_INVALID_LENGTH = - 0x64"
definition MBEDTLS_ERR_ASN1_LENGTH_MISMATCH :: int where "MBEDTLS_ERR_ASN1_LENGTH_MISMATCH = - 0x66"
definition MBEDTLS_ERR_ASN1_INVALID_DATA :: int where "MBEDTLS_ERR_ASN1_INVALID_DATA = - 0x68"
definition MBEDTLS_ERR_ASN1_ALLOC_FAILED :: int where "MBEDTLS_ERR_ASN1_ALLOC_FAILED = - 0x6A"
definition MBEDTLS_ERR_ASN1_BUF_TOO_SMALL :: int where "MBEDTLS_ERR_ASN1_BUF_TOO_SMALL = - 0x6C"

lemmas asn1_codes = MBEDTLS_ERR_ASN1_OUT_OF_DATA_def MBEDTLS_ERR_ASN1_UNEXPECTED_TAG_def
  MBEDTLS_ERR_ASN1_INVALID_LENGTH_def MBEDTLS_ERR_ASN1_LENGTH_MISMATCH_def MBEDTLS_ERR_ASN1_INVALID_DATA_def
  MBEDTLS_ERR_ASN1_ALLOC_FAILED_def MBEDTLS_ERR_ASN1_BUF_TOO_SMALL_def

abbreviation (input) MBEDTLS_ASN1_BOOLEAN :: int where "MBEDTLS_ASN1_BOOLEAN \<equiv> 0x01"
abbreviation (input) MBEDTLS_ASN1_INTEGER :: int where "MBEDTLS_ASN1_INTEGER \<equiv> 0x02"
abbreviation (input) MBEDTLS_ASN1_BIT_STRING :: int where "MBEDTLS_ASN1_BIT_STRING \<equiv> 0x03"
abbreviation (input) MBEDTLS_ASN1_OCTET_STRING :: int where "MBEDTLS_ASN1_OCTET_STRING \<equiv> 0x04"
abbreviation (input) MBEDTLS_ASN1_NULL :: int where "MBEDTLS_ASN1_NULL \<equiv> 0x05"
abbreviation (input) MBEDTLS_ASN1_OID :: int where "MBEDTLS_ASN1_OID \<equiv> 0x06"
abbreviation (input) MBEDTLS_ASN1_ENUMERATED :: int where "MBEDTLS_ASN1_ENUMERATED \<equiv> 0x0A"
abbreviation (input) MBEDTLS_ASN1_UTF8_STRING :: int where "MBEDTLS_ASN1_UTF8_STRING \<equiv> 0x0C"
abbreviation (input) MBEDTLS_ASN1_PRINTABLE_STRING :: int where "MBEDTLS_ASN1_PRINTABLE_STRING \<equiv> 0x13"
abbreviation (input) MBEDTLS_ASN1_IA5_STRING :: int where "MBEDTLS_ASN1_IA5_STRING \<equiv> 0x16"

text \<open>\<open>MBEDTLS_ASN1_CONSTRUCTED | MBEDTLS_ASN1_SEQUENCE\<close>\<close>

abbreviation (input) ASN1_SEQUENCE :: int where "ASN1_SEQUENCE \<equiv> 0x30"

text \<open>A pointer of a structure is an index into the input, \<open>None\<close> for a null pointer.\<close>

record mbedtls_asn1_buf =
  asn1_tag :: int
  asn1_len :: nat
  asn1_p :: "nat option"

record mbedtls_asn1_bitstring =
  bs_len :: nat
  unused_bits :: u8
  bs_p :: "nat option"

abbreviation zero_buf :: mbedtls_asn1_buf where
  "zero_buf \<equiv> \<lparr>asn1_tag = 0, asn1_len = 0, asn1_p = None\<rparr>"

section \<open>Lengths and tags\<close>

fun get_len_digits :: "bytes \<Rightarrow> nat \<Rightarrow> nat \<Rightarrow> nat \<Rightarrow> (nat \<times> nat) option" where
  "get_len_digits b pos 0 l = Some (pos, l)"
| "get_len_digits b pos (Suc n) l = do {
     c \<leftarrow> rd1 b pos;
     get_len_digits b (pos + 1) n (push_bit 8 l OR unat c)
   }"

definition get_len_bound :: "nat \<Rightarrow> nat \<Rightarrow> nat \<Rightarrow> (int \<times> nat \<times> nat) option" where
  "get_len_bound pos stop l =
    Some (if l > stop - pos then MBEDTLS_ERR_ASN1_OUT_OF_DATA else 0, pos, l)"

definition mbedtls_asn1_get_len :: "bytes \<Rightarrow> nat \<Rightarrow> nat \<Rightarrow> nat \<Rightarrow> (int \<times> nat \<times> nat) option" where
  "mbedtls_asn1_get_len b pos stop l =
    (if stop < pos + 1 then Some (MBEDTLS_ERR_ASN1_OUT_OF_DATA, pos, l)
     else do {
       c \<leftarrow> rd1 b pos;
       if c AND 0x80 = 0 then get_len_bound (pos + 1) stop (unat c)
       else
         let n = unat (c AND 0x7F)
         in if n = 0 \<or> n > 4 then Some (MBEDTLS_ERR_ASN1_INVALID_LENGTH, pos, l)
            else if stop - pos \<le> n then Some (MBEDTLS_ERR_ASN1_OUT_OF_DATA, pos, l)
            else do {
              (pos, l) \<leftarrow> get_len_digits b (pos + 1) n 0;
              get_len_bound pos stop l
            }
     })"

definition mbedtls_asn1_get_tag :: "bytes \<Rightarrow> nat \<Rightarrow> nat \<Rightarrow> nat \<Rightarrow> int \<Rightarrow> (int \<times> nat \<times> nat) option" where
  "mbedtls_asn1_get_tag b pos stop l t =
    (if stop < pos + 1 then Some (MBEDTLS_ERR_ASN1_OUT_OF_DATA, pos, l)
     else do {
       c \<leftarrow> rd1 b pos;
       if uint c \<noteq> t then Some (MBEDTLS_ERR_ASN1_UNEXPECTED_TAG, pos, l)
       else mbedtls_asn1_get_len b (pos + 1) stop l
     })"

section \<open>Booleans and integers\<close>

definition mbedtls_asn1_get_bool :: "bytes \<Rightarrow> nat \<Rightarrow> nat \<Rightarrow> int \<Rightarrow> (int \<times> nat \<times> int) option" where
  "mbedtls_asn1_get_bool b pos stop val = do {
     (ret, pos, l) \<leftarrow> mbedtls_asn1_get_tag b pos stop 0 MBEDTLS_ASN1_BOOLEAN;
     if ret \<noteq> 0 then Some (ret, pos, val)
     else if l \<noteq> 1 then Some (MBEDTLS_ERR_ASN1_INVALID_LENGTH, pos, val)
     else do {
       c \<leftarrow> rd1 b pos;
       Some (0, pos + 1, if c \<noteq> 0 then 1 else 0)
     }
   }"

fun skip_zeros :: "bytes \<Rightarrow> nat \<Rightarrow> nat \<Rightarrow> (nat \<times> nat) option" where
  "skip_zeros b pos 0 = Some (pos, 0)"
| "skip_zeros b pos (Suc l) = do {
     c \<leftarrow> rd1 b pos;
     if c = 0 then skip_zeros b (pos + 1) l else Some (pos, Suc l)
   }"

fun get_int_digits :: "bytes \<Rightarrow> nat \<Rightarrow> nat \<Rightarrow> int \<Rightarrow> (nat \<times> int) option" where
  "get_int_digits b pos 0 val = Some (pos, val)"
| "get_int_digits b pos (Suc l) val = do {
     c \<leftarrow> rd1 b pos;
     get_int_digits b (pos + 1) l (push_bit 8 val OR uint c)
   }"

text \<open>\<open>sizeof(int)\<close> is 4.\<close>

definition asn1_get_tagged_int :: "bytes \<Rightarrow> nat \<Rightarrow> nat \<Rightarrow> int \<Rightarrow> int \<Rightarrow> (int \<times> nat \<times> int) option" where
  "asn1_get_tagged_int b pos stop t val = do {
     (ret, pos, l) \<leftarrow> mbedtls_asn1_get_tag b pos stop 0 t;
     if ret \<noteq> 0 then Some (ret, pos, val)
     else if l = 0 then Some (MBEDTLS_ERR_ASN1_INVALID_LENGTH, pos, val)
     else do {
       c \<leftarrow> rd1 b pos;
       if c AND 0x80 \<noteq> 0 then Some (MBEDTLS_ERR_ASN1_INVALID_LENGTH, pos, val)
       else do {
         (pos, l) \<leftarrow> skip_zeros b pos l;
         if l > 4 then Some (MBEDTLS_ERR_ASN1_INVALID_LENGTH, pos, val)
         else do {
           top \<leftarrow> (if l = 4 then do { c \<leftarrow> rd1 b pos; Some (c AND 0x80 \<noteq> 0) } else Some False);
           if top then Some (MBEDTLS_ERR_ASN1_INVALID_LENGTH, pos, val)
           else do {
             (pos, val) \<leftarrow> get_int_digits b pos l 0;
             Some (0, pos, val)
           }
         }
       }
     }
   }"

definition mbedtls_asn1_get_int :: "bytes \<Rightarrow> nat \<Rightarrow> nat \<Rightarrow> int \<Rightarrow> (int \<times> nat \<times> int) option" where
  "mbedtls_asn1_get_int b pos stop val = asn1_get_tagged_int b pos stop MBEDTLS_ASN1_INTEGER val"

definition mbedtls_asn1_get_enum :: "bytes \<Rightarrow> nat \<Rightarrow> nat \<Rightarrow> int \<Rightarrow> (int \<times> nat \<times> int) option" where
  "mbedtls_asn1_get_enum b pos stop val = asn1_get_tagged_int b pos stop MBEDTLS_ASN1_ENUMERATED val"

section \<open>Bit strings\<close>

definition mbedtls_asn1_get_bitstring ::
  "bytes \<Rightarrow> nat \<Rightarrow> nat \<Rightarrow> mbedtls_asn1_bitstring \<Rightarrow> (int \<times> nat \<times> mbedtls_asn1_bitstring) option" where
  "mbedtls_asn1_get_bitstring b pos stop bs = do {
     (ret, pos, l) \<leftarrow> mbedtls_asn1_get_tag b pos stop (bs_len bs) MBEDTLS_ASN1_BIT_STRING;
     let bs = bs\<lparr>bs_len := l\<rparr>;
     if ret \<noteq> 0 then Some (ret, pos, bs)
     else if l < 1 then Some (MBEDTLS_ERR_ASN1_OUT_OF_DATA, pos, bs)
     else do {
       c \<leftarrow> rd1 b pos;
       let bs = bs\<lparr>bs_len := l - 1, unused_bits := c\<rparr>;
       if c > 7 then Some (MBEDTLS_ERR_ASN1_INVALID_LENGTH, pos, bs)
       else
         let bs = bs\<lparr>bs_p := Some (pos + 1)\<rparr>;
             pos = pos + 1 + bs_len bs
         in Some (if pos \<noteq> stop then MBEDTLS_ERR_ASN1_LENGTH_MISMATCH else 0, pos, bs)
     }
   }"

definition mbedtls_asn1_get_bitstring_null :: "bytes \<Rightarrow> nat \<Rightarrow> nat \<Rightarrow> nat \<Rightarrow> (int \<times> nat \<times> nat) option" where
  "mbedtls_asn1_get_bitstring_null b pos stop l = do {
     (ret, pos, l) \<leftarrow> mbedtls_asn1_get_tag b pos stop l MBEDTLS_ASN1_BIT_STRING;
     if ret \<noteq> 0 then Some (ret, pos, l)
     else if l = 0 then Some (MBEDTLS_ERR_ASN1_INVALID_DATA, pos, l)
     else do {
       c \<leftarrow> rd1 b pos;
       if c \<noteq> 0 then Some (MBEDTLS_ERR_ASN1_INVALID_DATA, pos, l - 1)
       else Some (0, pos + 1, l - 1)
     }
   }"

section \<open>Sequences\<close>

lemma get_len_digits_pos: "get_len_digits b pos n l = Some (pos', l') \<Longrightarrow> pos' = pos + n"
  by (induction b pos n l rule: get_len_digits.induct) (auto simp: bind_eq_Some_conv)

lemma get_len_pos: "mbedtls_asn1_get_len b pos stop l = Some (ret, pos', l') \<Longrightarrow> pos \<le> pos'"
  by (auto simp: mbedtls_asn1_get_len_def get_len_bound_def Let_def bind_eq_Some_conv
      dest!: get_len_digits_pos split: if_splits)

text \<open>The callback gets its context, the tag, the start and the length of the item.\<close>

type_synonym 'c seq_cb = "'c \<Rightarrow> int \<Rightarrow> nat \<Rightarrow> nat \<Rightarrow> int \<times> 'c"

function traverse_loop ::
  "bytes \<Rightarrow> nat \<Rightarrow> nat \<Rightarrow> u8 \<Rightarrow> u8 \<Rightarrow> u8 \<Rightarrow> u8 \<Rightarrow> 'c seq_cb option \<Rightarrow> 'c \<Rightarrow> (int \<times> nat \<times> 'c) option" where
  "traverse_loop b pos stop must_mask must_val may_mask may_val cb ctx =
    (if pos < stop then do {
       t \<leftarrow> rd1 b pos;
       if t AND must_mask \<noteq> must_val then Some (MBEDTLS_ERR_ASN1_UNEXPECTED_TAG, pos + 1, ctx)
       else case mbedtls_asn1_get_len b (pos + 1) stop 0 of
              None \<Rightarrow> None
            | Some (ret, pos', l) \<Rightarrow>
                if ret \<noteq> 0 then Some (ret, pos', ctx)
                else
                  let (ret, ctx) = (if t AND may_mask = may_val
                        then (case cb of None \<Rightarrow> (0, ctx) | Some f \<Rightarrow> f ctx (uint t) pos' l) else (0, ctx))
                  in if ret \<noteq> 0 then Some (ret, pos', ctx)
                     else traverse_loop b (pos' + l) stop must_mask must_val may_mask may_val cb ctx
     } else Some (0, pos, ctx))"
  by pat_completeness auto
termination
  by (relation "measure (\<lambda>(b, pos, stop, _). stop - pos)") (auto dest!: get_len_pos)

declare traverse_loop.simps [simp del]

definition mbedtls_asn1_traverse_sequence_of ::
  "bytes \<Rightarrow> nat \<Rightarrow> nat \<Rightarrow> u8 \<Rightarrow> u8 \<Rightarrow> u8 \<Rightarrow> u8 \<Rightarrow> 'c seq_cb option \<Rightarrow> 'c \<Rightarrow> (int \<times> nat \<times> 'c) option" where
  "mbedtls_asn1_traverse_sequence_of b pos stop must_mask must_val may_mask may_val cb ctx = do {
     (ret, pos, l) \<leftarrow> mbedtls_asn1_get_tag b pos stop 0 ASN1_SEQUENCE;
     if ret \<noteq> 0 then Some (ret, pos, ctx)
     else if pos + l \<noteq> stop then Some (MBEDTLS_ERR_ASN1_LENGTH_MISMATCH, pos, ctx)
     else traverse_loop b pos stop must_mask must_val may_mask may_val cb ctx
   }"

section \<open>Algorithm identifiers\<close>

definition get_alg_params ::
  "bytes \<Rightarrow> nat \<Rightarrow> nat \<Rightarrow> mbedtls_asn1_buf \<Rightarrow> (int \<times> nat \<times> mbedtls_asn1_buf) option" where
  "get_alg_params b pos stop params =
    (if pos = stop then Some (0, pos, zero_buf)
     else do {
       c \<leftarrow> rd1 b pos;
       let params = params\<lparr>asn1_tag := uint c\<rparr>;
       (ret, pos, l) \<leftarrow> mbedtls_asn1_get_len b (pos + 1) stop (asn1_len params);
       let params = params\<lparr>asn1_len := l\<rparr>;
       if ret \<noteq> 0 then Some (ret, pos, params)
       else
         let params = params\<lparr>asn1_p := Some pos\<rparr>; pos = pos + l
         in Some (if pos \<noteq> stop then MBEDTLS_ERR_ASN1_LENGTH_MISMATCH else 0, pos, params)
     })"

definition mbedtls_asn1_get_alg ::
  "bytes \<Rightarrow> nat \<Rightarrow> nat \<Rightarrow> mbedtls_asn1_buf \<Rightarrow> mbedtls_asn1_buf \<Rightarrow>
    (int \<times> nat \<times> mbedtls_asn1_buf \<times> mbedtls_asn1_buf) option" where
  "mbedtls_asn1_get_alg b pos stop alg params = do {
     (ret, pos, l) \<leftarrow> mbedtls_asn1_get_tag b pos stop 0 ASN1_SEQUENCE;
     if ret \<noteq> 0 then Some (ret, pos, alg, params)
     else if stop < pos + 1 then Some (MBEDTLS_ERR_ASN1_OUT_OF_DATA, pos, alg, params)
     else do {
       c \<leftarrow> rd1 b pos;
       let alg = alg\<lparr>asn1_tag := uint c\<rparr>;
       let stop = pos + l;
       (ret, pos, l) \<leftarrow> mbedtls_asn1_get_tag b pos stop (asn1_len alg) MBEDTLS_ASN1_OID;
       let alg = alg\<lparr>asn1_len := l\<rparr>;
       if ret \<noteq> 0 then Some (ret, pos, alg, params)
       else do {
         let alg = alg\<lparr>asn1_p := Some pos\<rparr>;
         (ret, pos, params) \<leftarrow> get_alg_params b (pos + l) stop params;
         Some (ret, pos, alg, params)
       }
     }
   }"

definition mbedtls_asn1_get_alg_null ::
  "bytes \<Rightarrow> nat \<Rightarrow> nat \<Rightarrow> mbedtls_asn1_buf \<Rightarrow> (int \<times> nat \<times> mbedtls_asn1_buf) option" where
  "mbedtls_asn1_get_alg_null b pos stop alg = do {
     (ret, pos, alg, params) \<leftarrow> mbedtls_asn1_get_alg b pos stop alg zero_buf;
     if ret \<noteq> 0 then Some (ret, pos, alg)
     else if (asn1_tag params \<noteq> MBEDTLS_ASN1_NULL \<and> asn1_tag params \<noteq> 0) \<or> asn1_len params \<noteq> 0
     then Some (MBEDTLS_ERR_ASN1_INVALID_DATA, pos, alg)
     else Some (0, pos, alg)
   }"

end
