(* ===== verification/Asn1_Correct.thy ===== *)
theory Asn1_Correct
  imports Asn1
begin

text \<open>
  The DER reader against a reference decoder on byte lists. \<open>der_head\<close> reads a length, \<open>tlv\<close> splits
  one item off a list, and \<open>tlvs\<close> a whole list into items. The cursor functions work on the window
  between cursor and end.
\<close>

section \<open>Reference decoder\<close>

definition be_val :: "bytes \<Rightarrow> nat" where
  "be_val cs = foldl (\<lambda>v c. v * 256 + unat c) 0 cs"

fun der_head :: "bytes \<Rightarrow> (nat \<times> nat) option" where
  "der_head [] = None"
| "der_head (c # r) =
    (if c < 128 then Some (1, unat c)
     else let n = unat c - 128
          in if n = 0 \<or> n > 4 \<or> length r < n then None else Some (Suc n, be_val (take n r)))"

fun tlv :: "bytes \<Rightarrow> (u8 \<times> bytes \<times> bytes) option" where
  "tlv [] = None"
| "tlv (t # r) = (case der_head r of
     None \<Rightarrow> None
   | Some (h, l) \<Rightarrow> if h + l \<le> length r then Some (t, take l (drop h r), drop (h + l) r) else None)"

definition win :: "bytes \<Rightarrow> nat \<Rightarrow> nat \<Rightarrow> bytes" where
  "win b pos stop = take (stop - pos) (drop pos b)"

section \<open>Windows and digits\<close>

lemma length_win [simp]: "stop \<le> length b \<Longrightarrow> length (win b pos stop) = stop - pos"
  by (simp add: win_def)

lemma win_Cons: "pos < stop \<Longrightarrow> stop \<le> length b \<Longrightarrow> win b pos stop = b ! pos # win b (Suc pos) stop"
  by (simp add: win_def Cons_nth_drop_Suc [symmetric] take_Cons' Suc_diff_Suc [symmetric])

lemma drop_win: "drop n (win b pos stop) = win b (pos + n) stop"
  by (simp add: win_def drop_take add.commute)

lemma win_empty [simp]: "stop \<le> pos \<Longrightarrow> win b pos stop = []"
  by (simp add: win_def)

lemma take_win: "pos + n \<le> stop \<Longrightarrow> take n (win b pos stop) = win b pos (pos + n)"
  by (simp add: win_def min_def)

lemma shift_or_nat: "push_bit 8 v OR unat (c :: u8) = v * 256 + unat c"
proof -
  have "push_bit 8 v AND unat c = 0"
    by (rule bit_eqI) (auto simp: bit_simps dest: bit_imp_le_length)
  then have "push_bit 8 v + unat c = push_bit 8 v OR unat c" by (rule disjunctive_add_eq_or)
  then show ?thesis by (simp add: push_bit_eq_mult)
qed

lemma shift_or_int: "push_bit 8 (int v) OR uint (c :: u8) = int (v * 256 + unat c)"
proof -
  have "push_bit 8 (int v) AND uint c = 0"
    by (rule bit_eqI) (auto simp: bit_simps dest: bit_imp_le_length)
  then have "push_bit 8 (int v) + uint c = push_bit 8 (int v) OR uint c" by (rule disjunctive_add_eq_or)
  then show ?thesis by (simp add: push_bit_eq_mult)
qed

lemma be_foldl: "foldl (\<lambda>v c. v * 256 + unat c) v cs = v * 256 ^ length cs + be_val cs"
proof -
  have "foldl (\<lambda>v c. v * 256 + unat c) (v + w) cs = v * 256 ^ length cs + foldl (\<lambda>v c. v * 256 + unat c) w cs" for w
  proof (induction cs arbitrary: v w)
    case (Cons c cs)
    show ?case using Cons [of "v * 256" "w * 256 + unat c"] by (simp add: algebra_simps)
  qed simp
  from this [of 0] show ?thesis by (simp add: be_val_def)
qed

lemma be_val_simps: "be_val [] = 0" "be_val (c # cs) = unat c * 256 ^ length cs + be_val cs"
  "be_val (xs @ ys) = be_val xs * 256 ^ length ys + be_val ys"
  using be_foldl [of "unat c" cs] be_foldl [of "be_val xs" ys] by (simp_all add: be_val_def)

lemma be_val_less: "be_val cs < 256 ^ length cs"
proof (induction cs)
  case (Cons c cs)
  have "unat c < 256" using unsigned_less [of c, where ?'a = nat] by simp
  then have "Suc (unat c) * 256 ^ length cs \<le> 256 * 256 ^ length cs" by (intro mult_le_mono) auto
  with Cons show ?case unfolding be_val_simps mult_Suc length_Cons power_Suc by linarith
qed (simp add: be_val_simps)

lemma get_len_digits_spec:
  "pos + n \<le> length b \<Longrightarrow>
    get_len_digits b pos n l = Some (pos + n, l * 256 ^ n + be_val (win b pos (pos + n)))"
proof (induction b pos n l rule: get_len_digits.induct)
  case (2 b pos n l)
  have "win b pos (pos + Suc n) = b ! pos # win b (Suc pos) (Suc pos + n)" using 2(2) by (simp add: win_Cons)
  then show ?case using 2 by (simp add: rd1_def shift_or_nat be_val_simps algebra_simps)
qed (simp add: be_val_simps)

lemma get_int_digits_spec:
  "pos + n \<le> length b \<Longrightarrow>
    get_int_digits b pos n (int v) = Some (pos + n, int (v * 256 ^ n + be_val (win b pos (pos + n))))"
proof (induction n arbitrary: pos v)
  case (Suc n)
  have "win b pos (pos + Suc n) = b ! pos # win b (Suc pos) (Suc pos + n)" using Suc(2) by (simp add: win_Cons)
  then show ?case using Suc(2) Suc(1) [of "Suc pos" "v * 256 + unat (b ! pos)"]
    by (simp add: rd1_def shift_or_int be_val_simps algebra_simps)
qed (simp add: be_val_simps)

lemma skip_zeros_spec:
  "pos + l \<le> length b \<Longrightarrow> \<exists>k \<le> l. skip_zeros b pos l = Some (pos + k, l - k) \<and>
    win b pos (pos + l) = replicate k 0 @ win b (pos + k) (pos + l) \<and> (k < l \<longrightarrow> b ! (pos + k) \<noteq> 0)"
proof (induction b pos l rule: skip_zeros.induct)
  case (2 b pos l)
  show ?case
  proof (cases "b ! pos = 0")
    case True
    with 2 obtain k where k: "k \<le> l" "skip_zeros b (pos + 1) l = Some (pos + 1 + k, l - k)"
        "win b (pos + 1) (pos + 1 + l) = replicate k 0 @ win b (pos + 1 + k) (pos + 1 + l)"
        "k < l \<longrightarrow> b ! (pos + 1 + k) \<noteq> 0" by (auto simp: rd1_def)
    have "win b pos (pos + Suc l) = 0 # win b (pos + 1) (pos + 1 + l)" using True 2(2) by (simp add: win_Cons)
    then show ?thesis using k True 2(2) by (intro exI [of _ "Suc k"]) (auto simp: rd1_def)
  next
    case False
    then show ?thesis using 2(2) by (intro exI [of _ 0]) (auto simp: rd1_def)
  qed
qed (auto intro!: exI [of _ 0])

lemma be_val_zeros: "be_val (replicate k 0 @ cs) = be_val cs"
  by (induction k) (simp_all add: be_val_simps)

section \<open>Lengths and tags\<close>

lemma high_bit: "c AND 0x80 = 0 \<longleftrightarrow> c < 128" "128 \<le> c \<Longrightarrow> unat (c AND 0x7F) = unat c - 128" for c :: u8
proof -
  show "c AND 0x80 = 0 \<longleftrightarrow> c < 128"
    by (rule all_u8_check [where P = "\<lambda>c. (c AND 0x80 = 0) = (c < 128)"]) code_simp
  have "128 \<le> c \<longrightarrow> unat (c AND 0x7F) = unat c - 128"
    by (rule all_u8_check [where P = "\<lambda>c. 128 \<le> c \<longrightarrow> unat (c AND 0x7F) = unat c - 128"]) code_simp
  then show "128 \<le> c \<Longrightarrow> unat (c AND 0x7F) = unat c - 128" by simp
qed

lemma get_len_spec:
  assumes "pos \<le> stop" and "stop \<le> length b"
  shows "case der_head (win b pos stop) of
      None \<Rightarrow> \<exists>e < 0. mbedtls_asn1_get_len b pos stop l0 = Some (e, pos, l0)
    | Some (h, l) \<Rightarrow> mbedtls_asn1_get_len b pos stop l0 =
        Some (if h + l \<le> stop - pos then 0 else MBEDTLS_ERR_ASN1_OUT_OF_DATA, pos + h, l) \<and> 1 \<le> h \<and> pos + h \<le> stop"
proof (cases "pos < stop")
  case False
  then show ?thesis using assms by (simp add: mbedtls_asn1_get_len_def asn1_codes)
next
  case True
  let ?c = "b ! pos"
  have w: "win b pos stop = ?c # win b (Suc pos) stop" using True assms(2) by (rule win_Cons)
  have r: "rd1 b pos = Some ?c" using True assms(2) by (simp add: rd1_def)
  show ?thesis
  proof (cases "?c < 128")
    case small: True
    then show ?thesis using True by (auto simp: w mbedtls_asn1_get_len_def r high_bit(1) get_len_bound_def asn1_codes)
  next
    case False
    define n where "n = unat ?c - 128"
    have nn: "unat (?c AND 0x7F) = n" using False high_bit(2) [of ?c] by (simp add: n_def not_less)
    have d: "get_len_digits b (pos + 1) n 0 = Some (pos + 1 + n, be_val (take n (win b (Suc pos) stop)))"
      if "\<not> stop - pos \<le> n"
      using that assms True get_len_digits_spec [of "pos + 1" n b 0] by (simp add: take_win)
    have nc: "?c AND 0x80 \<noteq> 0" using False high_bit(1) by simp
    show ?thesis
    proof (cases "n = 0 \<or> n > 4 \<or> stop - pos \<le> n")
      case bad: True
      have "der_head (win b pos stop) = None" using bad False assms(2) True by (auto simp: w Let_def n_def [symmetric])
      moreover have "\<exists>e < 0. mbedtls_asn1_get_len b pos stop l0 = Some (e, pos, l0)"
        using bad True nc unfolding mbedtls_asn1_get_len_def r nn by (auto simp: nn Let_def asn1_codes)
      ultimately show ?thesis by simp
    next
      case ok: False
      have "der_head (win b pos stop) = Some (Suc n, be_val (take n (win b (Suc pos) stop)))"
        using ok False assms(2) True by (auto simp: w Let_def n_def [symmetric])
      moreover have "mbedtls_asn1_get_len b pos stop l0 =
          get_len_bound (pos + 1 + n) stop (be_val (take n (win b (Suc pos) stop)))"
        using ok True nc d unfolding mbedtls_asn1_get_len_def r by (simp add: nn Let_def)
      ultimately show ?thesis using ok True by (auto simp: get_len_bound_def)
    qed
  qed
qed

lemma get_len_cases:
  assumes "pos \<le> stop" and "stop \<le> length b"
  obtains (ok) h l where "der_head (win b pos stop) = Some (h, l)" "h + l \<le> stop - pos" "1 \<le> h"
      "mbedtls_asn1_get_len b pos stop l0 = Some (0, pos + h, l)"
  | (err) e pos' l' where "mbedtls_asn1_get_len b pos stop l0 = Some (e, pos', l')" "e < 0" "pos \<le> pos'" "pos' \<le> stop"
      "\<And>h l. der_head (win b pos stop) = Some (h, l) \<Longrightarrow> stop - pos < h + l"
proof (cases "der_head (win b pos stop)")
  case None
  then show ?thesis using get_len_spec [OF assms, of l0] assms(1) by (auto intro: err)
next
  case (Some hl)
  obtain h l where "hl = (h, l)" by fastforce
  then have g: "mbedtls_asn1_get_len b pos stop l0 =
        Some (if h + l \<le> stop - pos then 0 else MBEDTLS_ERR_ASN1_OUT_OF_DATA, pos + h, l)" "1 \<le> h" "pos + h \<le> stop"
      and d: "der_head (win b pos stop) = Some (h, l)"
    using get_len_spec [OF assms, of l0] Some by auto
  show ?thesis
  proof (cases "h + l \<le> stop - pos")
    case True
    then show ?thesis using g d by (intro ok [of h l]) auto
  next
    case False
    then show ?thesis using g d by (intro err [of MBEDTLS_ERR_ASN1_OUT_OF_DATA "pos + h" l]) (auto simp: asn1_codes)
  qed
qed

lemma get_tag_cases:
  assumes "pos \<le> stop" and "stop \<le> length b"
  obtains (ok) t8 cs rest q where "tlv (win b pos stop) = Some (t8, cs, rest)" "uint t8 = t" "pos + 2 \<le> q"
      "mbedtls_asn1_get_tag b pos stop l0 t = Some (0, q, length cs)" "win b q stop = cs @ rest"
      "q + length cs + length rest = stop" "cs = win b q (q + length cs)"
  | (err) e pos' l' where "mbedtls_asn1_get_tag b pos stop l0 t = Some (e, pos', l')" "e < 0" "pos \<le> pos'" "pos' \<le> stop"
      "\<And>t8 cs rest. tlv (win b pos stop) = Some (t8, cs, rest) \<Longrightarrow> uint t8 \<noteq> t"
proof (cases "pos < stop")
  case False
  then have "mbedtls_asn1_get_tag b pos stop l0 t = Some (MBEDTLS_ERR_ASN1_OUT_OF_DATA, pos, l0)" "win b pos stop = []"
    using assms by (auto simp: mbedtls_asn1_get_tag_def)
  then show ?thesis using assms(1) by (intro err) (auto simp: asn1_codes)
next
  case True
  let ?c = "b ! pos"
  have w: "win b pos stop = ?c # win b (Suc pos) stop" using True assms(2) by (rule win_Cons)
  have r: "rd1 b pos = Some ?c" using True assms(2) by (simp add: rd1_def)
  have g: "mbedtls_asn1_get_tag b pos stop l0 t = (if uint ?c \<noteq> t then Some (MBEDTLS_ERR_ASN1_UNEXPECTED_TAG, pos, l0)
      else mbedtls_asn1_get_len b (Suc pos) stop l0)" using True by (simp add: mbedtls_asn1_get_tag_def r)
  show ?thesis
  proof (cases "uint ?c = t")
    case False
    have "uint t8 \<noteq> t" if "tlv (win b pos stop) = Some (t8, cs, rest)" for t8 cs rest
      using that False by (auto simp: w split: option.splits if_splits)
    then show ?thesis using False g True by (intro err [of MBEDTLS_ERR_ASN1_UNEXPECTED_TAG pos l0]) (auto simp: asn1_codes)
  next
    case t: True
    have s: "Suc pos \<le> stop" using True by simp
    show ?thesis
    proof (rule get_len_cases [OF s assms(2), of l0], goal_cases)
      case (1 h l)
      let ?r = "win b (Suc pos) stop"
      have "tlv (win b pos stop) = Some (?c, take l (drop h ?r), drop (h + l) ?r)"
        using 1 True assms(2) by (simp add: w)
      moreover have "win b (Suc pos + h) stop = take l (drop h ?r) @ drop (h + l) ?r"
        unfolding drop_win [symmetric] by (simp add: add.commute [of h] drop_drop [symmetric] del: drop_drop)
      moreover have "take l (drop h ?r) = win b (Suc pos + h) (Suc pos + h + l)"
        unfolding drop_win using 1(2) True by (simp add: take_win)
      ultimately show ?thesis using 1 t g True assms(2) by (intro ok [of ?c "take l (drop h ?r)" "drop (h + l) ?r" "Suc pos + h"]) auto
    next
      case (2 e pos' l')
      have "tlv (win b pos stop) = None" using 2(5) assms(2) True by (auto simp: w split: option.splits)
      then show ?thesis using 2 t g by (intro err [of e pos' l']) auto
    qed
  qed
qed

section \<open>Integers\<close>

definition der_int :: "int \<Rightarrow> bytes \<Rightarrow> (nat \<times> bytes) option" where
  "der_int t r = (case tlv r of
     None \<Rightarrow> None
   | Some (t8, cs, rest) \<Rightarrow> if uint t8 = t \<and> cs \<noteq> [] \<and> hd cs < 128 \<and> be_val cs < 2 ^ 31 then Some (be_val cs, rest) else None)"

lemma be_val_bounds:
  "unat c * 256 ^ length cs \<le> be_val (c # cs)" "be_val (c # cs) < Suc (unat c) * 256 ^ length cs"
  using be_val_less [of cs] by (simp_all add: be_val_simps)

lemma int_fits:
  assumes "cs \<noteq> [] \<longrightarrow> hd cs \<noteq> 0"
  shows "be_val cs < 2 ^ 31 \<longleftrightarrow> length cs \<le> 4 \<and> (length cs = 4 \<longrightarrow> hd cs < 128)"
proof (cases cs)
  case Nil
  then show ?thesis by (simp add: be_val_simps)
next
  case (Cons c ds)
  then have "c \<noteq> 0" using assms by simp
  then have c: "1 \<le> unat c" by (simp add: Suc_leI word_neq_0_conv unat_gt_0)
  have c128: "c < 128 \<longleftrightarrow> unat c < 128" by (simp add: word_less_nat_alt)
  consider "length ds < 3" | "length ds = 3" | "3 < length ds" by linarith
  then show ?thesis
  proof cases
    case 1
    have "(256 :: nat) ^ length cs \<le> 256 ^ 3" using 1 Cons by (intro power_increasing) auto
    then have "be_val cs < 2 ^ 31" using be_val_less [of cs] by simp
    then show ?thesis using 1 Cons by simp
  next
    case 2
    show ?thesis
    proof (cases "unat c < 128")
      case True
      then have "Suc (unat c) * 256 ^ length ds \<le> 128 * 256 ^ 3" unfolding 2 by (intro mult_le_mono1) simp
      then have "be_val cs < 2 ^ 31" using be_val_bounds(2) [of c ds] unfolding Cons by simp
      then show ?thesis using 2 Cons True c128 by simp
    next
      case False
      then have "128 * 256 ^ 3 \<le> unat c * 256 ^ length ds" unfolding 2 by (intro mult_le_mono1) simp
      then have "\<not> be_val cs < 2 ^ 31" using be_val_bounds(1) [of c ds] unfolding Cons by simp
      then show ?thesis using 2 Cons False c128 by simp
    qed
  next
    case 3
    have "(256 :: nat) ^ 4 \<le> 256 ^ length ds" using 3 by (intro power_increasing) auto
    also have "\<dots> \<le> unat c * 256 ^ length ds" using c by simp
    also have "\<dots> \<le> be_val cs" unfolding Cons by (rule be_val_bounds(1))
    finally have "\<not> be_val cs < 2 ^ 31" by simp
    then show ?thesis using 3 Cons by simp
  qed
qed

lemma int_body:
  assumes "l \<noteq> 0" and "q + l \<le> length b" and cs: "cs = win b q (q + l)" and "hd cs < 128"
  shows "skip_zeros b q l = Some (pos, m) \<Longrightarrow> q \<le> pos \<and> pos + m = q + l \<and>
      (be_val cs < 2 ^ 31 \<longleftrightarrow> m \<le> 4 \<and> (m = 4 \<longrightarrow> b ! pos < 128)) \<and>
      get_int_digits b pos m 0 = Some (q + l, int (be_val cs)) \<and> (m \<noteq> 0 \<longrightarrow> pos < length b)"
    and "\<exists>pos m. skip_zeros b q l = Some (pos, m)"
proof -
  from skip_zeros_spec [OF assms(2)] obtain k where k: "k \<le> l" "skip_zeros b q l = Some (q + k, l - k)"
      "win b q (q + l) = replicate k 0 @ win b (q + k) (q + l)" "k < l \<longrightarrow> b ! (q + k) \<noteq> 0" by blast
  show "\<exists>pos m. skip_zeros b q l = Some (pos, m)" using k by blast
  let ?ds = "win b (q + k) (q + l)"
  have v: "be_val cs = be_val ?ds" unfolding cs k(3) by (rule be_val_zeros)
  have ld: "length ?ds = l - k" using assms(2) k(1) by simp
  have hd: "hd ?ds = b ! (q + k)" if "?ds \<noteq> []" using that ld assms(2) win_Cons [of "q + k" "q + l" b]
    by (cases "k < l") auto
  have nz: "?ds \<noteq> [] \<longrightarrow> hd ?ds \<noteq> 0" using hd k(1,4) ld by (cases "k < l") auto
  have fit: "be_val cs < 2 ^ 31 \<longleftrightarrow> l - k \<le> 4 \<and> (l - k = 4 \<longrightarrow> b ! (q + k) < 128)"
    unfolding v int_fits [OF nz] ld using hd ld by (cases "?ds = []") auto
  have dg: "get_int_digits b (q + k) (l - k) 0 = Some (q + l, int (be_val cs))"
    using get_int_digits_spec [of "q + k" "l - k" b 0] assms(2) k(1) by (simp add: v)
  show "q \<le> pos \<and> pos + m = q + l \<and> (be_val cs < 2 ^ 31 \<longleftrightarrow> m \<le> 4 \<and> (m = 4 \<longrightarrow> b ! pos < 128)) \<and>
      get_int_digits b pos m 0 = Some (q + l, int (be_val cs)) \<and> (m \<noteq> 0 \<longrightarrow> pos < length b)"
    if "skip_zeros b q l = Some (pos, m)"
  proof -
    have "pos = q + k" "m = l - k" using that k(2) by simp_all
    then show ?thesis using fit dg k(1) assms(2) by simp
  qed
qed

lemma get_tagged_int_spec:
  assumes "pos \<le> stop" and "stop \<le> length b"
  shows "case der_int t (win b pos stop) of
      None \<Rightarrow> \<exists>e pos'. e < 0 \<and> pos \<le> pos' \<and> pos' \<le> stop \<and> asn1_get_tagged_int b pos stop t v0 = Some (e, pos', v0)
    | Some (v, rest) \<Rightarrow> asn1_get_tagged_int b pos stop t v0 = Some (0, stop - length rest, int v)"
proof (rule get_tag_cases [OF assms, of t 0], goal_cases)
  case (2 e pos' l')
  then have "der_int t (win b pos stop) = None" by (auto simp: der_int_def split: option.splits)
  then show ?case using 2 by (auto simp: asn1_get_tagged_int_def)
next
  case (1 t8 cs rest q)
  let ?l = "length cs"
  have d: "der_int t (win b pos stop) = (if cs \<noteq> [] \<and> hd cs < 128 \<and> be_val cs < 2 ^ 31 then Some (be_val cs, rest) else None)"
    using 1(1,2) by (simp add: der_int_def)
  show ?case
  proof (cases "cs = []")
    case True
    then show ?thesis using 1 d by (auto simp: asn1_get_tagged_int_def asn1_codes)
  next
    case ne: False
    have q: "q < length b" "hd cs = b ! q"
    proof -
      show "q < length b" using 1(6) assms(2) ne by (cases cs) auto
      then show "hd cs = b ! q" using 1(6,7) assms(2) ne win_Cons [of q "q + ?l" b] by (cases cs) auto
    qed
    have r: "rd1 b q = Some (hd cs)" using q by (simp add: rd1_def)
    show ?thesis
    proof (cases "hd cs < 128")
      case False
      then have "der_int t (win b pos stop) = None" using d by simp
      moreover have "asn1_get_tagged_int b pos stop t v0 = Some (MBEDTLS_ERR_ASN1_INVALID_LENGTH, q, v0)"
        using 1(4) ne False r high_bit(1) by (simp add: asn1_get_tagged_int_def)
      ultimately show ?thesis using 1(3,6) by (simp add: asn1_codes)
    next
      case True
      have ln: "?l \<noteq> 0" "q + ?l \<le> length b" using ne 1(6) assms(2) by simp_all
      note B = int_body [OF ln 1(7) True]
      from B(2) obtain pos' m where sk: "skip_zeros b q ?l = Some (pos', m)" by blast
      note B1 = B(1) [OF sk]
      have g: "asn1_get_tagged_int b pos stop t v0 = (if m > 4 \<or> (m = 4 \<and> \<not> b ! pos' < 128)
          then Some (MBEDTLS_ERR_ASN1_INVALID_LENGTH, pos', v0) else Some (0, q + ?l, int (be_val cs)))"
        using 1(4) ne True r high_bit(1) sk B1
        by (cases "m = 4") (simp_all add: asn1_get_tagged_int_def rd1_def)
      show ?thesis
      proof (cases "be_val cs < 2 ^ 31")
        case fit: True
        then have "der_int t (win b pos stop) = Some (be_val cs, rest)" using d ne True by simp
        then show ?thesis using g B1 fit 1(6) by auto
      next
        case nofit: False
        then have "der_int t (win b pos stop) = None" using d by simp
        then show ?thesis using g B1 nofit 1(3,6) by (auto simp: asn1_codes)
      qed
    qed
  qed
qed

section \<open>Booleans, bit strings and algorithm identifiers\<close>

definition der_bool :: "bytes \<Rightarrow> (bool \<times> bytes) option" where
  "der_bool r = (case tlv r of Some (t8, [c], rest) \<Rightarrow> if t8 = 1 then Some (c \<noteq> 0, rest) else None | _ \<Rightarrow> None)"

definition der_bits :: "bytes \<Rightarrow> (u8 \<times> bytes) option" where
  "der_bits r = (case tlv r of Some (t8, c # cs, []) \<Rightarrow> if t8 = 3 \<and> c \<le> 7 then Some (c, cs) else None | _ \<Rightarrow> None)"

definition der_alg :: "bytes \<Rightarrow> (bytes \<times> (u8 \<times> bytes) option \<times> bytes) option" where
  "der_alg r = (case tlv r of
     None \<Rightarrow> None
   | Some (t8, body, rest) \<Rightarrow> if t8 \<noteq> 0x30 then None else
       (case tlv body of
          None \<Rightarrow> None
        | Some (t8, oid, pr) \<Rightarrow> if t8 \<noteq> 6 then None else
            if pr = [] then Some (oid, None, rest)
            else (case tlv pr of Some (t8, ps, []) \<Rightarrow> Some (oid, Some (t8, ps), rest) | _ \<Rightarrow> None)))"

text \<open>A buffer structure that points to given contents of the input.\<close>

definition points :: "bytes \<Rightarrow> mbedtls_asn1_buf \<Rightarrow> u8 \<Rightarrow> bytes \<Rightarrow> bool" where
  "points b x t8 cs \<longleftrightarrow> asn1_tag x = uint t8 \<and> asn1_len x = length cs \<and>
     (\<exists>q. asn1_p x = Some q \<and> q + length cs \<le> length b \<and> win b q (q + length cs) = cs)"

lemma uint_u8_eq:
  "uint (t8 :: u8) = 1 \<longleftrightarrow> t8 = 1" "uint t8 = 3 \<longleftrightarrow> t8 = 3" "uint t8 = 6 \<longleftrightarrow> t8 = 6" "uint t8 = 0x30 \<longleftrightarrow> t8 = 0x30"
  by (simp_all add: word_uint_eq_iff)

lemma get_bool_spec:
  assumes "pos \<le> stop" and "stop \<le> length b"
  shows "case der_bool (win b pos stop) of
      None \<Rightarrow> \<exists>e pos'. e < 0 \<and> pos \<le> pos' \<and> pos' \<le> stop \<and> mbedtls_asn1_get_bool b pos stop v0 = Some (e, pos', v0)
    | Some (v, rest) \<Rightarrow> mbedtls_asn1_get_bool b pos stop v0 = Some (0, stop - length rest, if v then 1 else 0)"
proof (rule get_tag_cases [OF assms, of 1 0], goal_cases)
  case (2 e pos' l')
  then have "der_bool (win b pos stop) = None"
    by (auto simp: der_bool_def uint_u8_eq split: option.splits list.splits)
  then show ?case using 2 by (auto simp: mbedtls_asn1_get_bool_def)
next
  case (1 t8 cs rest q)
  show ?case
  proof (cases "length cs = 1")
    case True
    then obtain c where c: "cs = [c]" by (auto simp: length_Suc_conv)
    have "win b q (q + 1) = [b ! q]" "q < length b" using 1(6) assms(2) c win_Cons [of q "q + 1" b] by simp_all
    then show ?thesis using 1 c by (auto simp: mbedtls_asn1_get_bool_def der_bool_def rd1_def uint_u8_eq)
  next
    case False
    then have "der_bool (win b pos stop) = None" using 1(1) by (auto simp: der_bool_def split: list.splits)
    then show ?thesis using False 1 by (auto simp: mbedtls_asn1_get_bool_def asn1_codes)
  qed
qed

lemma content_hd:
  assumes "cs = win b q (q + length cs)" and "q + length cs + length rest = stop" and "stop \<le> length b" and "cs \<noteq> []"
  shows "rd1 b q = Some (hd cs)" and "tl cs = win b (Suc q) (Suc q + (length cs - 1))"
proof -
  have q: "q < q + length cs" "q + length cs \<le> length b" using assms by (cases cs; simp)+
  from assms(1) win_Cons [OF q] have w: "cs = b ! q # win b (Suc q) (q + length cs)" by simp
  then show "rd1 b q = Some (hd cs)" using q by (metis list.sel(1) rd1_def less_le_trans)
  have "Suc q + (length cs - 1) = q + length cs" using q by simp
  then show "tl cs = win b (Suc q) (Suc q + (length cs - 1))" using w by (metis list.sel(3))
qed

lemma get_bitstring_spec:
  assumes "pos \<le> stop" and "stop \<le> length b"
  shows "case der_bits (win b pos stop) of
      None \<Rightarrow> \<exists>e pos' bs. e < 0 \<and> pos \<le> pos' \<and> pos' \<le> stop \<and> mbedtls_asn1_get_bitstring b pos stop bs0 = Some (e, pos', bs)
    | Some (u, cs) \<Rightarrow> \<exists>q. q + length cs = stop \<and> win b q stop = cs \<and> mbedtls_asn1_get_bitstring b pos stop bs0 =
        Some (0, stop, bs0\<lparr>bs_len := length cs, unused_bits := u, bs_p := Some q\<rparr>)"
proof (rule get_tag_cases [OF assms, of 3 "bs_len bs0"], goal_cases)
  case (2 e pos' l')
  then have "der_bits (win b pos stop) = None"
    by (auto simp: der_bits_def uint_u8_eq split: option.splits list.splits)
  then show ?case using 2 by (auto simp: mbedtls_asn1_get_bitstring_def)
next
  case (1 t8 cs rest q)
  show ?case
  proof (cases cs)
    case Nil
    then have "der_bits (win b pos stop) = None" using 1(1) by (auto simp: der_bits_def)
    then show ?thesis using Nil 1 by (auto simp: mbedtls_asn1_get_bitstring_def asn1_codes)
  next
    case (Cons c ds)
    have r: "rd1 b q = Some c" and t: "ds = win b (Suc q) (Suc q + length ds)" using content_hd [OF 1(7,6) assms(2)] Cons by simp_all
    have d: "der_bits (win b pos stop) = (if rest = [] \<and> c \<le> 7 then Some (c, ds) else None)"
      using 1(1,2) Cons uint_u8_eq(2) [of t8] by (cases rest) (auto simp: der_bits_def)
    have len: "Suc q + length ds + length rest = stop" using 1(6) Cons by simp
    show ?thesis
    proof (cases "c \<le> 7")
      case False
      then show ?thesis using d 1(3,4) Cons r len by (auto simp: mbedtls_asn1_get_bitstring_def asn1_codes not_le)
    next
      case True
      then have g: "mbedtls_asn1_get_bitstring b pos stop bs0 = Some (if rest = [] then 0 else MBEDTLS_ERR_ASN1_LENGTH_MISMATCH,
          Suc q + length ds, bs0\<lparr>bs_len := length ds, unused_bits := c, bs_p := Some (Suc q)\<rparr>)"
        using 1(4) Cons r len by (auto simp: mbedtls_asn1_get_bitstring_def Let_def not_less)
      show ?thesis
      proof (cases "rest = []")
        case nil: True
        then show ?thesis using g d True len t by (auto intro!: exI [of _ "Suc q"])
      next
        case False
        then show ?thesis using g d len 1(3) by (auto simp: asn1_codes)
      qed
    qed
  qed
qed

text \<open>An item without an expected tag.\<close>

lemma item_cases:
  assumes "pos < stop" and "stop \<le> length b"
  obtains (ok) cs rest q where "tlv (win b pos stop) = Some (b ! pos, cs, rest)" "pos + 2 \<le> q"
      "mbedtls_asn1_get_len b (Suc pos) stop l0 = Some (0, q, length cs)" "win b q stop = cs @ rest"
      "q + length cs + length rest = stop" "cs = win b q (q + length cs)"
  | (err) e pos' l' where "mbedtls_asn1_get_len b (Suc pos) stop l0 = Some (e, pos', l')" "e < 0" "pos < pos'" "pos' \<le> stop"
      "tlv (win b pos stop) = None"
proof -
  have g: "mbedtls_asn1_get_tag b pos stop l0 (uint (b ! pos)) = mbedtls_asn1_get_len b (Suc pos) stop l0"
    using assms by (simp add: mbedtls_asn1_get_tag_def rd1_def)
  have hd: "t8 = b ! pos" if "tlv (win b pos stop) = Some (t8, cs, rest)" for t8 cs rest
    using that win_Cons [OF assms] by (auto split: option.splits if_splits)
  show ?thesis
  proof (rule get_tag_cases [OF less_imp_le [OF assms(1)] assms(2), of "uint (b ! pos)" l0], goal_cases)
    case (1 t8 cs rest q)
    then show ?thesis using hd g by (intro ok [of cs rest q]) auto
  next
    case (2 e pos' l')
    then have "tlv (win b pos stop) = None" using hd by (cases "tlv (win b pos stop)") auto
    moreover have "pos < pos'" using 2(1) g get_len_pos [of b "Suc pos" stop l0 e pos' l'] by simp
    ultimately show ?thesis using 2 g by (intro err [of e pos' l']) auto
  qed
qed

lemma get_alg_params_spec:
  assumes "pos \<le> stop" and "stop \<le> length b"
  shows "if pos = stop then get_alg_params b pos stop x0 = Some (0, stop, zero_buf)
    else case tlv (win b pos stop) of
      Some (t8, ps, []) \<Rightarrow> \<exists>x. get_alg_params b pos stop x0 = Some (0, stop, x) \<and> points b x t8 ps
    | _ \<Rightarrow> \<exists>e pos' x. e < 0 \<and> pos \<le> pos' \<and> pos' \<le> stop \<and> get_alg_params b pos stop x0 = Some (e, pos', x)"
proof (cases "pos = stop")
  case True
  then show ?thesis by (simp add: get_alg_params_def)
next
  case False
  then have lt: "pos < stop" using assms(1) by simp
  have r: "rd1 b pos = Some (b ! pos)" using lt assms(2) by (simp add: rd1_def)
  show ?thesis
  proof (rule item_cases [OF lt assms(2), of "asn1_len x0"], goal_cases)
    case (2 e pos' l')
    then show ?case using False r by (auto simp: get_alg_params_def)
  next
    case (1 cs rest q)
    have g: "get_alg_params b pos stop x0 = Some (if rest = [] then 0 else MBEDTLS_ERR_ASN1_LENGTH_MISMATCH, q + length cs,
        x0\<lparr>asn1_tag := uint (b ! pos), asn1_len := length cs, asn1_p := Some q\<rparr>)"
      using False r 1(3,5) by (auto simp: get_alg_params_def Let_def)
    show ?case
    proof (cases rest)
      case Nil
      then show ?thesis using False g 1 assms(2) by (auto simp: points_def)
    next
      case (Cons c ds)
      then show ?thesis using False g 1 by (auto simp: asn1_codes)
    qed
  qed
qed

lemma get_alg_spec:
  assumes "pos \<le> stop" and "stop \<le> length b"
  shows "case der_alg (win b pos stop) of
      None \<Rightarrow> \<exists>e pos' alg par. e < 0 \<and> pos \<le> pos' \<and> pos' \<le> stop \<and> mbedtls_asn1_get_alg b pos stop a0 x0 = Some (e, pos', alg, par)
    | Some (oid, ps, rest) \<Rightarrow> \<exists>alg par. mbedtls_asn1_get_alg b pos stop a0 x0 = Some (0, stop - length rest, alg, par) \<and>
        points b alg 6 oid \<and> (case ps of None \<Rightarrow> par = zero_buf | Some (t8, cs) \<Rightarrow> points b par t8 cs)"
proof (rule get_tag_cases [OF assms, of 48 0], goal_cases)
  case (2 e pos' l')
  then have "der_alg (win b pos stop) = None" by (auto simp: der_alg_def uint_u8_eq split: option.splits)
  then show ?case using 2 by (auto simp: mbedtls_asn1_get_alg_def)
next
  case (1 t8 body rest q)
  have t: "t8 = 0x30" using 1(2) uint_u8_eq(4) by simp
  let ?s = "q + length body"
  have s: "q \<le> ?s" "?s \<le> length b" using 1(6) assms(2) by simp_all
  show ?case
  proof (cases "stop < q + 1")
    case True
    then have "length body = 0" using 1(6) by linarith
    then have "body = []" by simp
    then have "der_alg (win b pos stop) = None" using 1(1) t by (simp add: der_alg_def)
    then show ?thesis using 1(3,4,6) True by (auto simp: mbedtls_asn1_get_alg_def asn1_codes)
  next
    case False
    have r: "rd1 b q = Some (b ! q)" using False assms(2) by (simp add: rd1_def)
    let ?a = "a0\<lparr>asn1_tag := uint (b ! q)\<rparr>"
    have d: "der_alg (win b pos stop) = (case tlv (win b q ?s) of
          None \<Rightarrow> None
        | Some (t8, oid, pr) \<Rightarrow> if t8 \<noteq> 6 then None else
            if pr = [] then Some (oid, None, rest)
            else (case tlv pr of Some (t8, ps, []) \<Rightarrow> Some (oid, Some (t8, ps), rest) | _ \<Rightarrow> None))"
      using 1(1,7) t by (simp add: der_alg_def)
    show ?thesis
    proof (rule get_tag_cases [OF s, of 6 "asn1_len a0"], goal_cases)
      case (2 e pos' l')
      have "der_alg (win b pos stop) = None" using 2(5) by (auto simp: d uint_u8_eq split: option.splits)
      moreover have "mbedtls_asn1_get_alg b pos stop a0 x0 = Some (e, pos', ?a\<lparr>asn1_len := l'\<rparr>, x0)"
        using 1(4) 2(1,2) False r by (simp add: mbedtls_asn1_get_alg_def Let_def)
      ultimately show ?thesis using 2 1(3,6) by auto
    next
      case o: (1 t8' oid pr q')
      let ?al = "?a\<lparr>asn1_len := length oid, asn1_p := Some q'\<rparr>"
      have g: "mbedtls_asn1_get_alg b pos stop a0 x0 = do {
          (ret, pos, params) \<leftarrow> get_alg_params b (q' + length oid) ?s x0;
          Some (ret, pos, ?al, params) }"
        using 1(4) o(4) False r by (simp add: mbedtls_asn1_get_alg_def Let_def)
      have bq: "b ! q = t8'"
      proof -
        have "q < ?s" using o(3,6) by linarith
        from o(1) win_Cons [OF this s(2)] show ?thesis by (auto split: option.splits if_splits)
      qed
      have al: "points b ?al 6 oid" using o(2,6,7) s(2) bq by (auto simp: points_def)
      have pr: "win b (q' + length oid) ?s = pr" using o(5) drop_win [of "length oid" b q' ?s] by simp
      have e: "q' + length oid = ?s \<longleftrightarrow> pr = []" using o(6) by auto
      have le: "q' + length oid \<le> ?s" using o(6) by simp
      note P = get_alg_params_spec [OF le s(2), of x0, unfolded pr e]
      show ?thesis
      proof (cases "pr = []")
        case True
        then show ?thesis using P g al d o(1,2) 1(6) e by (auto simp: uint_u8_eq)
      next
        case False
        show ?thesis
        proof (cases "\<exists>t8 ps. tlv pr = Some (t8, ps, [])")
          case True
          then obtain t8 ps where ps: "tlv pr = Some (t8, ps, [])" by blast
          then show ?thesis using P g al d o(1,2) 1(6) False by (auto simp: uint_u8_eq)
        next
          case bad: False
          then have "der_alg (win b pos stop) = None" using d o(1) False by (auto split: option.splits list.splits)
          moreover have "\<exists>e pos' x. e < 0 \<and> q' + length oid \<le> pos' \<and> pos' \<le> ?s \<and> get_alg_params b (q' + length oid) ?s x0 = Some (e, pos', x)"
            using P bad False by (auto split: option.splits list.splits)
          ultimately show ?thesis using g 1(3,6) o(3) by auto
        qed
      qed
    qed
  qed
qed

lemma get_bitstring_null_spec:
  assumes "pos \<le> stop" and "stop \<le> length b"
  shows "(\<exists>cs rest q. tlv (win b pos stop) = Some (3, 0 # cs, rest) \<and> win b q (q + length cs) = cs \<and> q + length cs + length rest = stop \<and>
        mbedtls_asn1_get_bitstring_null b pos stop l0 = Some (0, q, length cs)) \<or>
    ((\<forall>cs rest. tlv (win b pos stop) \<noteq> Some (3, 0 # cs, rest)) \<and>
      (\<exists>e pos' l'. e < 0 \<and> pos \<le> pos' \<and> pos' \<le> stop \<and> mbedtls_asn1_get_bitstring_null b pos stop l0 = Some (e, pos', l')))"
proof (rule get_tag_cases [OF assms, of 3 l0], goal_cases)
  case (2 e pos' l')
  then have "\<forall>cs rest. tlv (win b pos stop) \<noteq> Some (3, 0 # cs, rest)" by auto
  then show ?case using 2 by (auto simp: mbedtls_asn1_get_bitstring_null_def)
next
  case (1 t8 cs rest q)
  show ?case
  proof (cases cs)
    case Nil
    then show ?thesis using 1 by (auto simp: mbedtls_asn1_get_bitstring_null_def asn1_codes)
  next
    case (Cons c ds)
    have r: "rd1 b q = Some c" and t: "ds = win b (Suc q) (Suc q + length ds)" using content_hd [OF 1(7,6) assms(2)] Cons by simp_all
    show ?thesis
    proof (cases "c = 0")
      case True
      have "mbedtls_asn1_get_bitstring_null b pos stop l0 = Some (0, Suc q, length ds)"
        using True 1(4) Cons r by (simp add: mbedtls_asn1_get_bitstring_null_def)
      then show ?thesis using True t 1(1,2,6) Cons by (auto simp: uint_u8_eq)
    next
      case False
      then show ?thesis using 1 Cons r by (auto simp: mbedtls_asn1_get_bitstring_null_def asn1_codes)
    qed
  qed
qed

section \<open>Sequences\<close>

lemma tlv_shorter: "tlv r = Some (t8, cs, rest) \<Longrightarrow> length rest + length cs < length r"
  by (cases r) (auto split: option.splits if_splits)

text \<open>The items of a list of bytes, with the position and the length of their contents, and whether the
  list ends with a whole item.\<close>

function items :: "nat \<Rightarrow> bytes \<Rightarrow> (u8 \<times> nat \<times> nat) list \<times> bool" where
  "items pos r = (if r = [] then ([], True) else case tlv r of
     None \<Rightarrow> ([], False)
   | Some (t8, cs, rest) \<Rightarrow>
       let q = pos + (length r - length rest - length cs); (xs, ok) = items (q + length cs) rest in ((t8, q, length cs) # xs, ok))"
  by pat_completeness auto
termination
  by (relation "measure (\<lambda>(pos, r). length r)") (auto dest: tlv_shorter)

declare items.simps [simp del]

text \<open>The effect of one item: the tag test, then the callback where the item is selected.\<close>

definition visit :: "u8 \<Rightarrow> u8 \<Rightarrow> u8 \<Rightarrow> u8 \<Rightarrow> 'c seq_cb option \<Rightarrow> 'c \<Rightarrow> u8 \<times> nat \<times> nat \<Rightarrow> int \<times> 'c" where
  "visit must_mask must_val may_mask may_val cb ctx it = (case it of (t8, q, l) \<Rightarrow>
     if t8 AND must_mask \<noteq> must_val then (MBEDTLS_ERR_ASN1_UNEXPECTED_TAG, ctx)
     else if t8 AND may_mask = may_val then (case cb of None \<Rightarrow> (0, ctx) | Some f \<Rightarrow> f ctx (uint t8) q l)
     else (0, ctx))"

fun run_items :: "('c \<Rightarrow> 'x \<Rightarrow> int \<times> 'c) \<Rightarrow> 'c \<Rightarrow> 'x list \<Rightarrow> int \<times> 'c" where
  "run_items f ctx [] = (0, ctx)"
| "run_items f ctx (x # xs) = (let (r, ctx) = f ctx x in if r \<noteq> 0 then (r, ctx) else run_items f ctx xs)"

lemma traverse_loop_spec:
  assumes "pos \<le> stop" and "stop \<le> length b"
  shows "\<exists>ret pos' ctx'. traverse_loop b pos stop mm mv ym yv cb ctx = Some (ret, pos', ctx') \<and> pos \<le> pos' \<and> pos' \<le> stop \<and>
    (case items pos (win b pos stop) of (xs, ok) \<Rightarrow> case run_items (visit mm mv ym yv cb) ctx xs of (r, c) \<Rightarrow>
       ctx' = c \<and> (if r \<noteq> 0 then ret = r else if ok then ret = 0 \<and> pos' = stop else ret < 0))"
  using assms
proof (induction "stop - pos" arbitrary: pos ctx rule: less_induct)
  case less
  show ?case
  proof (cases "pos < stop")
    case False
    then show ?thesis using less.prems by (simp add: traverse_loop.simps items.simps)
  next
    case lt: True
    let ?t = "b ! pos" and ?L = "traverse_loop b pos stop mm mv ym yv cb ctx"
    have r: "rd1 b pos = Some ?t" and ne: "win b pos stop \<noteq> []" using lt less.prems(2) by (simp_all add: rd1_def win_Cons)
    have U: "MBEDTLS_ERR_ASN1_UNEXPECTED_TAG < 0" by (simp add: asn1_codes)
    show ?thesis
    proof (rule item_cases [OF lt less.prems(2), of 0], goal_cases)
      case (2 e pos' l')
      have it: "items pos (win b pos stop) = ([], False)" using ne 2(5) by (simp add: items.simps)
      have "?L = (if ?t AND mm \<noteq> mv then Some (MBEDTLS_ERR_ASN1_UNEXPECTED_TAG, pos + 1, ctx) else Some (e, pos', ctx))"
        using lt r 2(1,2) by (subst traverse_loop.simps) simp
      then show ?thesis using it 2 U lt by (auto split: if_splits)
    next
      case (1 cs rest q)
      obtain xs ok where xs: "items (q + length cs) rest = (xs, ok)" by fastforce
      have off: "pos + (length (win b pos stop) - (length rest + length cs)) = q" using 1(2,5) less.prems by simp
      have it: "items pos (win b pos stop) = ((?t, q, length cs) # xs, ok)"
        using ne 1(1) xs unfolding items.simps [of pos] by (simp add: Let_def off del: length_win)
      obtain rv c where v: "visit mm mv ym yv cb ctx (?t, q, length cs) = (rv, c)" by fastforce
      show ?thesis
      proof (cases "?t AND mm = mv")
        case False
        have "?L = Some (MBEDTLS_ERR_ASN1_UNEXPECTED_TAG, pos + 1, ctx)" using lt r False by (subst traverse_loop.simps) simp
        moreover have "rv = MBEDTLS_ERR_ASN1_UNEXPECTED_TAG" "c = ctx" using v False by (simp_all add: visit_def)
        ultimately show ?thesis using it v U lt by auto
      next
        case True
        have cbv: "(if ?t AND ym = yv then (case cb of None \<Rightarrow> (0, ctx) | Some f \<Rightarrow> f ctx (uint ?t) q (length cs)) else (0, ctx)) = (rv, c)"
          using v True by (simp add: visit_def)
        have L: "?L = (if rv \<noteq> 0 then Some (rv, q, c) else traverse_loop b (q + length cs) stop mm mv ym yv cb c)"
          using lt r True 1(3) cbv by (subst traverse_loop.simps) (simp add: Let_def)
        show ?thesis
        proof (cases "rv = 0")
          case False
          then show ?thesis using L it v 1(2,5) by auto
        next
          case rv: True
          have w: "win b (q + length cs) stop = rest" using 1(4) drop_win [of "length cs" b q stop] by simp
          have s: "stop - (q + length cs) < stop - pos" "q + length cs \<le> stop" using 1(2,5) lt by simp_all
          from less.hyps [OF s less.prems(2), of c] obtain ret pos' ctx' where
            IH: "traverse_loop b (q + length cs) stop mm mv ym yv cb c = Some (ret, pos', ctx')" "q + length cs \<le> pos'" "pos' \<le> stop"
              "case run_items (visit mm mv ym yv cb) c xs of (r, c) \<Rightarrow>
                 ctx' = c \<and> (if r \<noteq> 0 then ret = r else if ok then ret = 0 \<and> pos' = stop else ret < 0)"
            unfolding w xs by auto
          then show ?thesis using L rv it v 1(2) by auto
        qed
      qed
    qed
  qed
qed

section \<open>Claims\<close>

definition stays :: "nat \<Rightarrow> nat \<Rightarrow> (int \<times> nat \<times> 'a) option \<Rightarrow> bool" where
  "stays pos stop r \<longleftrightarrow> (\<exists>ret pos' x. r = Some (ret, pos', x) \<and> pos \<le> pos' \<and> pos' \<le> stop)"

lemma staysI: "r = Some (ret, pos', x) \<Longrightarrow> pos \<le> pos' \<Longrightarrow> pos' \<le> stop \<Longrightarrow> stays pos stop r"
  by (auto simp: stays_def)

lemma win_shorter: "length rest < length (win b pos stop) \<Longrightarrow> stop \<le> length b \<Longrightarrow> pos \<le> stop - length rest"
  by simp

lemma der_shorter:
  "der_int t r = Some (v, rest) \<Longrightarrow> length rest < length r"
  "der_bool r = Some (w, rest) \<Longrightarrow> length rest < length r"
  "der_alg r = Some (oid, ps, rest) \<Longrightarrow> length rest < length r"
  by (auto simp: der_int_def der_bool_def der_alg_def split: option.splits if_splits list.splits dest!: tlv_shorter)

lemma tagged_int_stays:
  assumes "pos \<le> stop" and "stop \<le> length b"
  shows "stays pos stop (asn1_get_tagged_int b pos stop t v0)"
  using get_tagged_int_spec [OF assms, of t v0] win_shorter [OF der_shorter(1) assms(2)]
  by (cases "der_int t (win b pos stop)") (auto simp: stays_def)

lemma get_alg_stays:
  assumes "pos \<le> stop" and "stop \<le> length b"
  shows "stays pos stop (mbedtls_asn1_get_alg b pos stop a0 x0)"
  using get_alg_spec [OF assms, of a0 x0] win_shorter [OF der_shorter(3) assms(2)]
  by (cases "der_alg (win b pos stop)") (auto simp: stays_def)

lemma readers_stay:
  assumes "pos \<le> stop" and "stop \<le> length b"
  shows "stays pos stop (mbedtls_asn1_get_len b pos stop l0)"
    and "stays pos stop (mbedtls_asn1_get_tag b pos stop l0 t)"
    and "stays pos stop (mbedtls_asn1_get_bool b pos stop v0)"
    and "stays pos stop (mbedtls_asn1_get_int b pos stop v0)"
    and "stays pos stop (mbedtls_asn1_get_enum b pos stop v0)"
    and "stays pos stop (mbedtls_asn1_get_bitstring b pos stop bs0)"
    and "stays pos stop (mbedtls_asn1_get_bitstring_null b pos stop l0)"
    and "stays pos stop (mbedtls_asn1_traverse_sequence_of b pos stop mm mv ym yv cb ctx)"
    and "stays pos stop (mbedtls_asn1_get_alg b pos stop a0 x0)"
    and "stays pos stop (mbedtls_asn1_get_alg_null b pos stop a0)"
proof -
  show "stays pos stop (mbedtls_asn1_get_len b pos stop l0)"
    by (rule get_len_cases [OF assms, of l0]; rule staysI) auto
  show "stays pos stop (mbedtls_asn1_get_tag b pos stop l0 t)"
    by (rule get_tag_cases [OF assms, of t l0]; rule staysI) auto
  show "stays pos stop (mbedtls_asn1_get_bool b pos stop v0)"
    using get_bool_spec [OF assms, of v0] win_shorter [OF der_shorter(2) assms(2)]
    by (cases "der_bool (win b pos stop)") (auto simp: stays_def)
  show "stays pos stop (mbedtls_asn1_get_int b pos stop v0)" "stays pos stop (mbedtls_asn1_get_enum b pos stop v0)"
    unfolding mbedtls_asn1_get_int_def mbedtls_asn1_get_enum_def by (rule tagged_int_stays [OF assms])+
  show "stays pos stop (mbedtls_asn1_get_bitstring b pos stop bs0)"
    using get_bitstring_spec [OF assms, of bs0] assms(1) by (cases "der_bits (win b pos stop)") (auto simp: stays_def)
  show "stays pos stop (mbedtls_asn1_get_bitstring_null b pos stop l0)"
  proof -
    have "pos \<le> q" if "tlv (win b pos stop) = Some (3, 0 # cs, rest)" "q + length cs + length rest = stop" for q cs rest
      using tlv_shorter [OF that(1)] that(2) assms by simp
    then show ?thesis using get_bitstring_null_spec [OF assms, of l0] by (auto simp: stays_def)
  qed
  show "stays pos stop (mbedtls_asn1_traverse_sequence_of b pos stop mm mv ym yv cb ctx)"
  proof (rule get_tag_cases [OF assms, of 48 0], goal_cases)
    case (1 t8 cs rest q)
    have "q \<le> stop" using 1(6) by simp
    from traverse_loop_spec [OF this assms(2), of mm mv ym yv cb ctx] show ?case using 1(3,4,6)
      by (auto simp: mbedtls_asn1_traverse_sequence_of_def stays_def)
  next
    case (2 e pos' l')
    then show ?case by (auto simp: mbedtls_asn1_traverse_sequence_of_def stays_def)
  qed
  show a: "stays pos stop (mbedtls_asn1_get_alg b pos stop a0 x0)" for x0 by (rule get_alg_stays [OF assms])
  show "stays pos stop (mbedtls_asn1_get_alg_null b pos stop a0)"
    using a [of zero_buf] by (auto simp: stays_def mbedtls_asn1_get_alg_null_def)
qed

text \<open>C28. No reader leaves its input: for every cursor and end inside the input, each function returns without
  reading outside it, and the cursor ends between where it was and the end.\<close>

theorem asn1_readers_safe:
  assumes "pos \<le> stop" and "stop \<le> length b"
  shows "stays pos stop (mbedtls_asn1_get_len b pos stop l0) \<and>
    stays pos stop (mbedtls_asn1_get_tag b pos stop l0 t) \<and>
    stays pos stop (mbedtls_asn1_get_bool b pos stop v0) \<and>
    stays pos stop (mbedtls_asn1_get_int b pos stop v0) \<and>
    stays pos stop (mbedtls_asn1_get_enum b pos stop v0) \<and>
    stays pos stop (mbedtls_asn1_get_bitstring b pos stop bs0) \<and>
    stays pos stop (mbedtls_asn1_get_bitstring_null b pos stop l0) \<and>
    stays pos stop (mbedtls_asn1_traverse_sequence_of b pos stop mm mv ym yv cb ctx) \<and>
    stays pos stop (mbedtls_asn1_get_alg b pos stop a0 x0) \<and>
    stays pos stop (mbedtls_asn1_get_alg_null b pos stop a0)"
  by (intro conjI readers_stay [OF assms])

theorem asn1_readers_safe_witness:
  "stays 1 5 (mbedtls_asn1_get_alg_null [9, 0x30, 2, 6, 0] 1 5 zero_buf)"
proof -
  have l: "5 \<le> length [9, 0x30, 2, 6, 0 :: u8]" by simp
  from asn1_readers_safe [OF _ l, of 1 0 0 0 "\<lparr>bs_len = 0, unused_bits = 0, bs_p = None\<rparr>" 0 0 0 0 None "()" zero_buf zero_buf]
  show ?thesis by simp
qed

text \<open>C29. Reading an \<open>INTEGER\<close>: success means a whole item with that tag, at least one digit, no sign and a value
  below \<open>2 ^ 31\<close>; the result is the big-endian value and the cursor is behind the item. Anything else
  is an error that leaves the output alone. Leading zeros and long forms of the length are accepted.\<close>

theorem asn1_get_int_correct:
  assumes "pos \<le> stop" and "stop \<le> length b"
  shows "case der_int 2 (win b pos stop) of
      None \<Rightarrow> \<exists>e pos'. e < 0 \<and> mbedtls_asn1_get_int b pos stop v0 = Some (e, pos', v0)
    | Some (v, rest) \<Rightarrow> mbedtls_asn1_get_int b pos stop v0 = Some (0, stop - length rest, int v) \<and> v < 2 ^ 31"
proof -
  have "v < 2 ^ 31" if "der_int 2 r = Some (v, rest)" for v r rest
    using that by (auto simp: der_int_def split: option.splits if_splits)
  then show ?thesis using get_tagged_int_spec [OF assms, of 2 v0]
    by (cases "der_int 2 (win b pos stop)") (auto simp: mbedtls_asn1_get_int_def)
qed

theorem asn1_get_int_correct_witness:
  "mbedtls_asn1_get_int [2, 0x81, 3, 0, 1, 44, 99] 0 7 (-1) = Some (0, 6, 300)"
proof -
  have d: "der_int 2 (win [2, 0x81, 3, 0, 1, 44, 99] 0 7) = Some (300, [99])"
    by (simp add: der_int_def win_def be_val_def)
  have l: "7 \<le> length [2, 0x81, 3, 0, 1, 44, 99 :: u8]" by simp
  from asn1_get_int_correct [OF _ l, of 0 "-1"] show ?thesis unfolding d by simp
qed

text \<open>C30. Reading an \<open>AlgorithmIdentifier\<close>: the two output structures point at exactly the identifier and the
  parameters of the reference decoder; absent parameters give a zeroed structure. Trailing bytes in
  the sequence, a wrong tag or a bad length anywhere are errors.\<close>

theorem asn1_get_alg_correct:
  assumes "pos \<le> stop" and "stop \<le> length b"
  shows "case der_alg (win b pos stop) of
      None \<Rightarrow> \<exists>e pos' alg par. e < 0 \<and> mbedtls_asn1_get_alg b pos stop a0 x0 = Some (e, pos', alg, par)
    | Some (oid, ps, rest) \<Rightarrow> \<exists>alg par. mbedtls_asn1_get_alg b pos stop a0 x0 = Some (0, stop - length rest, alg, par) \<and>
        points b alg 6 oid \<and> (case ps of None \<Rightarrow> par = zero_buf | Some (t8, cs) \<Rightarrow> points b par t8 cs)"
  using get_alg_spec [OF assms, of a0 x0] by (cases "der_alg (win b pos stop)") auto

theorem asn1_get_alg_correct_witness:
  "\<exists>alg par. mbedtls_asn1_get_alg [0x30, 6, 6, 2, 42, 3, 5, 0] 0 8 zero_buf zero_buf = Some (0, 8, alg, par) \<and>
    points [0x30, 6, 6, 2, 42, 3, 5, 0] alg 6 [42, 3] \<and> points [0x30, 6, 6, 2, 42, 3, 5, 0] par 5 []"
proof -
  have d: "der_alg (win [0x30, 6, 6, 2, 42, 3, 5, 0] 0 8) = Some ([42, 3], Some (5, []), [])" by code_simp
  have l: "8 \<le> length [0x30, 6, 6, 2, 42, 3, 5, 0 :: u8]" by simp
  from asn1_get_alg_correct [OF _ l, of 0 zero_buf zero_buf] show ?thesis unfolding d by simp
qed

end
