(* ===== verification/Asn1_Named.thy ===== *)
theory Asn1_Named
  imports Asn1_Correct OsIo
begin

text \<open>
  The lists of \<open>internal/mbedtls/asn1parse.c\<close> and \<open>asn1write.c\<close> that live on the heap: sequences of
  parsed items and lists of named data.

  A linked list is the list of its nodes; a node carries its address and the addresses of the blocks it
  points to. \<open>calloc\<close> and \<open>free\<close> are those of the C library and come as a record of functions; the
  trace of the run records the blocks obtained and given back. Giving back a block that is not live
  raises the run's flag. Fields that the functions never touch are left out.
\<close>

section \<open>Blocks\<close>

datatype mem_ev = Alloc nat | Free nat

record 'w mem_api =
  calloc :: "nat \<Rightarrow> 'w \<Rightarrow> nat option \<times> 'w"
  free :: "nat \<Rightarrow> 'w \<Rightarrow> 'w"

type_synonym 'w mem = "('w, mem_ev) io"

fun live_step :: "nat set \<Rightarrow> mem_ev \<Rightarrow> nat set" where
  "live_step s (Alloc a) = insert a s"
| "live_step s (Free a) = s - {a}"

definition live_blocks :: "mem_ev list \<Rightarrow> nat set" where
  "live_blocks tr = foldl live_step {} tr"

definition mbedtls_calloc :: "'w mem_api \<Rightarrow> nat \<Rightarrow> 'w mem \<Rightarrow> nat option \<times> 'w mem" where
  "mbedtls_calloc api n w =
    (let (a, w) = call (calloc api n) w in (a, case a of None \<Rightarrow> w | Some a \<Rightarrow> emit (Alloc a) w))"

definition mbedtls_free :: "'w mem_api \<Rightarrow> nat option \<Rightarrow> 'w mem \<Rightarrow> 'w mem" where
  "mbedtls_free api a w = (case a of
     None \<Rightarrow> w
   | Some a \<Rightarrow> emit (Free a) (snd (call (\<lambda>e. ((), free api a e)) (check (a \<in> live_blocks (trace w)) w))))"

section \<open>Sequences of items\<close>

text \<open>The first node belongs to the caller; it has no address.\<close>

record mbedtls_asn1_sequence =
  seq_addr :: "nat option"
  seq_buf :: mbedtls_asn1_buf

primrec mbedtls_asn1_sequence_free :: "'w mem_api \<Rightarrow> mbedtls_asn1_sequence list \<Rightarrow> 'w mem \<Rightarrow> 'w mem" where
  "mbedtls_asn1_sequence_free api [] w = w"
| "mbedtls_asn1_sequence_free api (s # next) w = mbedtls_asn1_sequence_free api next (mbedtls_free api (seq_addr s) w)"

text \<open>\<open>cb_ctx->cur\<close> is the last node of the list. \<open>32\<close> is the size of a node on
  a 64-bit target.\<close>

definition asn1_get_sequence_of_cb ::
  "'w mem_api \<Rightarrow> mbedtls_asn1_sequence list \<times> 'w mem \<Rightarrow> int \<Rightarrow> nat \<Rightarrow> nat \<Rightarrow> int \<times> mbedtls_asn1_sequence list \<times> 'w mem" where
  "asn1_get_sequence_of_cb api ctx t start l = (case ctx of (ns, w) \<Rightarrow>
     let cur = last ns; item = \<lparr>asn1_tag = t, asn1_len = l, asn1_p = Some start\<rparr>
     in if asn1_p (seq_buf cur) \<noteq> None then
          (case mbedtls_calloc api 32 w of
             (None, w) \<Rightarrow> (MBEDTLS_ERR_ASN1_ALLOC_FAILED, ns, w)
           | (Some a, w) \<Rightarrow> (0, ns @ [\<lparr>seq_addr = Some a, seq_buf = item\<rparr>], w))
        else (0, butlast ns @ [cur\<lparr>seq_buf := item\<rparr>], w))"

definition mbedtls_asn1_get_sequence_of ::
  "'w mem_api \<Rightarrow> bytes \<Rightarrow> nat \<Rightarrow> nat \<Rightarrow> u8 \<Rightarrow> 'w mem \<Rightarrow> (int \<times> nat \<times> mbedtls_asn1_sequence list \<times> 'w mem) option" where
  "mbedtls_asn1_get_sequence_of api b pos stop t w =
    mbedtls_asn1_traverse_sequence_of b pos stop 0xFF t 0 0 (Some (asn1_get_sequence_of_cb api))
      ([\<lparr>seq_addr = None, seq_buf = zero_buf\<rparr>], w)"

section \<open>Named data\<close>

record mbedtls_asn1_named_data =
  nd_addr :: nat
  nd_oid_p :: nat
  nd_oid :: bytes
  nd_val_p :: "nat option"
  nd_val :: bytes

definition mbedtls_asn1_free_named_data :: "'w mem_api \<Rightarrow> mbedtls_asn1_named_data option \<Rightarrow> 'w mem \<Rightarrow> 'w mem" where
  "mbedtls_asn1_free_named_data api cur w = (case cur of
     None \<Rightarrow> w
   | Some n \<Rightarrow> mbedtls_free api (nd_val_p n) (mbedtls_free api (Some (nd_oid_p n)) w))"

primrec mbedtls_asn1_free_named_data_list :: "'w mem_api \<Rightarrow> mbedtls_asn1_named_data list \<Rightarrow> 'w mem \<Rightarrow> 'w mem" where
  "mbedtls_asn1_free_named_data_list api [] w = w"
| "mbedtls_asn1_free_named_data_list api (cur # head) w =
    mbedtls_asn1_free_named_data_list api head
      (mbedtls_free api (Some (nd_addr cur)) (mbedtls_free api (nd_val_p cur) (mbedtls_free api (Some (nd_oid_p cur)) w)))"

primrec mbedtls_asn1_free_named_data_list_shallow ::
  "'w mem_api \<Rightarrow> mbedtls_asn1_named_data list \<Rightarrow> 'w mem \<Rightarrow> 'w mem" where
  "mbedtls_asn1_free_named_data_list_shallow api [] w = w"
| "mbedtls_asn1_free_named_data_list_shallow api (name # next) w =
    mbedtls_asn1_free_named_data_list_shallow api next (mbedtls_free api (Some (nd_addr name)) w)"

primrec mbedtls_asn1_find_named_data :: "mbedtls_asn1_named_data list \<Rightarrow> bytes \<Rightarrow> mbedtls_asn1_named_data option" where
  "mbedtls_asn1_find_named_data [] oid = None"
| "mbedtls_asn1_find_named_data (n # list) oid =
    (if length (nd_oid n) = length oid \<and> nd_oid n = oid then Some n else mbedtls_asn1_find_named_data list oid)"

text \<open>Writing through the pointer \<open>cur\<close> changes the node at that address.\<close>

definition set_node :: "mbedtls_asn1_named_data list \<Rightarrow> mbedtls_asn1_named_data \<Rightarrow> mbedtls_asn1_named_data list" where
  "set_node ns cur = map (\<lambda>n. if nd_addr n = nd_addr cur then cur else n) ns"

text \<open>A new entry: its three blocks, given back again when one of them cannot be had. \<open>64\<close> is the size of a
  node on a 64-bit target.\<close>

definition new_named_data :: "'w mem_api \<Rightarrow> bytes \<Rightarrow> nat \<Rightarrow> 'w mem \<Rightarrow> mbedtls_asn1_named_data option \<times> 'w mem" where
  "new_named_data api oid val_len w = (case mbedtls_calloc api 64 w of
     (None, w) \<Rightarrow> (None, w)
   | (Some cur, w) \<Rightarrow> (case mbedtls_calloc api (length oid) w of
       (None, w) \<Rightarrow> (None, mbedtls_free api (Some cur) w)
     | (Some op, w) \<Rightarrow>
         if val_len = 0 then (Some \<lparr>nd_addr = cur, nd_oid_p = op, nd_oid = oid, nd_val_p = None, nd_val = []\<rparr>, w)
         else (case mbedtls_calloc api val_len w of
             (None, w) \<Rightarrow> (None, mbedtls_free api (Some cur) (mbedtls_free api (Some op) w))
           | (Some vp, w) \<Rightarrow> (Some \<lparr>nd_addr = cur, nd_oid_p = op, nd_oid = oid, nd_val_p = Some vp, nd_val = replicate val_len 0\<rparr>, w))))"

text \<open>The last step copies the value; \<open>val\<close> may be a null pointer.\<close>

definition store_val ::
  "mbedtls_asn1_named_data list \<Rightarrow> mbedtls_asn1_named_data \<Rightarrow> bytes option \<Rightarrow> nat \<Rightarrow> 'w mem \<Rightarrow>
    mbedtls_asn1_named_data option \<times> mbedtls_asn1_named_data list \<times> 'w mem" where
  "store_val head cur val val_len w = (case val of
     None \<Rightarrow> (Some cur, head, w)
   | Some v \<Rightarrow>
       if val_len = 0 then (Some cur, head, w)
       else
         let w = check (val_len \<le> length v \<and> fits (nd_val cur) 0 val_len) w;
             cur = cur\<lparr>nd_val := put (nd_val cur) 0 (take val_len v)\<rparr>
         in (Some cur, set_node head cur, w))"

definition mbedtls_asn1_store_named_data ::
  "'w mem_api \<Rightarrow> mbedtls_asn1_named_data list \<Rightarrow> bytes \<Rightarrow> bytes option \<Rightarrow> nat \<Rightarrow> 'w mem \<Rightarrow>
    mbedtls_asn1_named_data option \<times> mbedtls_asn1_named_data list \<times> 'w mem" where
  "mbedtls_asn1_store_named_data api head oid val val_len w = (case mbedtls_asn1_find_named_data head oid of
     None \<Rightarrow> (case new_named_data api oid val_len w of
         (None, w) \<Rightarrow> (None, head, w)
       | (Some cur, w) \<Rightarrow> store_val (cur # head) cur val val_len w)
   | Some cur \<Rightarrow>
       if val_len = 0 then
         let w = mbedtls_free api (nd_val_p cur) w; cur = cur\<lparr>nd_val_p := None, nd_val := []\<rparr>
         in store_val (set_node head cur) cur val val_len w
       else if length (nd_val cur) \<noteq> val_len then (case mbedtls_calloc api val_len w of
           (None, w) \<Rightarrow> (None, head, w)
         | (Some vp, w) \<Rightarrow>
             let w = mbedtls_free api (nd_val_p cur) w;
                 cur = cur\<lparr>nd_val_p := Some vp, nd_val := replicate val_len 0\<rparr>
             in store_val (set_node head cur) cur val val_len w)
       else store_val head cur val val_len w)"

end
