(* ===== verification/Asn1_Named_Correct.thy ===== *)
theory Asn1_Named_Correct
  imports Asn1_Named
begin

text \<open>
  The heap lists of the ASN.1 code: storing named data refines the update of a finite map, no operation
  leaks a block or gives one back twice, and a failed allocation changes nothing.
\<close>

section \<open>The allocator\<close>

text \<open>What the C library promises: \<open>calloc\<close> returns a block that is not in use, or nothing; \<open>free\<close> ends
  the use of a block.\<close>

definition mem_ok :: "'w mem_api \<Rightarrow> ('w \<Rightarrow> nat set) \<Rightarrow> bool" where
  "mem_ok api used \<longleftrightarrow>
    (\<forall>n e. case calloc api n e of
       (None, e') \<Rightarrow> used e' = used e
     | (Some a, e') \<Rightarrow> a \<notin> used e \<and> used e' = insert a (used e)) \<and>
    (\<forall>a e. used (free api a e) = used e - {a})"

definition mem_inv :: "('w \<Rightarrow> nat set) \<Rightarrow> 'w mem \<Rightarrow> bool" where
  "mem_inv used w \<longleftrightarrow> live_blocks (trace w) \<subseteq> used (env w)"

lemma mem_live_simps [simp]: "live_blocks [] = {}" "live_blocks (tr @ [Alloc a]) = insert a (live_blocks tr)" "live_blocks (tr @ [Free a]) = live_blocks tr - {a}"
  by (simp_all add: live_blocks_def)

lemma calloc_cases:
  assumes "mem_ok api used" and "mem_inv used w"
  obtains (none) w' where "mbedtls_calloc api n w = (None, w')" "live_blocks (trace w') = live_blocks (trace w)" "mem_inv used w'" "oob w' = oob w"
  | (some) a w' where "mbedtls_calloc api n w = (Some a, w')" "a \<notin> live_blocks (trace w)" "live_blocks (trace w') = insert a (live_blocks (trace w))"
      "mem_inv used w'" "oob w' = oob w"
proof (cases "calloc api n (env w)")
  case (Pair r e)
  have "case calloc api n (env w) of (None, e') \<Rightarrow> used e' = used (env w)
     | (Some a, e') \<Rightarrow> a \<notin> used (env w) \<and> used e' = insert a (used (env w))"
    by (rule mem_ok_def [THEN iffD1, OF assms(1), THEN conjunct1, THEN spec, THEN spec])
  then have ok: "case r of None \<Rightarrow> used e = used (env w) | Some a \<Rightarrow> a \<notin> used (env w) \<and> used e = insert a (used (env w))"
    unfolding Pair by (cases r) auto
  show ?thesis
  proof (cases r)
    case None
    then show ?thesis using Pair ok assms(2)
      by (intro none [of "w\<lparr>env := e\<rparr>"]) (auto simp: mbedtls_calloc_def call_def mem_inv_def)
  next
    case (Some a)
    then show ?thesis using Pair ok assms(2)
      by (intro some [of a "emit (Alloc a) (w\<lparr>env := e\<rparr>)"]) (auto simp: mbedtls_calloc_def call_def mem_inv_def)
  qed
qed

lemma free_spec:
  assumes "mem_ok api used" and "mem_inv used w" and "set_option a \<subseteq> live_blocks (trace w)"
  shows "live_blocks (trace (mbedtls_free api a w)) = live_blocks (trace w) - set_option a"
    and "mem_inv used (mbedtls_free api a w)" and "oob (mbedtls_free api a w) = oob w"
  using assms by (cases a; auto simp: mbedtls_free_def mem_inv_def mem_ok_def)+

section \<open>Lists of named data\<close>

definition owned :: "mbedtls_asn1_named_data \<Rightarrow> nat list" where
  "owned n = nd_addr n # nd_oid_p n # (case nd_val_p n of None \<Rightarrow> [] | Some v \<Rightarrow> [v])"

definition blocks :: "mbedtls_asn1_named_data list \<Rightarrow> nat list" where
  "blocks ns = concat (map owned ns)"

definition entries :: "mbedtls_asn1_named_data list \<Rightarrow> bytes \<Rightarrow> bytes option" where
  "entries ns oid = map_option nd_val (mbedtls_asn1_find_named_data ns oid)"

text \<open>A well-formed list: one entry per identifier, no shared block, all blocks live.\<close>

definition nd_inv :: "('w \<Rightarrow> nat set) \<Rightarrow> mbedtls_asn1_named_data list \<Rightarrow> 'w mem \<Rightarrow> bool" where
  "nd_inv used ns w \<longleftrightarrow> mem_inv used w \<and> distinct (map nd_oid ns) \<and> distinct (blocks ns) \<and> set (blocks ns) \<subseteq> live_blocks (trace w)"

lemma blocks_simps [simp]: "blocks [] = []" "blocks (n # ns) = owned n @ blocks ns" "blocks (xs @ ys) = blocks xs @ blocks ys"
  by (simp_all add: blocks_def)

lemma find_None: "mbedtls_asn1_find_named_data ns oid = None \<longleftrightarrow> oid \<notin> nd_oid ` set ns"
  by (induction ns) auto

lemma find_split:
  "mbedtls_asn1_find_named_data ns oid = Some n \<Longrightarrow>
    \<exists>xs ys. ns = xs @ n # ys \<and> oid \<notin> nd_oid ` set xs \<and> nd_oid n = oid"
proof (induction ns)
  case (Cons m ns)
  show ?case
  proof (cases "nd_oid m = oid")
    case True
    then show ?thesis using Cons.prems by (intro exI [of _ "[]"] exI [of _ ns]) auto
  next
    case False
    then obtain xs ys where "ns = xs @ n # ys" "oid \<notin> nd_oid ` set xs" "nd_oid n = oid" using Cons by auto
    then show ?thesis using False by (intro exI [of _ "m # xs"] exI [of _ ys]) auto
  qed
qed simp

lemma find_mid: "oid \<notin> nd_oid ` set xs \<Longrightarrow> mbedtls_asn1_find_named_data (xs @ ys) oid = mbedtls_asn1_find_named_data ys oid"
  by (induction xs) auto

lemma entries_mid:
  "nd_oid m \<notin> nd_oid ` set xs \<Longrightarrow> nd_oid m = nd_oid n \<Longrightarrow>
    entries (xs @ m # ys) = (entries (xs @ n # ys))(nd_oid m \<mapsto> nd_val m)"
proof (rule ext)
  fix oid assume a: "nd_oid m \<notin> nd_oid ` set xs" "nd_oid m = nd_oid n"
  show "entries (xs @ m # ys) oid = ((entries (xs @ n # ys))(nd_oid m \<mapsto> nd_val m)) oid"
  proof (cases "oid = nd_oid m")
    case True
    then show ?thesis using a by (simp add: entries_def find_mid)
  next
    case False
    have "mbedtls_asn1_find_named_data (xs @ m # ys) oid = mbedtls_asn1_find_named_data (xs @ n # ys) oid"
      using False a(2) by (induction xs) auto
    then show ?thesis using False by (simp add: entries_def)
  qed
qed

lemma set_node_mid:
  assumes "distinct (blocks (xs @ n # ys))" and "nd_addr m = nd_addr n"
  shows "set_node (xs @ n # ys) m = xs @ m # ys"
proof -
  have "nd_addr k \<noteq> nd_addr n" if "k \<in> set xs \<union> set ys" for k
  proof -
    have "nd_addr k \<in> set (blocks xs) \<union> set (blocks ys)" using that by (force simp: blocks_def owned_def)
    then show ?thesis using assms(1) by (auto simp: owned_def)
  qed
  then have "map (\<lambda>k. if nd_addr k = nd_addr m then m else k) xs = xs" "map (\<lambda>k. if nd_addr k = nd_addr m then m else k) ys = ys"
    using assms(2) by (auto intro!: map_idI)
  then show ?thesis using assms(2) by (simp add: set_node_def)
qed

text \<open>The value an entry has after storing it.\<close>

definition stored :: "mbedtls_asn1_named_data list \<Rightarrow> bytes \<Rightarrow> bytes option \<Rightarrow> nat \<Rightarrow> bytes" where
  "stored ns oid val val_len = (case val of
     Some v \<Rightarrow> take val_len v
   | None \<Rightarrow> (case entries ns oid of
       Some old \<Rightarrow> if length old = val_len then old else replicate val_len 0
     | None \<Rightarrow> replicate val_len 0))"

text \<open>What storing keeps: the list is well-formed, blocks outside the list stay as they are, and the
  entries are those of the old list with one entry set.\<close>

definition store_post ::
  "('w \<Rightarrow> nat set) \<Rightarrow> mbedtls_asn1_named_data list \<Rightarrow> 'w mem \<Rightarrow> bytes \<Rightarrow> bytes \<Rightarrow>
    mbedtls_asn1_named_data option \<times> mbedtls_asn1_named_data list \<times> 'w mem \<Rightarrow> bool" where
  "store_post used ns w oid v r = (case r of (cur, ns', w') \<Rightarrow>
     nd_inv used ns' w' \<and> oob w' = oob w \<and> live_blocks (trace w') - set (blocks ns') = live_blocks (trace w) - set (blocks ns) \<and>
     (case cur of None \<Rightarrow> ns' = ns | Some n \<Rightarrow> n \<in> set ns' \<and> nd_oid n = oid \<and> nd_val n = v \<and> entries ns' = (entries ns)(oid \<mapsto> v)))"

lemma store_val_spec:
  assumes inv: "nd_inv used (xs @ cur # ys) w" and xs: "nd_oid cur \<notin> nd_oid ` set xs"
    and len: "length (nd_val cur) = val_len" and v: "\<forall>u. val = Some u \<longrightarrow> val_len \<le> length u"
  shows "\<exists>n. store_val (xs @ cur # ys) cur val val_len w = (Some n, xs @ n # ys, w) \<and> owned n = owned cur \<and>
    nd_oid n = nd_oid cur \<and> nd_val n = (case val of None \<Rightarrow> nd_val cur | Some u \<Rightarrow> take val_len u)"
proof (cases "val = None \<or> val_len = 0")
  case True
  then show ?thesis using len by (auto simp: store_val_def split: option.split)
next
  case False
  then obtain u where u: "val = Some u" by auto
  have put: "put (nd_val cur) 0 (take val_len u) = take val_len u" using len v u by (simp add: put_def)
  let ?n = "cur\<lparr>nd_val := take val_len u\<rparr>"
  have "set_node (xs @ cur # ys) ?n = xs @ ?n # ys" using inv by (intro set_node_mid) (auto simp: nd_inv_def)
  moreover have "check True w = w" by (simp add: check_def)
  ultimately show ?thesis using False u v len
    by (intro exI [of _ ?n]) (auto simp: store_val_def Let_def put owned_def fits_def)
qed

lemma new_named_data_spec:
  assumes ok: "mem_ok api used" and inv: "mem_inv used w" 
  shows "case new_named_data api oid val_len w of
      (None, w') \<Rightarrow> mem_inv used w' \<and> oob w' = oob w \<and> live_blocks (trace w') = live_blocks (trace w)
    | (Some n, w') \<Rightarrow> mem_inv used w' \<and> oob w' = oob w \<and> live_blocks (trace w') = live_blocks (trace w) \<union> set (owned n) \<and>
        set (owned n) \<inter> live_blocks (trace w) = {} \<and> distinct (owned n) \<and> nd_oid n = oid \<and> nd_val n = replicate val_len 0"
proof (rule calloc_cases [OF ok inv, of 64], goal_cases)
  case (1 w1)
  then show ?case by (simp add: new_named_data_def)
next
  case a: (2 a w1)
  show ?case
  proof (rule calloc_cases [OF ok a(4), of "length oid"], goal_cases)
    case (1 w2)
    then show ?case using a free_spec [OF ok 1(3), of "Some a"] by (auto simp: new_named_data_def)
  next
    case o: (2 p w2)
    show ?case
    proof (cases "val_len = 0")
      case True
      then show ?thesis using a o by (auto simp: new_named_data_def owned_def)
    next
      case False
      show ?thesis
      proof (rule calloc_cases [OF ok o(4), of val_len], goal_cases)
        case (1 w3)
        have f: "live_blocks (trace (mbedtls_free api (Some p) w3)) = live_blocks (trace w1)" "mem_inv used (mbedtls_free api (Some p) w3)"
            "oob (mbedtls_free api (Some p) w3) = oob w"
          using free_spec [OF ok 1(3), of "Some p"] 1 o a by auto
        from free_spec [OF ok f(2), of "Some a"] show ?case using f False a o 1 by (auto simp: new_named_data_def)
      next
        case (2 q w3)
        then show ?case using False a o by (auto simp: new_named_data_def owned_def)
      qed
    qed
  qed
qed

lemma replace_val:
  assumes inv: "nd_inv used (xs @ cur # ys) w" and m: "mem_inv used w'"
    and vp: "set_option vp \<inter> live_blocks (trace w) = {}"
    and live: "live_blocks (trace w') = (live_blocks (trace w) - set_option (nd_val_p cur)) \<union> set_option vp"
  shows "nd_inv used (xs @ cur\<lparr>nd_val_p := vp, nd_val := x\<rparr> # ys) w'"
    and "live_blocks (trace w') - set (blocks (xs @ cur\<lparr>nd_val_p := vp, nd_val := x\<rparr> # ys)) =
      live_blocks (trace w) - set (blocks (xs @ cur # ys))"
proof -
  let ?c = "cur\<lparr>nd_val_p := vp, nd_val := x\<rparr>"
  let ?R = "set (blocks xs) \<union> set (blocks ys) \<union> {nd_addr cur, nd_oid_p cur}"
  have o: "set (owned cur) = {nd_addr cur, nd_oid_p cur} \<union> set_option (nd_val_p cur)"
    "set (owned ?c) = {nd_addr cur, nd_oid_p cur} \<union> set_option vp"
    by (auto simp: owned_def split: option.split)
  have b: "set (blocks (xs @ cur # ys)) = ?R \<union> set_option (nd_val_p cur)" "set (blocks (xs @ ?c # ys)) = ?R \<union> set_option vp"
    using o by auto
  have sub: "?R \<union> set_option (nd_val_p cur) \<subseteq> live_blocks (trace w)" using inv unfolding nd_inv_def b(1) by blast
  have dis: "?R \<inter> set_option (nd_val_p cur) = {}"
    using inv o(1) by (auto simp: nd_inv_def owned_def split: option.splits)
  show "live_blocks (trace w') - set (blocks (xs @ ?c # ys)) = live_blocks (trace w) - set (blocks (xs @ cur # ys))"
    unfolding b live using sub dis vp by auto
  have "distinct (blocks (xs @ ?c # ys))"
    using inv vp sub by (cases vp; cases "nd_val_p cur") (auto simp: nd_inv_def owned_def)
  moreover have "set (blocks (xs @ ?c # ys)) \<subseteq> live_blocks (trace w')" unfolding b live using sub dis by auto
  ultimately show "nd_inv used (xs @ ?c # ys) w'" using inv m by (simp add: nd_inv_def)
qed

lemma store_val_post:
  assumes inv: "nd_inv used (xs @ cur # ys) w'" and xs: "nd_oid cur \<notin> nd_oid ` set xs"
    and len: "length (nd_val cur) = val_len" and u: "\<forall>u. val = Some u \<longrightarrow> val_len \<le> length u"
    and keep: "live_blocks (trace w') - set (blocks (xs @ cur # ys)) = live_blocks (trace w) - set (blocks ns)" "oob w' = oob w"
    and ent: "\<And>n. nd_oid n = nd_oid cur \<Longrightarrow> entries (xs @ n # ys) = (entries ns)(nd_oid n \<mapsto> nd_val n)"
    and v: "v = (case val of None \<Rightarrow> nd_val cur | Some u \<Rightarrow> take val_len u)"
  shows "store_post used ns w (nd_oid cur) v (store_val (xs @ cur # ys) cur val val_len w')"
proof -
  from store_val_spec [OF inv xs len u] obtain n where
    n: "store_val (xs @ cur # ys) cur val val_len w' = (Some n, xs @ n # ys, w')" "owned n = owned cur" "nd_oid n = nd_oid cur"
      "nd_val n = v" unfolding v by blast
  have b: "blocks (xs @ n # ys) = blocks (xs @ cur # ys)" using n(2) by simp
  then have "nd_inv used (xs @ n # ys) w'" using inv n(3) by (simp add: nd_inv_def)
  then show ?thesis using n keep b ent [OF n(3)] by (simp add: store_post_def)
qed

lemma store_spec:
  assumes ok: "mem_ok api used" and inv: "nd_inv used ns w" and u: "\<forall>u. val = Some u \<longrightarrow> val_len \<le> length u"
  shows "store_post used ns w oid (stored ns oid val val_len) (mbedtls_asn1_store_named_data api ns oid val val_len w)"
proof (cases "mbedtls_asn1_find_named_data ns oid")
  case None
  have m: "mem_inv used w" using inv by (simp add: nd_inv_def)
  have e: "entries ns oid = None" using None by (simp add: entries_def)
  obtain r w' where r: "new_named_data api oid val_len w = (r, w')" by fastforce
  note N = new_named_data_spec [OF ok m, of oid val_len, unfolded r]
  show ?thesis
  proof (cases r)
    case fail: None
    then show ?thesis using None r N inv by (simp add: mbedtls_asn1_store_named_data_def store_post_def nd_inv_def)
  next
    case (Some n)
    have i: "nd_inv used ([] @ n # ns) w'"
      using N Some inv None find_None [of ns oid] by (auto simp: nd_inv_def)
    have k: "live_blocks (trace w') - set (blocks ([] @ n # ns)) = live_blocks (trace w) - set (blocks ns)" using N Some inv by (auto simp: nd_inv_def)
    have ent: "entries ([] @ k # ns) = (entries ns)(nd_oid k \<mapsto> nd_val k)" for k by (rule ext) (auto simp: entries_def)
    have "store_post used ns w (nd_oid n) (stored ns oid val val_len) (store_val ([] @ n # ns) n val val_len w')"
      by (rule store_val_post [OF i _ _ u k _ ent]) (use N Some e in \<open>auto simp: stored_def split: option.split\<close>)
    then show ?thesis using None r Some N by (simp add: mbedtls_asn1_store_named_data_def)
  qed
next
  case (Some cur)
  then obtain xs ys where ns: "ns = xs @ cur # ys" "oid \<notin> nd_oid ` set xs" and oid: "nd_oid cur = oid" using find_split by blast
  have m: "mem_inv used w" using inv by (simp add: nd_inv_def)
  have e: "entries ns oid = Some (nd_val cur)" using Some by (simp add: entries_def)
  have xs: "nd_oid cur \<notin> nd_oid ` set xs" using ns(2) oid by simp
  have sn: "set_node ns (cur\<lparr>nd_val_p := vp, nd_val := x\<rparr>) = xs @ cur\<lparr>nd_val_p := vp, nd_val := x\<rparr> # ys" for vp x
    unfolding ns(1) using inv ns(1) by (intro set_node_mid) (auto simp: nd_inv_def)
  have sub: "set_option (nd_val_p cur) \<subseteq> live_blocks (trace w)" using inv ns(1) by (auto simp: nd_inv_def owned_def split: option.splits)
  have ent: "entries (xs @ n # ys) = (entries ns)(nd_oid n \<mapsto> nd_val n)" if "nd_oid n = oid" for n
    unfolding ns(1) using ns(2) that oid by (intro entries_mid) auto
  have post: "store_post used ns w oid (stored ns oid val val_len) (store_val (xs @ c # ys) c val val_len w')"
    if "c = cur\<lparr>nd_val_p := vp, nd_val := replicate val_len 0\<rparr>" "length (nd_val cur) \<noteq> val_len \<or> val_len = 0"
      "mem_inv used w'" "set_option vp \<inter> live_blocks (trace w) = {}" "oob w' = oob w"
      "live_blocks (trace w') = (live_blocks (trace w) - set_option (nd_val_p cur)) \<union> set_option vp" for c vp w'
  proof -
    note R = replace_val [OF inv [unfolded ns(1)] that(3,4,6), of "replicate val_len 0"]
    have v: "stored ns oid val val_len = (case val of None \<Rightarrow> nd_val c | Some u \<Rightarrow> take val_len u)"
      using that(1,2) e by (auto simp: stored_def split: option.split)
    have "store_post used ns w (nd_oid c) (stored ns oid val val_len) (store_val (xs @ c # ys) c val val_len w')"
      by (rule store_val_post [OF R(1) [folded that(1)] _ _ u R(2) [folded that(1) ns(1)] that(5) _ v]) (use that(1) xs oid ent in auto)
    then show ?thesis using that(1) oid by simp
  qed
  show ?thesis
  proof (cases "val_len = 0")
    case True
    note F = free_spec [OF ok m sub]
    from post [of "cur\<lparr>nd_val_p := None, nd_val := []\<rparr>" None "mbedtls_free api (nd_val_p cur) w"] F True sn [of "[]" None] Some
    show ?thesis by (simp add: mbedtls_asn1_store_named_data_def Let_def)
  next
    case False
    show ?thesis
    proof (cases "length (nd_val cur) = val_len")
      case True
      have k: "live_blocks (trace w) - set (blocks (xs @ cur # ys)) = live_blocks (trace w) - set (blocks ns)" by (simp only: ns(1))
      have v: "stored ns oid val val_len = (case val of None \<Rightarrow> nd_val cur | Some u \<Rightarrow> take val_len u)"
        using e True by (simp add: stored_def split: option.split)
      have "store_post used ns w (nd_oid cur) (stored ns oid val val_len) (store_val (xs @ cur # ys) cur val val_len w)"
        by (rule store_val_post [OF inv [unfolded ns(1)] xs True u k refl ent [folded oid] v])
      then show ?thesis using Some False True ns(1) oid by (simp add: mbedtls_asn1_store_named_data_def)
    next
      case ne: False
      show ?thesis
      proof (rule calloc_cases [OF ok m, of val_len], goal_cases)
        case (1 w1)
        then show ?case using Some False ne inv by (simp add: mbedtls_asn1_store_named_data_def store_post_def nd_inv_def)
      next
        case (2 vp w1)
        have s1: "set_option (nd_val_p cur) \<subseteq> live_blocks (trace w1)" using sub 2(3) by auto
        note F = free_spec [OF ok 2(4) s1]
        have l: "live_blocks (trace (mbedtls_free api (nd_val_p cur) w1)) = (live_blocks (trace w) - set_option (nd_val_p cur)) \<union> set_option (Some vp)"
          unfolding F(1) 2(3) using sub 2(2) by auto
        from post [OF refl _ F(2), of "Some vp"] l 2 F(3) ne sn [of "replicate val_len 0" "Some vp"] Some False
        show ?case by (simp add: mbedtls_asn1_store_named_data_def Let_def)
      qed
    qed
  qed
qed

lemma free_list_spec:
  assumes ok: "mem_ok api used"
  shows "nd_inv used ns w \<Longrightarrow> live_blocks (trace (mbedtls_asn1_free_named_data_list api ns w)) = live_blocks (trace w) - set (blocks ns) \<and>
    mem_inv used (mbedtls_asn1_free_named_data_list api ns w) \<and> oob (mbedtls_asn1_free_named_data_list api ns w) = oob w"
proof (induction ns arbitrary: w)
  case Nil
  then show ?case by (simp add: nd_inv_def)
next
  case (Cons n ns)
  let ?w1 = "mbedtls_free api (Some (nd_oid_p n)) w"
  let ?w2 = "mbedtls_free api (nd_val_p n) ?w1"
  let ?w3 = "mbedtls_free api (Some (nd_addr n)) ?w2"
  have d: "distinct (owned n @ blocks ns)" "set (owned n) \<union> set (blocks ns) \<subseteq> live_blocks (trace w)" "mem_inv used w"
    using Cons.prems by (auto simp: nd_inv_def)
  have s1: "set_option (Some (nd_oid_p n)) \<subseteq> live_blocks (trace w)" using d by (auto simp: owned_def)
  note F1 = free_spec [OF ok d(3) s1]
  have s2: "set_option (nd_val_p n) \<subseteq> live_blocks (trace ?w1)" unfolding F1(1) using d by (auto simp: owned_def)
  note F2 = free_spec [OF ok F1(2) s2]
  have s3: "set_option (Some (nd_addr n)) \<subseteq> live_blocks (trace ?w2)" unfolding F2(1) F1(1) using d by (auto simp: owned_def)
  note F3 = free_spec [OF ok F2(2) s3]
  have l: "live_blocks (trace ?w3) = live_blocks (trace w) - set (owned n)"
    unfolding F3(1) F2(1) F1(1) by (auto simp: owned_def split: option.splits)
  then have "nd_inv used ns ?w3" using Cons.prems d F3(2) by (auto simp: nd_inv_def)
  from Cons.IH [OF this] show ?case using l F3(3) F2(3) F1(3) by auto
qed

section \<open>A map that can run out of memory\<close>

text \<open>An update either sets the key, to a value that may depend on the one it had, or reports failure and
  changes nothing.\<close>

fun run_updates :: "('k \<Rightarrow> 'x \<Rightarrow> 's \<Rightarrow> bool \<times> 's) \<Rightarrow> ('k \<times> 'x) list \<Rightarrow> 's \<Rightarrow> bool list \<times> 's" where
  "run_updates upd [] s = ([], s)"
| "run_updates upd ((k, v) # kvs) s = (let (d, s) = upd k v s; (ds, s) = run_updates upd kvs s in (d # ds, s))"

locale fallible_map =
  fixes inv :: "'s \<Rightarrow> bool" and lookup :: "'s \<Rightarrow> 'k \<Rightarrow> 'v option" and next_val :: "'v option \<Rightarrow> 'x \<Rightarrow> 'v"
    and upd :: "'k \<Rightarrow> 'x \<Rightarrow> 's \<Rightarrow> bool \<times> 's"
  assumes inv_upd: "inv s \<Longrightarrow> inv (snd (upd k v s))"
    and upd_done: "inv s \<Longrightarrow> fst (upd k v s) \<Longrightarrow> lookup (snd (upd k v s)) = (lookup s)(k \<mapsto> next_val (lookup s k) v)"
    and upd_fail: "inv s \<Longrightarrow> \<not> fst (upd k v s) \<Longrightarrow> lookup (snd (upd k v s)) = lookup s"
begin

text \<open>After any run of updates the map is what the updates that succeeded make of it, in order.\<close>

lemma run_refines:
  "inv s \<Longrightarrow> inv (snd (run_updates upd kvs s)) \<and> length (fst (run_updates upd kvs s)) = length kvs \<and>
    lookup (snd (run_updates upd kvs s)) = foldl (\<lambda>m (d, k, v). if d then m(k \<mapsto> next_val (m k) v) else m) (lookup s) (zip (fst (run_updates upd kvs s)) kvs)"
proof (induction kvs arbitrary: s)
  case (Cons kv kvs)
  obtain k v where kv: "kv = (k, v)" by fastforce
  obtain d t where t: "upd k v s = (d, t)" by fastforce
  have i: "inv t" using inv_upd [OF Cons.prems, of k v] t by simp
  have l: "lookup t = (if d then (lookup s)(k \<mapsto> next_val (lookup s k) v) else lookup s)"
    using upd_done [OF Cons.prems, of k v] upd_fail [OF Cons.prems, of k v] t by auto
  show ?case using Cons.IH [OF i] by (simp add: kv t l case_prod_beta)
qed simp

end

text \<open>What a caller passes: bytes (\<open>Inl\<close>), or a null pointer and the length to make room for (\<open>Inr\<close>). The
  value the entry then has: the bytes; the old value if it has that length already, otherwise zeros.\<close>

definition store_named :: "'w mem_api \<Rightarrow> bytes \<Rightarrow> bytes + nat \<Rightarrow> mbedtls_asn1_named_data list \<times> 'w mem \<Rightarrow>
    bool \<times> mbedtls_asn1_named_data list \<times> 'w mem" where
  "store_named api oid x s =
    (case (case x of Inl v \<Rightarrow> mbedtls_asn1_store_named_data api (fst s) oid (Some v) (length v) (snd s)
           | Inr n \<Rightarrow> mbedtls_asn1_store_named_data api (fst s) oid None n (snd s)) of
     (cur, s') \<Rightarrow> (cur \<noteq> None, s'))"

fun named_val :: "bytes option \<Rightarrow> bytes + nat \<Rightarrow> bytes" where
  "named_val old (Inl v) = v"
| "named_val old (Inr n) = (case old of Some v \<Rightarrow> if length v = n then v else replicate n 0 | None \<Rightarrow> replicate n 0)"

definition named_inv :: "'w mem_api \<Rightarrow> ('w \<Rightarrow> nat set) \<Rightarrow> nat set \<Rightarrow> mbedtls_asn1_named_data list \<times> 'w mem \<Rightarrow> bool" where
  "named_inv api used base s \<longleftrightarrow> mem_ok api used \<and> nd_inv used (fst s) (snd s) \<and> \<not> oob (snd s) \<and>
     live_blocks (trace (snd s)) - set (blocks (fst s)) = base"

lemma store_named_post:
  assumes "named_inv api used base s"
  shows "store_post used (fst s) (snd s) oid (named_val (entries (fst s) oid) x)
    (case x of Inl v \<Rightarrow> mbedtls_asn1_store_named_data api (fst s) oid (Some v) (length v) (snd s)
     | Inr n \<Rightarrow> mbedtls_asn1_store_named_data api (fst s) oid None n (snd s))"
proof (cases x)
  case (Inl v)
  have "stored (fst s) oid (Some v) (length v) = v" by (simp add: stored_def)
  with store_spec [of api used "fst s" "snd s" "Some v" "length v" oid] show ?thesis using assms Inl by (simp add: named_inv_def)
next
  case (Inr n)
  have "stored (fst s) oid None n = named_val (entries (fst s) oid) (Inr n)" by (auto simp: stored_def split: option.split)
  with store_spec [of api used "fst s" "snd s" None n oid] show ?thesis using assms Inr by (simp add: named_inv_def)
qed

interpretation named: fallible_map "named_inv api used base" "\<lambda>s. entries (fst s)" named_val "store_named api"
proof (unfold_locales, goal_cases)
  case (1 s k v)
  from store_named_post [OF 1, of k v] show ?case using 1
    by (auto simp: store_named_def store_post_def named_inv_def case_prod_beta split: sum.splits)
next
  case (2 s k v)
  from store_named_post [OF 2(1), of k v] show ?case using 2(2)
    by (auto simp: store_named_def store_post_def case_prod_beta split: option.splits sum.splits)
next
  case (3 s k v)
  from store_named_post [OF 3(1), of k v] show ?case using 3(2)
    by (auto simp: store_named_def store_post_def case_prod_beta split: option.splits sum.splits)
qed

section \<open>Sequences of items\<close>

abbreviation item_buf :: "u8 \<times> nat \<times> nat \<Rightarrow> mbedtls_asn1_buf" where
  "item_buf x \<equiv> \<lparr>asn1_tag = uint (fst x), asn1_len = snd (snd x), asn1_p = Some (fst (snd x))\<rparr>"

abbreviation first_node :: mbedtls_asn1_sequence where
  "first_node \<equiv> \<lparr>seq_addr = None, seq_buf = zero_buf\<rparr>"

text \<open>The list after the items \<open>xs\<close>; the nodes behind the first are blocks of their own.\<close>

definition seq_blocks :: "mbedtls_asn1_sequence list \<Rightarrow> nat list" where
  "seq_blocks ns = concat (map (\<lambda>n. case seq_addr n of None \<Rightarrow> [] | Some a \<Rightarrow> [a]) ns)"

definition seq_inv ::
  "('w \<Rightarrow> nat set) \<Rightarrow> nat set \<Rightarrow> bool \<Rightarrow> (u8 \<times> nat \<times> nat) list \<Rightarrow> mbedtls_asn1_sequence list \<times> 'w mem \<Rightarrow> bool" where
  "seq_inv used base bad xs c = (case c of (ns, w) \<Rightarrow>
     ns \<noteq> [] \<and> seq_addr (hd ns) = None \<and> mem_inv used w \<and> oob w = bad \<and>
     (if xs = [] then ns = [first_node] else map seq_buf ns = map item_buf xs) \<and>
     distinct (seq_blocks ns) \<and> base \<inter> set (seq_blocks ns) = {} \<and> live_blocks (trace w) = base \<union> set (seq_blocks ns))"

lemma seq_blocks_simps [simp]: "seq_blocks [] = []" "seq_blocks (xs @ ys) = seq_blocks xs @ seq_blocks ys"
  "seq_blocks (n # ns) = (case seq_addr n of None \<Rightarrow> [] | Some a \<Rightarrow> [a]) @ seq_blocks ns"
  by (simp_all add: seq_blocks_def)

lemma seq_cb_step:
  assumes ok: "mem_ok api used" and inv: "seq_inv used base bad xs (ns, w)"
  shows "case asn1_get_sequence_of_cb api (ns, w) (uint t8) q l of (r, c) \<Rightarrow>
    (r = 0 \<and> seq_inv used base bad (xs @ [(t8, q, l)]) c) \<or> (r = MBEDTLS_ERR_ASN1_ALLOC_FAILED \<and> seq_inv used base bad xs c)"
proof (cases xs rule: rev_cases)
  case Nil
  then show ?thesis using inv by (simp add: seq_inv_def asn1_get_sequence_of_cb_def Let_def)
next
  case (snoc ys y)
  then have b: "map seq_buf ns = map item_buf ys @ [item_buf y]" and ne: "ns \<noteq> []" and m: "mem_inv used w"
    using inv by (auto simp: seq_inv_def)
  then have l: "seq_buf (last ns) = item_buf y" proof -
    have "last (map seq_buf ns) = item_buf y" unfolding b by simp
    then show ?thesis using ne by (simp add: last_map)
  qed
  show ?thesis
  proof (rule calloc_cases [OF ok m, of 32], goal_cases)
    case (1 w')
    then show ?case using l inv by (auto simp: asn1_get_sequence_of_cb_def Let_def seq_inv_def)
  next
    case (2 a w')
    then show ?case using l inv snoc b by (auto simp: asn1_get_sequence_of_cb_def Let_def seq_inv_def)
  qed
qed

lemma seq_visit:
  assumes ok: "mem_ok api used"
  shows "seq_inv used base bad xs c \<Longrightarrow> case run_items (visit 0xFF t 0 0 (Some (asn1_get_sequence_of_cb api))) c ys of (r, c') \<Rightarrow>
    (r = 0 \<and> list_all (\<lambda>y. fst y = t) ys \<and> seq_inv used base bad (xs @ ys) c') \<or>
    (r \<noteq> 0 \<and> (r = MBEDTLS_ERR_ASN1_ALLOC_FAILED \<or> \<not> list_all (\<lambda>y. fst y = t) ys) \<and> (\<exists>zs. seq_inv used base bad zs c'))"
proof (induction ys arbitrary: xs c)
  case (Cons y ys)
  obtain t8 q l where y: "y = (t8, q, l)" by (cases y)
  have ff: "t8 AND 0xFF = t8" by (rule all_u8_check [where P = "\<lambda>t8. t8 AND 0xFF = t8"]) code_simp
  obtain ns w where c: "c = (ns, w)" by fastforce
  show ?case
  proof (cases "t8 = t")
    case False
    then show ?thesis using Cons.prems ff by (auto simp: y visit_def asn1_codes)
  next
    case True
    obtain r c1 where r: "asn1_get_sequence_of_cb api (ns, w) (uint t8) q l = (r, c1)"
      by (cases "asn1_get_sequence_of_cb api (ns, w) (uint t8) q l")
    have v: "visit 0xFF t 0 0 (Some (asn1_get_sequence_of_cb api)) c y = (r, c1)" using True ff r by (simp add: y c visit_def)
    from seq_cb_step [OF ok Cons.prems [unfolded c], of t8 q l, unfolded r]
    show ?thesis
    proof (cases "r = 0")
      case True
      with seq_cb_step [OF ok Cons.prems [unfolded c], of t8 q l, unfolded r]
      have i: "seq_inv used base bad (xs @ [y]) c1" by (auto simp: y asn1_codes)
      show ?thesis using Cons.IH [OF i] True v \<open>t8 = t\<close> by (auto simp: y split: prod.splits)
    next
      case False
      with seq_cb_step [OF ok Cons.prems [unfolded c], of t8 q l, unfolded r]
      show ?thesis using v by (auto simp: y)
    qed
  qed
qed auto

lemma seq_free_spec:
  assumes ok: "mem_ok api used"
  shows "mem_inv used w \<Longrightarrow> distinct (seq_blocks ns) \<Longrightarrow> set (seq_blocks ns) \<subseteq> live_blocks (trace w) \<Longrightarrow>
    live_blocks (trace (mbedtls_asn1_sequence_free api ns w)) = live_blocks (trace w) - set (seq_blocks ns) \<and>
    oob (mbedtls_asn1_sequence_free api ns w) = oob w"
proof (induction ns arbitrary: w)
  case (Cons n ns)
  have s: "set_option (seq_addr n) \<subseteq> live_blocks (trace w)" using Cons.prems(3) by (cases "seq_addr n") auto
  note F = free_spec [OF ok Cons.prems(1) s]
  have "set (seq_blocks ns) \<subseteq> live_blocks (trace (mbedtls_free api (seq_addr n) w))" unfolding F(1) using Cons.prems(2,3)
    by (cases "seq_addr n") auto
  from Cons.IH [OF F(2) _ this] show ?case using F(1,3) Cons.prems(2) by (cases "seq_addr n") auto
qed simp

lemma seq_inv_free:
  assumes "mem_ok api used" and "seq_inv used base bad xs (ns, w)"
  shows "live_blocks (trace (mbedtls_asn1_sequence_free api (tl ns) w)) = base" "oob (mbedtls_asn1_sequence_free api (tl ns) w) = bad"
proof -
  have b: "seq_blocks ns = seq_blocks (tl ns)" using assms(2) by (cases ns) (auto simp: seq_inv_def)
  have "live_blocks (trace (mbedtls_asn1_sequence_free api (tl ns) w)) = live_blocks (trace w) - set (seq_blocks (tl ns)) \<and>
      oob (mbedtls_asn1_sequence_free api (tl ns) w) = oob w"
    using assms b by (intro seq_free_spec) (auto simp: seq_inv_def)
  then show "live_blocks (trace (mbedtls_asn1_sequence_free api (tl ns) w)) = base" "oob (mbedtls_asn1_sequence_free api (tl ns) w) = bad"
    using assms(2) b by (auto simp: seq_inv_def)
qed

text \<open>The items of a sequence that ends at \<open>stop\<close>, all of them with the tag \<open>t\<close>.\<close>

definition der_seq :: "u8 \<Rightarrow> nat \<Rightarrow> bytes \<Rightarrow> (u8 \<times> nat \<times> nat) list option" where
  "der_seq t stop r = (case tlv r of
      Some (t8, body, []) \<Rightarrow> (case items (stop - length body) body of
        (xs, e) \<Rightarrow> if t8 = 0x30 \<and> e \<and> list_all (\<lambda>x. fst x = t) xs then Some xs else None)
    | _ \<Rightarrow> None)"

lemma get_sequence_of_spec:
  assumes "pos \<le> stop" and "stop \<le> length b" and ok: "mem_ok api used" and m: "mem_inv used w"
  shows "\<exists>ret pos' ns w' xs. mbedtls_asn1_get_sequence_of api b pos stop t w = Some (ret, pos', ns, w') \<and>
    pos \<le> pos' \<and> pos' \<le> stop \<and> seq_inv used (live_blocks (trace w)) (oob w) xs (ns, w') \<and>
    (if ret = 0 then pos' = stop \<and> der_seq t stop (win b pos stop) = Some xs
     else der_seq t stop (win b pos stop) = None \<or> ret = MBEDTLS_ERR_ASN1_ALLOC_FAILED)"
proof -
  have i0: "seq_inv used (live_blocks (trace w)) (oob w) [] ([first_node], w)" using m by (simp add: seq_inv_def)
  let ?parse = "der_seq t stop (win b pos stop)"
  let ?R = "mbedtls_asn1_get_sequence_of api b pos stop t w"
  show ?thesis
  proof (rule get_tag_cases [OF assms(1,2), of 48 0], goal_cases)
    case (2 e pos' l')
    have "?parse = None" using 2(5) by (auto simp: der_seq_def uint_u8_eq split: option.splits list.splits prod.splits)
    moreover have "?R = Some (e, pos', [first_node], w)" using 2(1,2)
      by (simp add: mbedtls_asn1_get_sequence_of_def mbedtls_asn1_traverse_sequence_of_def)
    ultimately show ?case using 2 i0 by auto
  next
    case (1 t8 body rest q)
    have t8: "t8 = 0x30" using 1(2) uint_u8_eq(4) by simp
    show ?case
    proof (cases "rest = []")
      case False
      have "?parse = None" using 1(1) False by (auto simp: der_seq_def split: list.splits)
      moreover have "?R = Some (MBEDTLS_ERR_ASN1_LENGTH_MISMATCH, q, [first_node], w)" using 1(4,6) False
        by (auto simp: mbedtls_asn1_get_sequence_of_def mbedtls_asn1_traverse_sequence_of_def)
      ultimately show ?thesis using 1(3,6) i0 by (auto simp: asn1_codes)
    next
      case True
      then have q: "q + length body = stop" "q \<le> stop" "win b q stop = body" using 1(5,6) by simp_all
      obtain xs e where xs: "items q body = (xs, e)" by fastforce
      have p: "?parse = (if e \<and> list_all (\<lambda>x. fst x = t) xs then Some xs else None)"
        using 1(1) True t8 xs q by (auto simp: der_seq_def)
      let ?V = "run_items (visit 0xFF t 0 0 (Some (asn1_get_sequence_of_cb api))) ([first_node], w) xs"
      have R: "?R = traverse_loop b q stop 0xFF t 0 0 (Some (asn1_get_sequence_of_cb api)) ([first_node], w)"
        using 1(4) q by (simp add: mbedtls_asn1_get_sequence_of_def mbedtls_asn1_traverse_sequence_of_def)
      from traverse_loop_spec [OF q(2) assms(2), of 255 t 0 0 "Some (asn1_get_sequence_of_cb api)" "([first_node], w)"]
      obtain ret pos' c where L: "?R = Some (ret, pos', c)" "q \<le> pos'" "pos' \<le> stop"
          "case ?V of (r, c') \<Rightarrow> c = c' \<and> (if r \<noteq> 0 then ret = r else if e then ret = 0 \<and> pos' = stop else ret < 0)"
        unfolding R q(3) xs by auto
      obtain ns w' where c: "c = (ns, w')" by fastforce
      from seq_visit [OF ok i0, of t xs] L(4) obtain zs where
        "seq_inv used (live_blocks (trace w)) (oob w) zs (ns, w')"
        "if ret = 0 then pos' = stop \<and> ?parse = Some zs else ?parse = None \<or> ret = MBEDTLS_ERR_ASN1_ALLOC_FAILED"
        unfolding c p
        by (cases "fst ?V = 0"; cases e; cases "list_all (\<lambda>x. fst x = t) xs") (auto split: prod.splits)
      then show ?thesis using L(1-3) 1(3) c by (intro exI [of _ ret] exI [of _ pos'] exI [of _ ns] exI [of _ w'] exI [of _ zs]) auto
    qed
  qed
qed

section \<open>Claims\<close>

text \<open>An allocator for the witnesses: the blocks in use, and the next address above them.\<close>

definition demo_mem :: "nat list mem_api" where
  "demo_mem = \<lparr>calloc = \<lambda>n e. let a = Suc (fold max e 0) in (Some a, a # e), free = \<lambda>a e. removeAll a e\<rparr>"

lemma fold_max: "x \<in> set e \<Longrightarrow> x \<le> fold max e (m :: nat)" and fold_max_ge: "m \<le> fold max e m"
proof (induction e arbitrary: m)
  case (Cons y e)
  have "max y m \<le> fold max e (max y m)" by (rule Cons.IH(2))
  { case 1 then show ?case using Cons.IH(1) \<open>max y m \<le> fold max e (max y m)\<close> by auto }
  { case 2 then show ?case using \<open>max y m \<le> fold max e (max y m)\<close> by simp }
qed auto

lemma demo_mem_ok: "mem_ok demo_mem set"
proof -
  have "Suc (fold max e 0) \<notin> set e" for e using fold_max [of "Suc (fold max e 0)" e 0] by auto
  then show ?thesis by (simp add: mem_ok_def demo_mem_def Let_def)
qed

definition demo_heap :: "nat list mem" where
  "demo_heap = \<lparr>env = [], trace = [], oob = False\<rparr>"

lemma demo_heap_inv: "mem_inv set demo_heap" "\<not> oob demo_heap" "live_blocks (trace demo_heap) = {}"
  by (simp_all add: mem_inv_def demo_heap_def)

text \<open>C32. Storing named data refines the update of a map: after any sequence of stores into an empty list,
  looking up an identifier returns the last value whose store succeeded, and a store that fails for
  lack of memory leaves every entry as it was. A store of a null value of some length keeps a value of that
  length and otherwise leaves zeros.\<close>

theorem named_data_refines:
  assumes "mem_ok api used" and "mem_inv used w" and "\<not> oob w"
  shows "case run_updates (store_named api) kvs ([], w) of (ds, ns, w') \<Rightarrow>
    length ds = length kvs \<and>
    (\<lambda>oid. map_option nd_val (mbedtls_asn1_find_named_data ns oid)) =
      foldl (\<lambda>m (d, k, x). if d then m(k \<mapsto> named_val (m k) x) else m) Map.empty (zip ds kvs)"
proof -
  have "named_inv api used (live_blocks (trace w)) ([], w)" using assms by (simp add: named_inv_def nd_inv_def)
  note R = named.run_refines [OF this, of kvs]
  have e: "entries [] = Map.empty" by (rule ext) (simp add: entries_def)
  have "entries ns = (\<lambda>oid. map_option nd_val (mbedtls_asn1_find_named_data ns oid))" for ns by (rule ext) (simp add: entries_def)
  with R e show ?thesis by (cases "run_updates (store_named api) kvs ([], w)") simp
qed

theorem named_data_refines_witness:
  "case run_updates (store_named demo_mem) [([85], Inl [1, 2]), ([86], Inr 3), ([85], Inr 2)] ([], demo_heap) of (ds, ns, w') \<Rightarrow>
    length ds = 3 \<and> (\<lambda>oid. map_option nd_val (mbedtls_asn1_find_named_data ns oid)) =
      foldl (\<lambda>m (d, k, x). if d then m(k \<mapsto> named_val (m k) x) else m) Map.empty (zip ds [([85], Inl [1, 2]), ([86], Inr 3), ([85], Inr 2)])"
proof -
  have l: "length [([85], Inl [1, 2]), ([86], Inr 3), ([85], Inr 2 :: bytes + nat)] = 3" by simp
  show ?thesis using named_data_refines [OF demo_mem_ok demo_heap_inv(1,2), of "[([85], Inl [1, 2]), ([86], Inr 3), ([85], Inr 2)]"]
    unfolding l .
qed

text \<open>C33. No block is leaked and none is given back twice: after any sequence of stores, failed ones included,
  freeing the list gives back exactly the blocks the stores obtained.\<close>

theorem named_data_balanced:
  assumes "mem_ok api used" and "mem_inv used w" and "\<not> oob w"
  shows "case run_updates (store_named api) kvs ([], w) of (ds, ns, w') \<Rightarrow>
    let w'' = mbedtls_asn1_free_named_data_list api ns w' in \<not> oob w'' \<and> live_blocks (trace w'') = live_blocks (trace w)"
proof -
  have "named_inv api used (live_blocks (trace w)) ([], w)" using assms by (simp add: named_inv_def nd_inv_def)
  note R = named.run_refines [OF this, of kvs]
  obtain ds ns w' where r: "run_updates (store_named api) kvs ([], w) = (ds, ns, w')" by (rule prod_cases3)
  have i: "named_inv api used (live_blocks (trace w)) (ns, w')" using R unfolding r by simp
  from i free_list_spec [OF assms(1), of ns w'] show ?thesis unfolding r by (simp add: named_inv_def Let_def)
qed

theorem named_data_balanced_witness:
  "case run_updates (store_named demo_mem) [([85], Inl [1, 2]), ([85], Inr 4)] ([], demo_heap) of (ds, ns, w') \<Rightarrow>
    let w'' = mbedtls_asn1_free_named_data_list demo_mem ns w' in \<not> oob w'' \<and> live_blocks (trace w'') = {}"
  using named_data_balanced [OF demo_mem_ok demo_heap_inv(1,2), of "[([85], Inl [1, 2]), ([85], Inr 4)]"] unfolding demo_heap_inv(3) .

text \<open>C31. Splitting a \<open>SEQUENCE OF\<close>: the reader never leaves its input; it succeeds only on a sequence that
  fills the input and whose items all have the wanted tag, and then the list holds exactly those
  items in order; on such input it fails only for lack of memory. Freeing the nodes behind the first,
  as the callers do, gives back every block, whatever the result.\<close>

theorem asn1_get_sequence_of_correct:
  assumes "pos \<le> stop" and "stop \<le> length b" and "mem_ok api used" and "mem_inv used w"
  shows "\<exists>ret pos' ns w'. mbedtls_asn1_get_sequence_of api b pos stop t w = Some (ret, pos', ns, w') \<and> pos \<le> pos' \<and> pos' \<le> stop \<and>
    (if ret = 0 then pos' = stop \<and> (\<exists>xs. der_seq t stop (win b pos stop) = Some xs \<and>
         map seq_buf ns = (if xs = [] then [zero_buf] else map item_buf xs))
     else der_seq t stop (win b pos stop) = None \<or> ret = MBEDTLS_ERR_ASN1_ALLOC_FAILED) \<and>
    live_blocks (trace (mbedtls_asn1_sequence_free api (tl ns) w')) = live_blocks (trace w) \<and>
    oob (mbedtls_asn1_sequence_free api (tl ns) w') = oob w"
proof -
  from get_sequence_of_spec [OF assms, of t] obtain ret pos' ns w' xs where
    r: "mbedtls_asn1_get_sequence_of api b pos stop t w = Some (ret, pos', ns, w')" "pos \<le> pos'" "pos' \<le> stop"
      "seq_inv used (live_blocks (trace w)) (oob w) xs (ns, w')"
      "if ret = 0 then pos' = stop \<and> der_seq t stop (win b pos stop) = Some xs
       else der_seq t stop (win b pos stop) = None \<or> ret = MBEDTLS_ERR_ASN1_ALLOC_FAILED" by blast
  have "map seq_buf ns = (if xs = [] then [zero_buf] else map item_buf xs)" using r(4) by (auto simp: seq_inv_def)
  with r seq_inv_free [OF assms(3) r(4)] show ?thesis by auto
qed

theorem asn1_get_sequence_of_correct_witness:
  "\<exists>ret pos' ns w'. mbedtls_asn1_get_sequence_of demo_mem [0x30, 5, 2, 1, 7, 2, 0] 0 7 2 demo_heap = Some (ret, pos', ns, w') \<and> pos' \<le> 7 \<and>
    (if ret = 0 then pos' = 7 \<and> map seq_buf ns =
       [\<lparr>asn1_tag = 2, asn1_len = 1, asn1_p = Some 4\<rparr>, \<lparr>asn1_tag = 2, asn1_len = 0, asn1_p = Some 7\<rparr>]
     else ret = MBEDTLS_ERR_ASN1_ALLOC_FAILED) \<and> live_blocks (trace (mbedtls_asn1_sequence_free demo_mem (tl ns) w')) = {}"
proof -
  have d: "der_seq 2 7 (win [0x30, 5, 2, 1, 7, 2, 0] 0 7) = Some [(2, 4, 1), (2, 7, 0)]" by code_simp
  have l: "7 \<le> length [0x30, 5, 2, 1, 7, 2, 0 :: u8]" by simp
  from asn1_get_sequence_of_correct [OF _ l demo_mem_ok demo_heap_inv(1), of 0 2, unfolded d demo_heap_inv(3)]
  obtain ret pos' ns w' where
    r: "mbedtls_asn1_get_sequence_of demo_mem [0x30, 5, 2, 1, 7, 2, 0] 0 7 2 demo_heap = Some (ret, pos', ns, w')" "pos' \<le> 7"
      "if ret = 0 then pos' = 7 \<and> map seq_buf ns = map item_buf [(2, 4, 1), (2, 7, 0)] else ret = MBEDTLS_ERR_ASN1_ALLOC_FAILED"
      "live_blocks (trace (mbedtls_asn1_sequence_free demo_mem (tl ns) w')) = {}" by (auto split: if_splits)
  have "map item_buf [(2, 4, 1), (2, 7, 0)] =
      [\<lparr>asn1_tag = 2, asn1_len = 1, asn1_p = Some 4\<rparr>, \<lparr>asn1_tag = 2, asn1_len = 0, asn1_p = Some 7\<rparr>]" by simp
  with r show ?thesis by (intro exI [of _ ret] exI [of _ pos'] exI [of _ ns] exI [of _ w']) simp
qed

end
