(* ===== verification/Asn1Write.thy ===== *)
theory Asn1Write
  imports Asn1
begin

text \<open>
  \<open>internal/mbedtls/asn1write.c\<close>: the DER writer. It fills its buffer from the end: the cursor \<open>*p\<close> moves
  towards \<open>start\<close>, so contents are written first, then the length, then the tag.

  A function takes the buffer, the cursor and the start as indices and returns
  \<open>Some (ret, *p, buffer)\<close>; \<open>None\<close> is an access outside the buffer. \<open>ret\<close> is the number of bytes
  written or a negative error. A source pointer with its length is the list of the bytes it points to.
\<close>

section \<open>Bytes, lengths and tags\<close>

text \<open>\<open>*--(*p) = c\<close>, and the conversion of a \<open>size_t\<close> to \<open>int\<close>.\<close>

definition push :: "bytes \<Rightarrow> nat \<Rightarrow> u8 \<Rightarrow> (nat \<times> bytes) option" where
  "push b pos c = (if pos = 0 then None else do { b \<leftarrow> wr b (pos - 1) [c]; Some (pos - 1, b) })"

definition to_int :: "nat \<Rightarrow> int" where
  "to_int n = signed_take_bit 31 (int n)"

function len_digits :: "nat \<Rightarrow> nat" where
  "len_digits l = (if l = 0 then 0 else Suc (len_digits (drop_bit 8 l)))"
  by pat_completeness auto
termination
  by (relation "measure id") (auto simp: drop_bit_eq_div)

function put_len_digits :: "bytes \<Rightarrow> nat \<Rightarrow> nat \<Rightarrow> (nat \<times> bytes) option" where
  "put_len_digits b pos l = (case push b pos (of_nat (l AND 0xff)) of
     None \<Rightarrow> None
   | Some (pos, b) \<Rightarrow> if drop_bit 8 l \<noteq> 0 then put_len_digits b pos (drop_bit 8 l) else Some (pos, b))"
  by pat_completeness auto
termination
  by (relation "measure (\<lambda>(b, pos, l). l)") (auto simp: drop_bit_eq_div)

declare len_digits.simps [simp del] put_len_digits.simps [simp del]

definition mbedtls_asn1_write_len :: "bytes \<Rightarrow> nat \<Rightarrow> nat \<Rightarrow> nat \<Rightarrow> (int \<times> nat \<times> bytes) option" where
  "mbedtls_asn1_write_len b pos start l =
    (if l > 0xFFFFFFFF then Some (MBEDTLS_ERR_ASN1_INVALID_LENGTH, pos, b)
     else
       let required = 1 + (if l \<ge> 0x80 then len_digits l else 0)
       in if int required > int pos - int start then Some (MBEDTLS_ERR_ASN1_BUF_TOO_SMALL, pos, b)
          else do {
            (pos, b) \<leftarrow> put_len_digits b pos l;
            (pos, b) \<leftarrow> (if required > 1 then push b pos (of_nat (0x80 + required - 1)) else Some (pos, b));
            Some (int required, pos, b)
          })"

definition mbedtls_asn1_write_tag :: "bytes \<Rightarrow> nat \<Rightarrow> nat \<Rightarrow> u8 \<Rightarrow> (int \<times> nat \<times> bytes) option" where
  "mbedtls_asn1_write_tag b pos start t =
    (if int pos - int start < 1 then Some (MBEDTLS_ERR_ASN1_BUF_TOO_SMALL, pos, b)
     else do {
       (pos, b) \<leftarrow> push b pos t;
       Some (1, pos, b)
     })"

definition mbedtls_asn1_write_len_and_tag :: "bytes \<Rightarrow> nat \<Rightarrow> nat \<Rightarrow> nat \<Rightarrow> u8 \<Rightarrow> (int \<times> nat \<times> bytes) option" where
  "mbedtls_asn1_write_len_and_tag b pos start l t = do {
     (ret, pos, b) \<leftarrow> mbedtls_asn1_write_len b pos start l;
     if ret < 0 then Some (ret, pos, b)
     else do {
       let l = l + nat ret;
       (ret, pos, b) \<leftarrow> mbedtls_asn1_write_tag b pos start t;
       if ret < 0 then Some (ret, pos, b)
       else
         let l = l + nat ret
         in Some (to_int l, pos, b)
     }
   }"

definition mbedtls_asn1_write_raw_buffer :: "bytes \<Rightarrow> nat \<Rightarrow> nat \<Rightarrow> bytes \<Rightarrow> (int \<times> nat \<times> bytes) option" where
  "mbedtls_asn1_write_raw_buffer b pos start buf =
    (if pos < start \<or> pos - start < length buf then Some (MBEDTLS_ERR_ASN1_BUF_TOO_SMALL, pos, b)
     else do {
       let l = length buf;
       let pos = pos - l;
       b \<leftarrow> (if l \<noteq> 0 then wr b pos buf else Some b);
       Some (to_int l, pos, b)
     })"

section \<open>Null, identifiers and booleans\<close>

definition mbedtls_asn1_write_null :: "bytes \<Rightarrow> nat \<Rightarrow> nat \<Rightarrow> (int \<times> nat \<times> bytes) option" where
  "mbedtls_asn1_write_null b pos start = mbedtls_asn1_write_len_and_tag b pos start 0 5"

definition mbedtls_asn1_write_oid :: "bytes \<Rightarrow> nat \<Rightarrow> nat \<Rightarrow> bytes \<Rightarrow> (int \<times> nat \<times> bytes) option" where
  "mbedtls_asn1_write_oid b pos start oid = do {
     (ret, pos, b) \<leftarrow> mbedtls_asn1_write_raw_buffer b pos start oid;
     if ret < 0 then Some (ret, pos, b)
     else mbedtls_asn1_write_len_and_tag b pos start (nat ret) 6
   }"

definition mbedtls_asn1_write_algorithm_identifier_ext ::
  "bytes \<Rightarrow> nat \<Rightarrow> nat \<Rightarrow> bytes \<Rightarrow> nat \<Rightarrow> bool \<Rightarrow> (int \<times> nat \<times> bytes) option" where
  "mbedtls_asn1_write_algorithm_identifier_ext b pos start oid par_len has_par = do {
     (ret, pos, b) \<leftarrow> (if has_par \<and> par_len = 0 then mbedtls_asn1_write_null b pos start else Some (0, pos, b));
     if ret < 0 then Some (ret, pos, b)
     else do {
       let l = nat ret + (if has_par \<and> par_len \<noteq> 0 then par_len else 0);
       (ret, pos, b) \<leftarrow> mbedtls_asn1_write_oid b pos start oid;
       if ret < 0 then Some (ret, pos, b)
       else mbedtls_asn1_write_len_and_tag b pos start ((l + nat ret) mod size_mod) 0x30
     }
   }"

definition mbedtls_asn1_write_algorithm_identifier ::
  "bytes \<Rightarrow> nat \<Rightarrow> nat \<Rightarrow> bytes \<Rightarrow> nat \<Rightarrow> (int \<times> nat \<times> bytes) option" where
  "mbedtls_asn1_write_algorithm_identifier b pos start oid par_len =
    mbedtls_asn1_write_algorithm_identifier_ext b pos start oid par_len True"

definition mbedtls_asn1_write_bool :: "bytes \<Rightarrow> nat \<Rightarrow> nat \<Rightarrow> bool \<Rightarrow> (int \<times> nat \<times> bytes) option" where
  "mbedtls_asn1_write_bool b pos start boolean =
    (if int pos - int start < 1 then Some (MBEDTLS_ERR_ASN1_BUF_TOO_SMALL, pos, b)
     else do {
       (pos, b) \<leftarrow> push b pos (if boolean then 255 else 0);
       mbedtls_asn1_write_len_and_tag b pos start 1 1
     })"

section \<open>Integers\<close>

text \<open>The loop over the digits; the result says whether there was room for all of them. The shift of a
  negative \<open>int\<close> is arithmetic.\<close>

function put_int_digits :: "bytes \<Rightarrow> nat \<Rightarrow> nat \<Rightarrow> int \<Rightarrow> nat \<Rightarrow> (bool \<times> nat \<times> bytes \<times> nat) option" where
  "put_int_digits b pos start val l =
    (if int pos - int start < 1 then Some (False, pos, b, l)
     else case push b pos (of_int (val AND 0xff)) of
            None \<Rightarrow> None
          | Some (pos, b) \<Rightarrow>
              if drop_bit 8 val > 0 then put_int_digits b pos start (drop_bit 8 val) (l + 1) else Some (True, pos, b, l + 1))"
  by pat_completeness auto
termination
  by (relation "measure (\<lambda>(b, pos, start, val, l). nat val)") (auto simp: drop_bit_eq_div)

declare put_int_digits.simps [simp del]

definition asn1_write_tagged_int :: "bytes \<Rightarrow> nat \<Rightarrow> nat \<Rightarrow> int \<Rightarrow> u8 \<Rightarrow> (int \<times> nat \<times> bytes) option" where
  "asn1_write_tagged_int b pos start val t = do {
     (room, pos, b, l) \<leftarrow> put_int_digits b pos start val 0;
     if \<not> room then Some (MBEDTLS_ERR_ASN1_BUF_TOO_SMALL, pos, b)
     else do {
       c \<leftarrow> rd1 b pos;
       if c AND 0x80 \<noteq> 0 then
         if int pos - int start < 1 then Some (MBEDTLS_ERR_ASN1_BUF_TOO_SMALL, pos, b)
         else do {
           (pos, b) \<leftarrow> push b pos 0;
           mbedtls_asn1_write_len_and_tag b pos start (l + 1) t
         }
       else mbedtls_asn1_write_len_and_tag b pos start l t
     }
   }"

definition mbedtls_asn1_write_int :: "bytes \<Rightarrow> nat \<Rightarrow> nat \<Rightarrow> int \<Rightarrow> (int \<times> nat \<times> bytes) option" where
  "mbedtls_asn1_write_int b pos start val = asn1_write_tagged_int b pos start val 2"

definition mbedtls_asn1_write_enum :: "bytes \<Rightarrow> nat \<Rightarrow> nat \<Rightarrow> int \<Rightarrow> (int \<times> nat \<times> bytes) option" where
  "mbedtls_asn1_write_enum b pos start val = asn1_write_tagged_int b pos start val 0x0A"

section \<open>Strings\<close>

definition mbedtls_asn1_write_tagged_string :: "bytes \<Rightarrow> nat \<Rightarrow> nat \<Rightarrow> u8 \<Rightarrow> bytes \<Rightarrow> (int \<times> nat \<times> bytes) option" where
  "mbedtls_asn1_write_tagged_string b pos start t text = do {
     (ret, pos, b) \<leftarrow> mbedtls_asn1_write_raw_buffer b pos start text;
     if ret < 0 then Some (ret, pos, b)
     else mbedtls_asn1_write_len_and_tag b pos start (nat ret) t
   }"

definition mbedtls_asn1_write_utf8_string :: "bytes \<Rightarrow> nat \<Rightarrow> nat \<Rightarrow> bytes \<Rightarrow> (int \<times> nat \<times> bytes) option" where
  "mbedtls_asn1_write_utf8_string b pos start text = mbedtls_asn1_write_tagged_string b pos start 0x0C text"

definition mbedtls_asn1_write_printable_string :: "bytes \<Rightarrow> nat \<Rightarrow> nat \<Rightarrow> bytes \<Rightarrow> (int \<times> nat \<times> bytes) option" where
  "mbedtls_asn1_write_printable_string b pos start text = mbedtls_asn1_write_tagged_string b pos start 0x13 text"

definition mbedtls_asn1_write_ia5_string :: "bytes \<Rightarrow> nat \<Rightarrow> nat \<Rightarrow> bytes \<Rightarrow> (int \<times> nat \<times> bytes) option" where
  "mbedtls_asn1_write_ia5_string b pos start text = mbedtls_asn1_write_tagged_string b pos start 0x16 text"

definition mbedtls_asn1_write_octet_string :: "bytes \<Rightarrow> nat \<Rightarrow> nat \<Rightarrow> bytes \<Rightarrow> (int \<times> nat \<times> bytes) option" where
  "mbedtls_asn1_write_octet_string b pos start buf = do {
     (ret, pos, b) \<leftarrow> mbedtls_asn1_write_raw_buffer b pos start buf;
     if ret < 0 then Some (ret, pos, b)
     else mbedtls_asn1_write_len_and_tag b pos start (nat ret) 4
   }"

section \<open>Bit strings\<close>

definition mbedtls_asn1_write_bitstring :: "bytes \<Rightarrow> nat \<Rightarrow> nat \<Rightarrow> bytes \<Rightarrow> nat \<Rightarrow> (int \<times> nat \<times> bytes) option" where
  "mbedtls_asn1_write_bitstring b pos start buf bits =
    (let byte_len = (bits + 7) div 8;
         unused = byte_len * 8 - bits
     in if pos < start \<or> pos - start < byte_len + 1 then Some (MBEDTLS_ERR_ASN1_BUF_TOO_SMALL, pos, b)
        else do {
          let l = byte_len + 1;
          (pos, b) \<leftarrow> (if byte_len > 0 then do {
              c \<leftarrow> rd1 buf (byte_len - 1);
              (pos, b) \<leftarrow> push b pos (c AND NOT (push_bit unused 1 - 1));
              v \<leftarrow> rd buf 0 (byte_len - 1);
              b \<leftarrow> wr b (pos - (byte_len - 1)) v;
              Some (pos - (byte_len - 1), b)
            } else Some (pos, b));
          (pos, b) \<leftarrow> push b pos (of_nat unused);
          mbedtls_asn1_write_len_and_tag b pos start l 3
        })"

text \<open>The scan for the last bit that is set; the cursor \<open>cur\<close> is an index, \<open>c\<close> the shifted byte.\<close>

fun drop_zero_bits :: "bytes \<Rightarrow> nat \<Rightarrow> u8 \<Rightarrow> nat \<Rightarrow> nat option" where
  "drop_zero_bits buf cur c 0 = Some 0"
| "drop_zero_bits buf cur c (Suc bits) =
    (if c AND 1 \<noteq> 0 then Some (Suc bits)
     else if bits = 0 then Some 0
     else if bits mod 8 = 0 then
       if cur = 0 then None else do {
         c \<leftarrow> rd1 buf (cur - 1);
         drop_zero_bits buf (cur - 1) c bits
       }
     else drop_zero_bits buf cur (drop_bit 1 c) bits)"

definition mbedtls_asn1_write_named_bitstring :: "bytes \<Rightarrow> nat \<Rightarrow> nat \<Rightarrow> bytes \<Rightarrow> nat \<Rightarrow> (int \<times> nat \<times> bytes) option" where
  "mbedtls_asn1_write_named_bitstring b pos start buf bits = do {
     let byte_len = (bits + 7) div 8;
     let unused = byte_len * 8 - bits;
     bits \<leftarrow> (if bits \<noteq> 0 then do {
         c \<leftarrow> rd1 buf (byte_len - 1);
         drop_zero_bits buf (byte_len - 1) (drop_bit unused c) bits
       } else Some bits);
     mbedtls_asn1_write_bitstring b pos start buf bits
   }"

end
