(* ===== verification/Asn1Write_Correct.thy ===== *)
theory Asn1Write_Correct
  imports Asn1Write Asn1_Correct
begin

text \<open>
  The DER writer against the reference encoding \<open>der\<close>. \<open>writes f enc\<close> is the contract all functions of
  the file share: with enough room \<open>f\<close> puts exactly \<open>enc\<close> before the cursor and returns its length;
  without, it returns an error and nothing behind the cursor or before \<open>start\<close> has changed.
  Reading what was written gives the value back.
\<close>

section \<open>Reference encoding\<close>

function be_digits :: "nat \<Rightarrow> bytes" where
  "be_digits n = (if n = 0 then [] else be_digits (n div 256) @ [of_nat n])"
  by pat_completeness auto
termination
  by (relation "measure id") auto

declare be_digits.simps [simp del]

definition der_len :: "nat \<Rightarrow> bytes" where
  "der_len n = (if n < 128 then [of_nat n] else of_nat (128 + length (be_digits n)) # be_digits n)"

definition der :: "u8 \<Rightarrow> bytes \<Rightarrow> bytes" where
  "der t cs = t # der_len (length cs) @ cs"

lemma be_val_digits [simp]: "be_val (be_digits n) = n"
proof (induction n rule: be_digits.induct)
  case (1 n)
  show ?case
  proof (cases "n = 0")
    case False
    have "unat (of_nat n :: u8) = n mod 256" by (simp add: unat_of_nat)
    then show ?thesis using 1 [OF False] by (simp add: be_digits.simps [of n] be_val_simps)
  qed (simp add: be_digits.simps be_val_simps)
qed

lemma length_be_digits: "length (be_digits n) \<le> k \<longleftrightarrow> n < 256 ^ k"
proof (induction k arbitrary: n)
  case 0
  show ?case by (simp add: be_digits.simps [of n])
next
  case (Suc k)
  show ?case
  proof (cases "n = 0")
    case True
    then show ?thesis by (simp add: be_digits.simps)
  next
    case False
    have "length (be_digits n) \<le> Suc k \<longleftrightarrow> length (be_digits (n div 256)) \<le> k" using False by (simp add: be_digits.simps [of n])
    then show ?thesis using Suc [of "n div 256"] by (simp add: div_less_iff_less_mult mult.commute)
  qed
qed

lemma len_digits_eq: "len_digits n = length (be_digits n)"
proof (induction n rule: len_digits.induct)
  case (1 n)
  then show ?case by (simp add: len_digits.simps [of n] be_digits.simps [of n] drop_bit_eq_div)
qed

section \<open>The contract\<close>

definition fails :: "bytes \<Rightarrow> bytes \<Rightarrow> nat \<Rightarrow> (int \<times> nat \<times> bytes) option \<Rightarrow> bool" where
  "fails a z start r \<longleftrightarrow> (\<exists>e a1 a2. e < 0 \<and> r = Some (e, length a1, a1 @ a2 @ z) \<and>
     length a1 + length a2 = length a \<and> start \<le> length a1 \<and> take start a1 = take start a)"

definition writes :: "(bytes \<Rightarrow> nat \<Rightarrow> nat \<Rightarrow> (int \<times> nat \<times> bytes) option) \<Rightarrow> bytes \<Rightarrow> bool" where
  "writes f enc \<longleftrightarrow> (\<forall>a z start. start \<le> length a \<longrightarrow>
     (if start + length enc \<le> length a
      then f (a @ z) (length a) start = Some (int (length enc), length a - length enc, take (length a - length enc) a @ enc @ z)
      else fails a z start (f (a @ z) (length a) start)))"

lemma writesD:
  assumes "writes f enc" and "start \<le> length a"
  shows "start + length enc \<le> length a \<Longrightarrow>
      f (a @ z) (length a) start = Some (int (length enc), length a - length enc, take (length a - length enc) a @ enc @ z)"
    and "length a < start + length enc \<Longrightarrow> fails a z start (f (a @ z) (length a) start)"
  using assms unfolding writes_def by (metis not_less)+

lemma failsI: "e < 0 \<Longrightarrow> start \<le> length a \<Longrightarrow> fails a z start (Some (e, length a, a @ z))"
  unfolding fails_def by (rule exI [of _ e], rule exI [of _ a], rule exI [of _ "[]"]) simp

text \<open>A failure further down, after \<open>cs\<close> has been written.\<close>

lemma fails_below:
  assumes "fails (take n a) (cs @ z) start r" and "n + length cs = length a" and "start \<le> n"
  shows "fails a z start r"
proof -
  from assms(1) obtain e a1 a2 where r: "e < 0" "r = Some (e, length a1, a1 @ a2 @ cs @ z)"
      "length a1 + length a2 = length (take n a)" "start \<le> length a1" "take start a1 = take start (take n a)" unfolding fails_def by blast
  then show ?thesis unfolding fails_def using assms(2,3)
    by - (rule exI [of _ e], rule exI [of _ a1], rule exI [of _ "a2 @ cs"], auto simp: min_def split: if_splits)
qed

lemma fails_bind:
  "fails a z start r \<Longrightarrow> do { (ret, pos, b) \<leftarrow> r; if ret < 0 then Some (ret, pos, b) else k ret pos b } = r"
  by (auto simp: fails_def)

text \<open>First \<open>g\<close>, then, unless it failed, \<open>h\<close> before it.\<close>

lemma writes_then:
  assumes g: "writes g cs" and h: "writes h ds"
    and f: "\<And>b pos start. f b pos start = do { (ret, pos, b) \<leftarrow> g b pos start; if ret < 0 then Some (ret, pos, b) else k ret b pos start }"
    and k: "\<And>b pos start. k (int (length cs)) b pos start = do { (ret', pos, b) \<leftarrow> h b pos start;
        if ret' < 0 then Some (ret', pos, b) else Some (int (length cs) + ret', pos, b) }"
  shows "writes f (ds @ cs)"
  unfolding writes_def
proof (intro allI impI)
  fix a z :: bytes and start assume s: "start \<le> length a"
  let ?F = "f (a @ z) (length a) start"
  show "if start + length (ds @ cs) \<le> length a
      then ?F = Some (int (length (ds @ cs)), length a - length (ds @ cs), take (length a - length (ds @ cs)) a @ (ds @ cs) @ z)
      else fails a z start ?F"
  proof (cases "start + length cs \<le> length a")
    case False
    from writesD(2) [OF g s, of z] False have "fails a z start (g (a @ z) (length a) start)" by simp
    then show ?thesis using False unfolding f fails_bind [OF \<open>fails a z start (g (a @ z) (length a) start)\<close>] by simp
  next
    case True
    let ?a = "take (length a - length cs) a"
    have la: "length ?a = length a - length cs" by simp
    have sa: "start \<le> length ?a" using True by simp
    have F: "?F = do { (ret', pos, b) \<leftarrow> h (?a @ cs @ z) (length ?a) start; if ret' < 0 then Some (ret', pos, b) else Some (int (length cs) + ret', pos, b) }"
      unfolding f writesD(1) [OF g s True] by (simp add: k)
    show ?thesis
    proof (cases "start + length ds \<le> length ?a")
      case fit: True
      have "take (length ?a - length ds) ?a = take (length a - length (ds @ cs)) a"
        unfolding la by (simp add: add.commute)
      moreover have "length ?a - length ds = length a - length (ds @ cs)" by simp
      ultimately have "?F = Some (int (length (ds @ cs)), length a - length (ds @ cs), take (length a - length (ds @ cs)) a @ (ds @ cs) @ z)"
        unfolding F writesD(1) [OF h sa fit] by simp
      moreover have "start + length (ds @ cs) \<le> length a" using fit True unfolding la by simp
      ultimately show ?thesis by simp
    next
      case False
      then have x: "fails ?a (cs @ z) start (h (?a @ cs @ z) (length ?a) start)" using writesD(2) [OF h sa] by simp
      then have "fails ?a (cs @ z) start ?F" unfolding F fails_bind [OF x] .
      from fails_below [OF this _ sa [unfolded la]] have "fails a z start ?F" using True by simp
      moreover have "\<not> start + length (ds @ cs) \<le> length a" using False True unfolding la by simp
      ultimately show ?thesis by simp
    qed
  qed
qed

section \<open>Bytes, lengths and tags\<close>

lemma push_last: "a \<noteq> [] \<Longrightarrow> push (a @ z) (length a) c = Some (length a - 1, take (length a - 1) a @ c # z)"
  by (cases a rule: rev_cases) (auto simp: push_def wr_def)

lemma put_len_digits_spec:
  "l \<noteq> 0 \<or> a \<noteq> [] \<Longrightarrow> length (be_digits l) \<le> length a \<Longrightarrow>
    put_len_digits (a @ z) (length a) l = (let ds = (if l = 0 then [0] else be_digits l)
      in Some (length a - length ds, take (length a - length ds) a @ ds @ z))"
proof (induction l arbitrary: a z rule: less_induct)
  case (less l)
  have byte: "(of_nat (l AND 0xff) :: u8) = of_nat l"
  proof -
    have "l AND 0xff = take_bit 8 l" by (simp add: take_bit_eq_mask mask_eq_exp_minus_1)
    then show ?thesis by (simp add: word_of_nat_eq_iff)
  qed
  have ne: "a \<noteq> []"
  proof (cases "l = 0")
    case False
    then show ?thesis using less.prems(2) be_digits.simps [of l] by auto
  qed (use less.prems in auto)
  show ?case
  proof (cases "l div 256 = 0")
    case True
    then have "(if l = 0 then [0] else be_digits l) = [of_nat l]" by (auto simp: be_digits.simps [of l] be_digits.simps [of 0])
    then show ?thesis using True push_last [OF ne, of z "of_nat l"]
      by (simp add: put_len_digits.simps [of _ _ l] byte drop_bit_eq_div)
  next
    case False
    then have l0: "l \<noteq> 0" "l div 256 < l" by (cases "l = 0"; simp)+
    have d: "be_digits l = be_digits (l div 256) @ [of_nat l]" using l0 by (simp add: be_digits.simps [of l])
    let ?a = "take (length a - 1) a"
    have la: "length ?a = length a - 1" by simp
    have "put_len_digits (a @ z) (length a) l = put_len_digits (?a @ of_nat l # z) (length ?a) (l div 256)"
      using False push_last [OF ne, of z "of_nat l"] by (subst put_len_digits.simps) (simp add: byte drop_bit_eq_div)
    also have "\<dots> = Some (length ?a - length (be_digits (l div 256)),
        take (length ?a - length (be_digits (l div 256))) ?a @ be_digits (l div 256) @ of_nat l # z)"
      using less.IH [OF l0(2), of ?a "of_nat l # z"] False less.prems(2) d by (simp add: Let_def)
    finally show ?thesis using l0 less.prems(2) d by (simp add: min_def diff_diff_left)
  qed
qed

lemma to_int_eq: "n < 2 ^ 31 \<Longrightarrow> to_int n = int n"
  unfolding to_int_def by (rule signed_take_bit_int_eq_self) auto

lemma be_digits_one: "l < 256 \<Longrightarrow> (if l = 0 then [0] else be_digits l) = [of_nat l]"
  by (simp add: be_digits.simps [of l] be_digits.simps [of 0])

lemma length_der_len: "l < 2 ^ 32 \<Longrightarrow> length (der_len l) \<le> 5"
  using length_be_digits [of l 4] by (simp add: der_len_def)

lemma write_len_spec:
  assumes "l < 2 ^ 32"
  shows "writes (\<lambda>b pos start. mbedtls_asn1_write_len b pos start l) (der_len l)"
  unfolding writes_def
proof (intro allI impI)
  fix a z :: bytes and start assume s: "start \<le> length a"
  let ?ds = "if l = 0 then [0] else be_digits l"
  let ?W = "mbedtls_asn1_write_len (a @ z) (length a) start l"
  define required where "required = length (der_len l)"
  have req: "1 + (if l \<ge> 0x80 then len_digits l else 0) = required"
    by (simp add: required_def der_len_def len_digits_eq)
  have small: "\<not> l > 0xFFFFFFFF" using assms by simp
  show "if start + length (der_len l) \<le> length a
      then ?W = Some (int (length (der_len l)), length a - length (der_len l), take (length a - length (der_len l)) a @ der_len l @ z)
      else fails a z start ?W"
  proof (cases "start + required \<le> length a")
    case False
    then have "?W = Some (MBEDTLS_ERR_ASN1_BUF_TOO_SMALL, length a, a @ z)"
      unfolding mbedtls_asn1_write_len_def req using small by (simp add: Let_def)
    then show ?thesis using False failsI [of MBEDTLS_ERR_ASN1_BUF_TOO_SMALL start a z] s by (simp add: required_def asn1_codes)
  next
    case True
    have r1: "1 \<le> required" by (simp add: required_def der_len_def)
    then have ne: "l \<noteq> 0 \<or> a \<noteq> []" using True by auto
    have "length (be_digits l) \<le> required"
    proof (cases "l < 128")
      case True
      then show ?thesis using length_be_digits [of l 1] r1 by simp
    qed (simp add: required_def der_len_def)
    then have P: "put_len_digits (a @ z) (length a) l = Some (length a - length ?ds, take (length a - length ?ds) a @ ?ds @ z)"
      using put_len_digits_spec [OF ne, of z] True by (simp add: Let_def)
    have W: "?W = do { (pos, b) \<leftarrow> put_len_digits (a @ z) (length a) l;
        (pos, b) \<leftarrow> (if required > 1 then push b pos (of_nat (0x80 + required - 1)) else Some (pos, b));
        Some (int required, pos, b) }"
      unfolding mbedtls_asn1_write_len_def req using small True by (simp add: Let_def)
    show ?thesis
    proof (cases "l < 128")
      case l: True
      then have "der_len l = [of_nat l]" "required = 1" "?ds = [of_nat l]" using be_digits_one [of l] by (simp_all add: der_len_def required_def)
      then show ?thesis using W P True by simp
    next
      case l: False
      then have d: "der_len l = of_nat (128 + length (be_digits l)) # be_digits l" "required = Suc (length (be_digits l))"
          "?ds = be_digits l" "be_digits l \<noteq> []"
        using length_be_digits [of l 0] by (auto simp: der_len_def required_def)
      let ?a = "take (length a - length ?ds) a"
      have na: "?a \<noteq> []" and la: "length ?a = length a - length ?ds" using True d(2,3) by auto
      have "push (?a @ ?ds @ z) (length ?a) (of_nat (0x80 + required - 1)) =
          Some (length a - length (der_len l), take (length a - length (der_len l)) a @ der_len l @ z)"
        unfolding la push_last [OF na, unfolded la] using d by simp
      then show ?thesis using W P d True unfolding la by (simp add: required_def)
    qed
  qed
qed

lemma write_tag_spec: "writes (\<lambda>b pos start. mbedtls_asn1_write_tag b pos start t) [t]"
  unfolding writes_def
proof (intro allI impI)
  fix a z :: bytes and start assume s: "start \<le> length a"
  show "if start + length [t] \<le> length a
      then mbedtls_asn1_write_tag (a @ z) (length a) start t = Some (int (length [t]), length a - length [t], take (length a - length [t]) a @ [t] @ z)
      else fails a z start (mbedtls_asn1_write_tag (a @ z) (length a) start t)"
  proof (cases "start + 1 \<le> length a")
    case True
    then have "a \<noteq> []" by auto
    then show ?thesis using True push_last [of a z t] by (simp add: mbedtls_asn1_write_tag_def)
  next
    case False
    then show ?thesis using failsI [of MBEDTLS_ERR_ASN1_BUF_TOO_SMALL start a z] s by (simp add: mbedtls_asn1_write_tag_def asn1_codes)
  qed
qed

text \<open>The header before contents of length \<open>l\<close>.\<close>

definition write_head :: "nat \<Rightarrow> u8 \<Rightarrow> bytes \<Rightarrow> nat \<Rightarrow> nat \<Rightarrow> (int \<times> nat \<times> bytes) option" where
  "write_head l t b pos start = do {
     (ret, pos, b) \<leftarrow> mbedtls_asn1_write_len b pos start l;
     if ret < 0 then Some (ret, pos, b)
     else do {
       (ret', pos, b) \<leftarrow> mbedtls_asn1_write_tag b pos start t;
       if ret' < 0 then Some (ret', pos, b) else Some (ret + ret', pos, b)
     }
   }"

lemma write_head_spec: "l < 2 ^ 32 \<Longrightarrow> writes (write_head l t) (t # der_len l)"
  using writes_then [OF write_len_spec write_tag_spec, of l "write_head l t"
      "\<lambda>r b pos start. do { (ret', pos, b) \<leftarrow> mbedtls_asn1_write_tag b pos start t;
         if ret' < 0 then Some (ret', pos, b) else Some (r + ret', pos, b) }"]
  by (simp add: write_head_def)

lemma write_len_ret:
  assumes "mbedtls_asn1_write_len b pos start l = Some (ret, pos', b')"
  shows "ret \<le> 5"
proof (cases "l > 0xFFFFFFFF")
  case True
  then show ?thesis using assms by (simp add: mbedtls_asn1_write_len_def asn1_codes)
next
  case False
  then have "len_digits l \<le> 4" using length_be_digits [of l 4] by (simp add: len_digits_eq)
  then show ?thesis using assms False by (auto simp: mbedtls_asn1_write_len_def Let_def asn1_codes bind_eq_Some_conv split: if_splits)
qed

lemma len_and_tag_head:
  assumes "l + 6 < 2 ^ 31"
  shows "mbedtls_asn1_write_len_and_tag b pos start l t =
    do { (ret, pos, b) \<leftarrow> write_head l t b pos start; if ret < 0 then Some (ret, pos, b) else Some (int l + ret, pos, b) }"
proof (cases "mbedtls_asn1_write_len b pos start l")
  case None
  then show ?thesis by (simp add: mbedtls_asn1_write_len_and_tag_def write_head_def)
next
  case (Some x)
  obtain ret pos1 b1 where x: "x = (ret, pos1, b1)" by (cases x)
  have ret: "ret \<le> 5" using write_len_ret Some x by simp
  show ?thesis
  proof (cases "mbedtls_asn1_write_tag b1 pos1 start t")
    case None
    then show ?thesis using Some x by (simp add: mbedtls_asn1_write_len_and_tag_def write_head_def)
  next
    case (Some y)
    obtain ret' pos2 b2 where y: "y = (ret', pos2, b2)" by (cases y)
    have ret': "ret' < 0 \<or> ret' = 1" using Some y
      by (auto simp: mbedtls_asn1_write_tag_def asn1_codes bind_eq_Some_conv split: if_splits)
    have "to_int (l + nat ret + 1) = int l + (ret + 1)" if "0 \<le> ret" using that ret assms to_int_eq [of "l + nat ret + 1"] by simp
    then show ?thesis using Some y \<open>mbedtls_asn1_write_len b pos start l = Some x\<close> x ret'
      by (auto simp: mbedtls_asn1_write_len_and_tag_def write_head_def Let_def)
  qed
qed

text \<open>Contents first, then the header.\<close>

lemma writes_der:
  assumes "writes g cs" and "length cs + 6 < 2 ^ 31"
    and "\<And>b pos start. f b pos start = do { (ret, pos, b) \<leftarrow> g b pos start; if ret < 0 then Some (ret, pos, b)
        else mbedtls_asn1_write_len_and_tag b pos start (nat ret) t }"
  shows "writes f (der t cs)"
proof -
  have "length cs < 2 ^ 32" using assms(2) by simp
  from writes_then [OF assms(1) write_head_spec [OF this] assms(3)] len_and_tag_head [OF assms(2)]
  show ?thesis by (simp add: der_def)
qed

lemma write_empty: "writes (\<lambda>b pos start. Some (0, pos, b)) []"
  by (simp add: writes_def)

lemma raw_buffer_spec: "length buf < 2 ^ 31 \<Longrightarrow> writes (\<lambda>b pos start. mbedtls_asn1_write_raw_buffer b pos start buf) buf"
  unfolding writes_def
proof (intro allI impI)
  fix a z :: bytes and start assume n: "length buf < 2 ^ 31" and s: "start \<le> length a"
  let ?W = "mbedtls_asn1_write_raw_buffer (a @ z) (length a) start buf"
  show "if start + length buf \<le> length a
      then ?W = Some (int (length buf), length a - length buf, take (length a - length buf) a @ buf @ z) else fails a z start ?W"
  proof (cases "start + length buf \<le> length a")
    case True
    then show ?thesis using n by (auto simp: mbedtls_asn1_write_raw_buffer_def wr_def to_int_eq Let_def)
  next
    case False
    then have "length a - start < length buf" using s by simp
    then show ?thesis using False s failsI [of MBEDTLS_ERR_ASN1_BUF_TOO_SMALL start a z]
      by (simp add: mbedtls_asn1_write_raw_buffer_def asn1_codes)
  qed
qed

lemma write_null_spec: "writes mbedtls_asn1_write_null (der 5 [])"
  by (rule writes_der [OF write_empty]) (simp_all add: mbedtls_asn1_write_null_def)

lemma write_oid_spec: "length oid + 6 < 2 ^ 31 \<Longrightarrow> writes (\<lambda>b pos start. mbedtls_asn1_write_oid b pos start oid) (der 6 oid)"
  by (rule writes_der [OF raw_buffer_spec]) (simp_all add: mbedtls_asn1_write_oid_def)

lemma write_string_spec:
  "length text + 6 < 2 ^ 31 \<Longrightarrow> writes (\<lambda>b pos start. mbedtls_asn1_write_tagged_string b pos start t text) (der t text)"
  "length text + 6 < 2 ^ 31 \<Longrightarrow> writes (\<lambda>b pos start. mbedtls_asn1_write_octet_string b pos start text) (der 4 text)"
  by (rule writes_der [OF raw_buffer_spec]; simp add: mbedtls_asn1_write_tagged_string_def mbedtls_asn1_write_octet_string_def)+

lemma write_bool_spec: "writes (\<lambda>b pos start. mbedtls_asn1_write_bool b pos start v) (der 1 [if v then 255 else 0])"
proof (rule writes_der [OF write_tag_spec])
  fix b pos start
  show "mbedtls_asn1_write_bool b pos start v = do { (ret, pos, b) \<leftarrow> mbedtls_asn1_write_tag b pos start (if v then 255 else 0);
      if ret < 0 then Some (ret, pos, b) else mbedtls_asn1_write_len_and_tag b pos start (nat ret) 1 }"
    by (cases "push b pos (if v then 255 else 0)") (auto simp: mbedtls_asn1_write_bool_def mbedtls_asn1_write_tag_def asn1_codes)
qed simp

section \<open>Algorithm identifiers\<close>

text \<open>What a writer returns is an \<open>int\<close>, so the sum of two results is a \<open>size_t\<close>.\<close>

lemma to_int_less: "to_int n < 2147483648"
  using signed_take_bit_int_less_exp [of 31 "int n"] by (simp add: to_int_def)

lemma len_and_tag_ret: "mbedtls_asn1_write_len_and_tag b pos start l t = Some (ret, pos', b') \<Longrightarrow> ret < 2 ^ 31"
  by (auto simp: mbedtls_asn1_write_len_and_tag_def Let_def bind_eq_Some_conv split: if_splits) (metis to_int_less)+

lemma null_ret: "mbedtls_asn1_write_null b pos start = Some (ret, pos', b') \<Longrightarrow> ret < 2 ^ 31"
  unfolding mbedtls_asn1_write_null_def by (rule len_and_tag_ret)

lemma oid_ret: "mbedtls_asn1_write_oid b pos start oid = Some (ret, pos', b') \<Longrightarrow> ret < 2 ^ 31"
  by (auto simp: mbedtls_asn1_write_oid_def bind_eq_Some_conv split: if_splits dest: len_and_tag_ret)

lemma size_word: "n < 2 ^ 32 \<Longrightarrow> n mod size_mod = n" for n :: nat
  by (simp add: size_mod_def)

lemma write_alg_spec:
  assumes "length oid + 20 < 2 ^ 31"
  shows "writes (\<lambda>b pos start. mbedtls_asn1_write_algorithm_identifier_ext b pos start oid 0 True) (der 0x30 (der 6 oid @ der 5 []))"
    and "writes (\<lambda>b pos start. mbedtls_asn1_write_algorithm_identifier_ext b pos start oid par_len False) (der 0x30 (der 6 oid))"
proof -
  have w: "writes (\<lambda>b pos start. mbedtls_asn1_write_oid b pos start oid) (der 6 oid)" using assms by (intro write_oid_spec) simp
  have l: "length (der 6 oid) + 6 < 2 ^ 31" "length (der 6 oid @ der 5 []) + 6 < 2 ^ 31"
    using assms length_der_len [of "length oid"] by (simp_all add: der_def der_len_def)
  show "writes (\<lambda>b pos start. mbedtls_asn1_write_algorithm_identifier_ext b pos start oid par_len False) (der 0x30 (der 6 oid))"
  proof (rule writes_der [OF w l(1)])
    fix b pos start
    have "nat ret mod size_mod = nat ret" if "mbedtls_asn1_write_oid b pos start oid = Some (ret, p, b')" for ret p b'
      using oid_ret [OF that] by (intro size_word) simp
    then show "mbedtls_asn1_write_algorithm_identifier_ext b pos start oid par_len False = do { (ret, pos, b) \<leftarrow> mbedtls_asn1_write_oid b pos start oid;
        if ret < 0 then Some (ret, pos, b) else mbedtls_asn1_write_len_and_tag b pos start (nat ret) 0x30 }"
      by (auto simp: mbedtls_asn1_write_algorithm_identifier_ext_def split: Option.bind_split)
  qed
  let ?k = "\<lambda>r b pos start. do { (ret', pos, b) \<leftarrow> mbedtls_asn1_write_oid b pos start oid;
      if ret' < 0 then Some (ret', pos, b) else Some (r + ret', pos, b) }"
  let ?g = "\<lambda>b pos start. do { (ret, pos, b) \<leftarrow> mbedtls_asn1_write_null b pos start; if ret < 0 then Some (ret, pos, b) else ?k ret b pos start }"
  have g: "writes ?g (der 6 oid @ der 5 [])"
    by (rule writes_then [OF write_null_spec w, of ?g ?k]) simp_all
  show "writes (\<lambda>b pos start. mbedtls_asn1_write_algorithm_identifier_ext b pos start oid 0 True) (der 0x30 (der 6 oid @ der 5 []))"
  proof (rule writes_der [OF g l(2)])
    fix b pos start
    have "(nat r + nat ret) mod size_mod = nat (r + ret)" if "mbedtls_asn1_write_null b pos start = Some (r, p, b')"
        "mbedtls_asn1_write_oid b' p start oid = Some (ret, p2, b2)" "\<not> r < 0" "\<not> ret < 0" for r p b' ret p2 b2
      using null_ret [OF that(1)] oid_ret [OF that(2)] that(3,4) size_word [of "nat r + nat ret"] by (simp add: nat_add_distrib)
    then show "mbedtls_asn1_write_algorithm_identifier_ext b pos start oid 0 True = do { (ret, pos, b) \<leftarrow> ?g b pos start;
        if ret < 0 then Some (ret, pos, b) else mbedtls_asn1_write_len_and_tag b pos start (nat ret) 0x30 }"
      by (auto simp: mbedtls_asn1_write_algorithm_identifier_ext_def split: Option.bind_split)
  qed
qed

text \<open>Parameters that the caller has already written behind the cursor only count towards the length and the
  result.\<close>

lemma write_alg_par_spec:
  assumes "length oid + par_len + 20 < 2 ^ 31" and "0 < par_len"
  shows "writes (\<lambda>b pos start. do { (ret, pos, b) \<leftarrow> mbedtls_asn1_write_algorithm_identifier_ext b pos start oid par_len True;
      Some (if ret < 0 then ret else max 0 (ret - int par_len), pos, b) })
    (0x30 # der_len (par_len + length (der 6 oid)) @ der 6 oid)"
proof -
  let ?L = "par_len + length (der 6 oid)"
  let ?k = "\<lambda>r b pos start. do { (ret, pos, b) \<leftarrow> mbedtls_asn1_write_len_and_tag b pos start (par_len + nat r) 0x30;
      Some (if ret < 0 then ret else max 0 (ret - int par_len), pos, b) }"
  have l: "?L + 6 < 2 ^ 31" "?L < 2 ^ 32" using assms length_der_len [of "length oid"] by (simp_all add: der_def)
  have w: "writes (\<lambda>b pos start. mbedtls_asn1_write_oid b pos start oid) (der 6 oid)" using assms by (intro write_oid_spec) simp
  have "writes (\<lambda>b pos start. do { (ret, pos, b) \<leftarrow> mbedtls_asn1_write_algorithm_identifier_ext b pos start oid par_len True;
      Some (if ret < 0 then ret else max 0 (ret - int par_len), pos, b) }) ((0x30 # der_len ?L) @ der 6 oid)"
  proof (rule writes_then [OF w write_head_spec [OF l(2)], of _ ?k])
    fix b pos start
    have "(par_len + nat ret) mod size_mod = par_len + nat ret" if "mbedtls_asn1_write_oid b pos start oid = Some (ret, p, b')" for ret p b'
      using oid_ret [OF that] assms(1) by (intro size_word) simp
    then show "do { (ret, pos, b) \<leftarrow> mbedtls_asn1_write_algorithm_identifier_ext b pos start oid par_len True;
          Some (if ret < 0 then ret else max 0 (ret - int par_len), pos, b) } =
        do { (ret, pos, b) \<leftarrow> mbedtls_asn1_write_oid b pos start oid; if ret < 0 then Some (ret, pos, b) else ?k ret b pos start }"
      using assms(2) by (auto simp: mbedtls_asn1_write_algorithm_identifier_ext_def split: Option.bind_split)
    show "?k (int (length (der 6 oid))) b pos start = do { (ret', pos, b) \<leftarrow> write_head ?L 0x30 b pos start;
        if ret' < 0 then Some (ret', pos, b) else Some (int (length (der 6 oid)) + ret', pos, b) }"
      using len_and_tag_head [OF l(1)] by (auto split: Option.bind_split)
  qed
  then show ?thesis by simp
qed

text \<open>A writer called when \<open>par\<close> stands right behind the cursor: it completes \<open>par\<close> to \<open>enc\<close>.\<close>

definition completes :: "(bytes \<Rightarrow> nat \<Rightarrow> nat \<Rightarrow> (int \<times> nat \<times> bytes) option) \<Rightarrow> bytes \<Rightarrow> bytes \<Rightarrow> bool" where
  "completes f par enc \<longleftrightarrow> (\<forall>a z start. start \<le> length a \<longrightarrow>
     (let n = length enc - length par
      in if start + n \<le> length a
         then f (a @ par @ z) (length a) start = Some (int (length enc), length a - n, take (length a - n) a @ enc @ z)
         else fails a (par @ z) start (f (a @ par @ z) (length a) start)))"

lemma write_alg_completes:
  assumes "length oid + length par + 20 < 2 ^ 31"
  shows "completes (\<lambda>b pos start. mbedtls_asn1_write_algorithm_identifier_ext b pos start oid (length par) True) par
    (der 0x30 (der 6 oid @ (if par = [] then der 5 [] else par)))"
proof (cases "par = []")
  case True
  then show ?thesis using write_alg_spec(1) [of oid] assms by (simp add: completes_def writes_def)
next
  case False
  let ?f = "\<lambda>b pos start. mbedtls_asn1_write_algorithm_identifier_ext b pos start oid (length par) True"
  let ?h = "0x30 # der_len (length par + length (der 6 oid)) @ der 6 oid"
  let ?e = "der 0x30 (der 6 oid @ par)"
  have e: "?e = ?h @ par" by (simp add: der_def [of 48] add.commute)
  have le: "length ?e = length ?h + length par" unfolding e by simp
  have "0 < length par" using False by simp
  note w = write_alg_par_spec [OF assms this]
  have "let n = length ?e - length par in if start + n \<le> length a
      then ?f (a @ par @ z) (length a) start = Some (int (length ?e), length a - n, take (length a - n) a @ ?e @ z)
      else fails a (par @ z) start (?f (a @ par @ z) (length a) start)" if s: "start \<le> length a" for a z start
  proof (cases "start + length ?h \<le> length a")
    case True
    from writesD(1) [OF w s True, of "par @ z"]
    have "?f (a @ par @ z) (length a) start = Some (int (length ?h) + int (length par), length a - length ?h, take (length a - length ?h) a @ ?h @ par @ z)"
      by (auto simp: bind_eq_Some_conv max_def split: if_splits)
    then show ?thesis using True unfolding le by (simp add: e Let_def)
  next
    case no: False
    have "\<exists>e a1 a2. e < 0 \<and> ?f (a @ par @ z) (length a) start = Some (e, length a1, a1 @ a2 @ par @ z) \<and>
        length a1 + length a2 = length a \<and> start \<le> length a1 \<and> take start a1 = take start a"
      using writesD(2) [OF w s, of "par @ z"] no unfolding fails_def by (fastforce simp: bind_eq_Some_conv split: if_splits)
    then show ?thesis using no unfolding le by (simp add: fails_def)
  qed
  then show ?thesis using False unfolding completes_def by simp
qed

section \<open>Integers\<close>

definition int_digits :: "nat \<Rightarrow> bytes" where
  "int_digits v = (let ds = (if v = 0 then [0] else be_digits v) in if hd ds < 128 then ds else 0 # ds)"

lemma low_byte_int: "(of_int (int v AND 0xff) :: u8) = of_nat v"
proof -
  have "int v AND 0xff = take_bit 8 (int v)" by (simp add: take_bit_eq_mask mask_eq_exp_minus_1)
  moreover have "(word_of_int (take_bit 8 (int v)) :: u8) = word_of_int (int v)" by (simp only: word_of_int_eq_iff) simp
  ultimately show ?thesis by simp
qed

lemma put_int_digits_spec:
  "start \<le> length a \<Longrightarrow> (let ds = (if v = 0 then [0] else be_digits v) in
    if start + length ds \<le> length a
    then put_int_digits (a @ z) (length a) start (int v) l = Some (True, length a - length ds, take (length a - length ds) a @ ds @ z, l + length ds)
    else \<exists>a1 a2 l'. put_int_digits (a @ z) (length a) start (int v) l = Some (False, length a1, a1 @ a2 @ z, l') \<and>
      length a1 + length a2 = length a \<and> start \<le> length a1 \<and> take start a1 = take start a)"
proof (induction v arbitrary: a z l rule: less_induct)
  case (less v)
  let ?ds = "if v = 0 then [0] else be_digits v" and ?P = "put_int_digits (a @ z) (length a) start (int v) l"
  have sh: "drop_bit 8 (int v) = int (v div 256)" by (simp add: drop_bit_eq_div zdiv_int)
  have ds: "?ds = (if v div 256 = 0 then [] else be_digits (v div 256)) @ [of_nat v]"
    by (auto simp: be_digits.simps [of v] be_digits.simps [of 0])
  show ?case
  proof (cases "start < length a")
    case False
    then have P: "?P = Some (False, length a, a @ [] @ z, l)" by (simp add: put_int_digits.simps)
    have nf: "\<not> start + length ?ds \<le> length a" using False ds by simp
    show ?thesis unfolding Let_def if_not_P [OF nf]
      by (rule exI [of _ a], rule exI [of _ "[]"], rule exI [of _ l]) (use P less.prems in simp)
  next
    case True
    then have ne: "a \<noteq> []" by auto
    let ?a = "take (length a - 1) a"
    have la: "length ?a = length a - 1" by simp
    have P: "?P = (if v div 256 = 0 then Some (True, length ?a, ?a @ of_nat v # z, l + 1)
        else put_int_digits (?a @ of_nat v # z) (length ?a) start (int (v div 256)) (l + 1))"
      using True push_last [OF ne, of z "of_nat v"] by (subst put_int_digits.simps) (simp add: low_byte_int sh)
    show ?thesis
    proof (cases "v div 256 = 0")
      case z: True
      then show ?thesis unfolding Let_def ds using P True by simp
    next
      case nz: False
      then have lt: "v div 256 < v" by (cases "v = 0") auto
      have sa: "start \<le> length ?a" using True by simp
      have d: "?ds = be_digits (v div 256) @ [of_nat v]" using ds nz by simp
      note IH = less.IH [OF lt sa, of "of_nat v # z" "l + 1", unfolded if_not_P [OF nz] Let_def]
      have P': "?P = put_int_digits (?a @ of_nat v # z) (length ?a) start (int (v div 256)) (l + 1)" using P nz by simp
      show ?thesis
      proof (cases "start + length (be_digits (v div 256)) \<le> length ?a")
        case fit: True
        have "take (length ?a - length (be_digits (v div 256))) ?a = take (length a - length ?ds) a" unfolding la d by simp
        moreover have "length ?a - length (be_digits (v div 256)) = length a - length ?ds" unfolding la d by simp
        moreover have "start + length ?ds \<le> length a" using fit True unfolding la d by simp
        ultimately show ?thesis using IH fit P' unfolding Let_def by (simp add: d)
      next
        case False
        have nf: "\<not> start + length ?ds \<le> length a" using False True unfolding la d by simp
        from IH False obtain a1 a2 l' where
          "?P = Some (False, length a1, a1 @ a2 @ of_nat v # z, l')" "length a1 + length a2 = length ?a" "start \<le> length a1"
            "take start a1 = take start ?a" unfolding P' by auto
        then have "?P = Some (False, length a1, a1 @ (a2 @ [of_nat v]) @ z, l')" "length a1 + length (a2 @ [of_nat v]) = length a"
            "start \<le> length a1" "take start a1 = take start a" using True la by auto
        then show ?thesis unfolding Let_def if_not_P [OF nf] by blast
      qed
    qed
  qed
qed

definition write_int_content :: "int \<Rightarrow> bytes \<Rightarrow> nat \<Rightarrow> nat \<Rightarrow> (int \<times> nat \<times> bytes) option" where
  "write_int_content val b pos start = do {
     (room, pos, b, l) \<leftarrow> put_int_digits b pos start val 0;
     if \<not> room then Some (MBEDTLS_ERR_ASN1_BUF_TOO_SMALL, pos, b)
     else do {
       c \<leftarrow> rd1 b pos;
       if c AND 0x80 \<noteq> 0 then
         if int pos - int start < 1 then Some (MBEDTLS_ERR_ASN1_BUF_TOO_SMALL, pos, b)
         else do { (pos, b) \<leftarrow> push b pos 0; Some (int (l + 1), pos, b) }
       else Some (int l, pos, b)
     }
   }"

lemma int_content_step:
  "put_int_digits b pos start val 0 = Some (True, pos', b', l) \<Longrightarrow> rd1 b' pos' = Some c \<Longrightarrow>
    write_int_content val b pos start = (if c < 128 then Some (int l, pos', b')
      else if int pos' - int start < 1 then Some (MBEDTLS_ERR_ASN1_BUF_TOO_SMALL, pos', b')
      else do { (pos, b) \<leftarrow> push b' pos' 0; Some (int (l + 1), pos, b) })"
  by (simp add: write_int_content_def high_bit(1))

lemma write_int_content_spec: "writes (write_int_content (int v)) (int_digits v)"
  unfolding writes_def
proof (intro allI impI)
  fix a z :: bytes and start assume s: "start \<le> length a"
  let ?ds = "if v = 0 then [0] else be_digits v" and ?W = "write_int_content (int v) (a @ z) (length a) start"
  let ?enc = "int_digits v"
  have ne: "?ds \<noteq> []" by (simp add: be_digits.simps [of v])
  have enc: "?enc = (if hd ?ds < 128 then ?ds else 0 # ?ds)" by (simp add: int_digits_def Let_def)
  note P = put_int_digits_spec [OF s, of v z 0, unfolded Let_def]
  have neg: "MBEDTLS_ERR_ASN1_BUF_TOO_SMALL < 0" by (simp add: asn1_codes)
  show "if start + length ?enc \<le> length a then ?W = Some (int (length ?enc), length a - length ?enc, take (length a - length ?enc) a @ ?enc @ z)
      else fails a z start ?W"
  proof (cases "start + length ?ds \<le> length a")
    case False
    from P [unfolded if_not_P [OF False]] obtain a1 a2 l' where
      "put_int_digits (a @ z) (length a) start (int v) 0 = Some (False, length a1, a1 @ a2 @ z, l')"
      "length a1 + length a2 = length a" "start \<le> length a1" "take start a1 = take start a" by blast
    then have "fails a z start ?W" using neg unfolding fails_def by (auto simp: write_int_content_def)
    moreover have "\<not> start + length ?enc \<le> length a" using False by (simp add: enc)
    ultimately show ?thesis by simp
  next
    case True
    let ?a = "take (length a - length ?ds) a"
    have la: "length ?a = length a - length ?ds" by simp
    have r: "rd1 (?a @ ?ds @ z) (length ?a) = Some (hd ?ds)" using ne by (simp add: rd1_def nth_append hd_conv_nth)
    have P': "put_int_digits (a @ z) (length a) start (int v) 0 = Some (True, length ?a, ?a @ ?ds @ z, length ?ds)"
      using P True unfolding la by simp
    have W: "?W = (if hd ?ds < 128 then Some (int (length ?ds), length ?a, ?a @ ?ds @ z)
        else if int (length ?a) - int start < 1 then Some (MBEDTLS_ERR_ASN1_BUF_TOO_SMALL, length ?a, ?a @ ?ds @ z)
        else do { (pos, b) \<leftarrow> push (?a @ ?ds @ z) (length ?a) 0; Some (int (length ?ds + 1), pos, b) })"
      by (rule int_content_step [OF P' r])
    show ?thesis
    proof (cases "hd ?ds < 128")
      case top: True
      then have e: "?enc = ?ds" using enc by simp
      show ?thesis unfolding e W using top True by simp
    next
      case top: False
      then have e: "?enc = 0 # ?ds" using enc by simp
      have W': "?W = (if int (length ?a) - int start < 1 then Some (MBEDTLS_ERR_ASN1_BUF_TOO_SMALL, length ?a, ?a @ ?ds @ z)
        else do { (pos, b) \<leftarrow> push (?a @ ?ds @ z) (length ?a) 0; Some (int (length ?ds + 1), pos, b) })" using W top by simp
      show ?thesis
      proof (cases "start < length ?a")
        case fit: True
        then have na: "?a \<noteq> []" by auto
        have c: "\<not> int (length ?a) - int start < 1" and f: "start + length (0 # ?ds) \<le> length a" using fit True unfolding la by simp_all
        have "?W = Some (int (length ?ds + 1), length ?a - 1, take (length ?a - 1) ?a @ 0 # ?ds @ z)"
          unfolding W' if_not_P [OF c] push_last [OF na] by simp
        moreover have "length ?a - 1 = length a - length (0 # ?ds)" "take (length ?a - 1) ?a = take (length a - length (0 # ?ds)) a"
          unfolding la by simp_all
        ultimately show ?thesis unfolding e using f by simp
      next
        case nofit: False
        have c: "int (length ?a) - int start < 1" and f: "\<not> start + length (0 # ?ds) \<le> length a" using nofit True unfolding la by simp_all
        have sa: "start \<le> length a - length ?ds" using True by simp
        have "fails ?a (?ds @ z) start ?W" unfolding W' if_P [OF c] by (rule failsI [OF neg]) (use sa in simp)
        from fails_below [OF this _ sa] have "fails a z start ?W" using True by simp
        then show ?thesis unfolding e using f by simp
      qed
    qed
  qed
qed

lemma length_int_digits: "v < 2 ^ 31 \<Longrightarrow> length (int_digits v) \<le> 5"
  using length_be_digits [of v 4] by (simp add: int_digits_def Let_def)

lemma write_int_spec:
  assumes "v < 2 ^ 31"
  shows "writes (\<lambda>b pos start. asn1_write_tagged_int b pos start (int v) t) (der t (int_digits v))"
proof (rule writes_der [OF write_int_content_spec])
  show "length (int_digits v) + 6 < 2 ^ 31" using length_int_digits [OF assms] by simp
  fix b pos start
  show "asn1_write_tagged_int b pos start (int v) t = do { (ret, pos, b) \<leftarrow> write_int_content (int v) b pos start;
      if ret < 0 then Some (ret, pos, b) else mbedtls_asn1_write_len_and_tag b pos start (nat ret) t }"
    by (auto simp: asn1_write_tagged_int_def write_int_content_def asn1_codes nat_add_distrib split: Option.bind_split)
qed

section \<open>Bit strings\<close>

definition bit_content :: "bytes \<Rightarrow> nat \<Rightarrow> bytes" where
  "bit_content buf bits = (let n = (bits + 7) div 8; unused = n * 8 - bits in
     of_nat unused # (if n = 0 then [] else take (n - 1) buf @ [buf ! (n - 1) AND NOT (push_bit unused 1 - 1)]))"

definition write_bit_content :: "bytes \<Rightarrow> nat \<Rightarrow> bytes \<Rightarrow> nat \<Rightarrow> nat \<Rightarrow> (int \<times> nat \<times> bytes) option" where
  "write_bit_content buf bits b pos start =
    (let byte_len = (bits + 7) div 8; unused = byte_len * 8 - bits
     in if pos < start \<or> pos - start < byte_len + 1 then Some (MBEDTLS_ERR_ASN1_BUF_TOO_SMALL, pos, b)
        else do {
          (pos, b) \<leftarrow> (if byte_len > 0 then do {
              c \<leftarrow> rd1 buf (byte_len - 1);
              (pos, b) \<leftarrow> push b pos (c AND NOT (push_bit unused 1 - 1));
              v \<leftarrow> rd buf 0 (byte_len - 1);
              b \<leftarrow> wr b (pos - (byte_len - 1)) v;
              Some (pos - (byte_len - 1), b)
            } else Some (pos, b));
          (pos, b) \<leftarrow> push b pos (of_nat unused);
          Some (int (byte_len + 1), pos, b)
        })"

lemma bit_content_step:
  assumes "n = (bits + 7) div 8" and "0 < n" and "\<not> (pos < start \<or> pos - start < n + 1)"
    and "rd1 buf (n - 1) = Some c" and "push b pos (c AND NOT (push_bit (n * 8 - bits) 1 - 1)) = Some (pos1, b1)"
    and "rd buf 0 (n - 1) = Some v" and "wr b1 (pos1 - (n - 1)) v = Some b2"
  shows "write_bit_content buf bits b pos start =
    do { (pos, b) \<leftarrow> push b2 (pos1 - (n - 1)) (of_nat (n * 8 - bits)); Some (int (n + 1), pos, b) }"
  unfolding write_bit_content_def Let_def assms(1) [symmetric] if_not_P [OF assms(3)] if_P [OF assms(2)] assms(4)
  using assms(5-7) by simp

lemma write_bit_content_spec:
  assumes "(bits + 7) div 8 \<le> length buf"
  shows "writes (write_bit_content buf bits) (bit_content buf bits)"
  unfolding writes_def
proof (intro allI impI)
  fix a z :: bytes and start assume s: "start \<le> length a"
  define n where "n = (bits + 7) div 8"
  let ?u = "n * 8 - bits" and ?enc = "bit_content buf bits" and ?W = "write_bit_content buf bits (a @ z) (length a) start"
  have le: "length ?enc = n + 1" using assms by (auto simp: bit_content_def Let_def n_def [symmetric])
  show "if start + length ?enc \<le> length a then ?W = Some (int (length ?enc), length a - length ?enc, take (length a - length ?enc) a @ ?enc @ z)
      else fails a z start ?W"
  proof (cases "start + (n + 1) \<le> length a")
    case False
    then have "?W = Some (MBEDTLS_ERR_ASN1_BUF_TOO_SMALL, length a, a @ z)" by (auto simp: write_bit_content_def Let_def n_def)
    then show ?thesis using False le failsI [of MBEDTLS_ERR_ASN1_BUF_TOO_SMALL start a z] s by (simp add: asn1_codes)
  next
    case True
    have room: "\<not> (length a < start \<or> length a - start < n + 1)" using True by simp
    show ?thesis
    proof (cases "n = 0")
      case zero: True
      then have "a \<noteq> []" using True by auto
      then show ?thesis using zero True push_last [of a z "of_nat ?u"] room
        by (simp add: write_bit_content_def bit_content_def Let_def n_def [symmetric])
    next
      case False
      have na: "a \<noteq> []" using True by auto
      let ?l = "buf ! (n - 1) AND NOT (push_bit ?u 1 - 1)" and ?h = "take (n - 1) buf"
      have bn: "n \<le> length buf" using assms by (simp add: n_def)
      have r: "rd1 buf (n - 1) = Some (buf ! (n - 1))" "rd buf 0 (n - 1) = Some ?h" using bn False by (auto simp: rd1_def rd_def)
      let ?a = "take (length a - 1) a" and ?b = "take (length a - n) a"
      have lb: "length ?b = length a - n" by simp
      have w: "wr (?a @ ?l # z) (length a - 1 - (n - 1)) ?h = Some (?b @ ?h @ ?l # z)"
        using bn False True by (auto simp: wr_def drop_take)
      have nb: "?b \<noteq> []" using True False by auto
      have e: "?enc = of_nat ?u # ?h @ [?l]" using False by (simp add: bit_content_def Let_def n_def [symmetric])
      have p: "length a - 1 - (n - 1) = length ?b" using False by simp
      have "?W = do { (pos, b) \<leftarrow> push (?b @ ?h @ ?l # z) (length ?b) (of_nat ?u); Some (int (n + 1), pos, b) }"
        using bit_content_step [OF n_def _ room r(1) push_last [OF na] r(2) w] False unfolding p by simp
      also have "\<dots> = Some (int (n + 1), length ?b - 1, take (length ?b - 1) ?b @ of_nat ?u # ?h @ ?l # z)"
        unfolding push_last [OF nb] by simp
      also have "\<dots> = Some (int (length ?enc), length a - length ?enc, take (length a - length ?enc) a @ ?enc @ z)"
        unfolding le lb by (simp add: e)
      finally show ?thesis using True le by simp
    qed
  qed
qed

lemma write_bitstring_spec:
  assumes "(bits + 7) div 8 \<le> length buf" and "length buf + 7 < 2 ^ 31"
  shows "writes (\<lambda>b pos start. mbedtls_asn1_write_bitstring b pos start buf bits) (der 3 (bit_content buf bits))"
proof (rule writes_der [OF write_bit_content_spec [OF assms(1)]])
  show "length (bit_content buf bits) + 6 < 2 ^ 31" using assms by (simp add: bit_content_def Let_def)
  fix b pos start
  show "mbedtls_asn1_write_bitstring b pos start buf bits = do { (ret, pos, b) \<leftarrow> write_bit_content buf bits b pos start;
      if ret < 0 then Some (ret, pos, b) else mbedtls_asn1_write_len_and_tag b pos start (nat ret) 3 }"
    by (auto simp: mbedtls_asn1_write_bitstring_def write_bit_content_def Let_def asn1_codes nat_add_distrib split: Option.bind_split)
qed

text \<open>Bit \<open>i\<close> of a bit string, most significant bit first, and its length without trailing zeros.\<close>

definition bit_at :: "bytes \<Rightarrow> nat \<Rightarrow> bool" where
  "bit_at buf i = bit (buf ! (i div 8)) (7 - i mod 8)"

fun last_bit :: "bytes \<Rightarrow> nat \<Rightarrow> nat" where
  "last_bit buf 0 = 0"
| "last_bit buf (Suc n) = (if bit_at buf n then Suc n else last_bit buf n)"

lemma drop_zero_bits_spec:
  "n div 8 < length buf \<Longrightarrow>
    drop_zero_bits buf (n div 8) (drop_bit (7 - n mod 8) (buf ! (n div 8))) (Suc n) = Some (last_bit buf (Suc n))"
proof (induction n)
  case (Suc n)
  have b: "drop_bit k c AND 1 \<noteq> 0 \<longleftrightarrow> bit c k" for c :: u8 and k by (simp add: bit_iff_odd_drop_bit and_one_eq odd_iff_mod_2_eq_one)
  show ?case
  proof (cases "bit_at buf (Suc n)")
    case True
    then show ?thesis using b by (simp add: bit_at_def)
  next
    case False
    have n: "n div 8 < length buf" using Suc.prems by (metis div_le_mono le_less_trans le_SucI order_refl)
    show ?thesis
    proof (cases "Suc n mod 8 = 0")
      case z: True
      then have "Suc n div 8 = Suc (n div 8)" "n mod 8 = 7" by (simp_all add: div_Suc mod_Suc split: if_splits)
      then show ?thesis using False b z Suc.IH [OF n] n by (simp add: bit_at_def rd1_def)
    next
      case nz: False
      then have m: "Suc n div 8 = n div 8" "Suc n mod 8 = Suc (n mod 8)" "n mod 8 < 7"
        using mod_less_divisor [of 8 n] by (simp_all add: div_Suc mod_Suc split: if_splits)
      have "Suc (6 - n mod 8) = 7 - n mod 8" using m(3) by simp
      then have "drop_bit 1 (drop_bit (7 - Suc n mod 8) c) = drop_bit (7 - n mod 8) c" for c :: u8 using m by simp
      then show ?thesis using False b nz Suc.IH [OF n] m by (simp add: bit_at_def)
    qed
  qed
qed (simp add: bit_at_def bit_iff_odd_drop_bit and_one_eq odd_iff_mod_2_eq_one)

lemma last_bit_le: "last_bit buf n \<le> n"
  by (induction n) auto

lemma write_named_bitstring_eq:
  assumes "(bits + 7) div 8 \<le> length buf"
  shows "mbedtls_asn1_write_named_bitstring b pos start buf bits = mbedtls_asn1_write_bitstring b pos start buf (last_bit buf bits)"
proof (cases bits)
  case 0
  then show ?thesis by (simp add: mbedtls_asn1_write_named_bitstring_def)
next
  case (Suc n)
  have q: "(Suc n + 7) div 8 = Suc (n div 8)" using div_add_self1 [of 8 n] by simp
  have u: "(Suc n + 7) div 8 * 8 - Suc n = 7 - n mod 8"
  proof -
    have "Suc x * 8 - Suc (x * 8 + y) = 7 - y" for x y :: nat by simp
    from this [of "n div 8" "n mod 8"] show ?thesis unfolding q div_mult_mod_eq .
  qed
  have l: "n div 8 < length buf" using assms [unfolded Suc q] by simp
  show ?thesis using drop_zero_bits_spec [OF l] l unfolding mbedtls_asn1_write_named_bitstring_def Suc Let_def q u [unfolded q]
    by (simp add: rd1_def del: drop_zero_bits.simps last_bit.simps)
qed

lemma write_named_bitstring_spec:
  assumes "(bits + 7) div 8 \<le> length buf" and "length buf + 7 < 2 ^ 31"
  shows "writes (\<lambda>b pos start. mbedtls_asn1_write_named_bitstring b pos start buf bits) (der 3 (bit_content buf (last_bit buf bits)))"
proof -
  have "(last_bit buf bits + 7) div 8 \<le> (bits + 7) div 8" using last_bit_le by (intro div_le_mono) simp
  then show ?thesis unfolding write_named_bitstring_eq [OF assms(1)] using assms by (intro write_bitstring_spec) simp_all
qed

section \<open>Reading what was written\<close>

lemma der_head_len: "n < 2 ^ 32 \<Longrightarrow> der_head (der_len n @ r) = Some (length (der_len n), n)"
proof -
  assume n: "n < 2 ^ 32"
  show ?thesis
  proof (cases "n < 128")
    case True
    then have "unat (of_nat n :: u8) = n" by (simp add: unat_of_nat)
    then show ?thesis using True by (simp add: der_len_def word_less_nat_alt)
  next
    case False
    have k: "length (be_digits n) \<le> 4" "length (be_digits n) \<noteq> 0" using n length_be_digits [of n 4] length_be_digits [of n 0] False by auto
    have u: "unat (of_nat (128 + length (be_digits n)) :: u8) = 128 + length (be_digits n)" using k by (simp only: unat_of_nat) simp
    then have "\<not> (of_nat (128 + length (be_digits n)) :: u8) < 128" unfolding word_less_nat_alt by simp
    then show ?thesis using False u k unfolding der_len_def by (simp add: Let_def del: of_nat_add of_nat_numeral)
  qed
qed

lemma tlv_der: "length cs < 2 ^ 32 \<Longrightarrow> tlv (der t cs @ rest) = Some (t, cs, rest)"
  by (simp add: der_def der_head_len)

lemma der_int_digits: "v < 2 ^ 31 \<Longrightarrow> der_int (uint t) (der t (int_digits v) @ rest) = Some (v, rest)"
proof -
  assume v: "v < 2 ^ 31"
  have "v \<noteq> 0 \<longrightarrow> be_digits v \<noteq> []" by (simp add: be_digits.simps [of v])
  then have "be_val (int_digits v) = v" "int_digits v \<noteq> []" "hd (int_digits v) < 128"
    by (auto simp: int_digits_def Let_def be_val_simps)
  moreover have "length (int_digits v) < 2 ^ 32" using length_int_digits [OF v] by simp
  ultimately show ?thesis using v by (simp add: der_int_def tlv_der)
qed

lemma win_written: "win (a @ e @ z) (length a) (length (a @ e @ z)) = e @ z"
  by (simp add: win_def)

section \<open>Claims\<close>

text \<open>C34. The writers of null, object identifiers, algorithm identifiers, booleans, nonnegative integers and
  enumerations, UTF-8, printable, IA5 and octet strings and bit strings, for contents below 2 GiB less 20
  bytes, emit the DER encoding of their argument: with room for it, exactly those bytes stand before
  the cursor, the cursor points at them and their number is returned; without, the result is an error and the
  bytes behind the cursor and before the start of the buffer are untouched. An algorithm identifier takes the
  parameters the caller has written right behind the cursor into its sequence, a null where there are none,
  or nothing when it is told so. Named bit strings lose their trailing zero bits.\<close>

theorem asn1_writers_encode:
  assumes "length cs + length par + 20 < 2 ^ 31" and "v < 2 ^ 31" and "bits \<le> 8 * length cs"
  shows "writes mbedtls_asn1_write_null (der 5 []) \<and>
    writes (\<lambda>b pos start. mbedtls_asn1_write_oid b pos start cs) (der 6 cs) \<and>
    completes (\<lambda>b pos start. mbedtls_asn1_write_algorithm_identifier b pos start cs (length par)) par
      (der 0x30 (der 6 cs @ (if par = [] then der 5 [] else par))) \<and>
    writes (\<lambda>b pos start. mbedtls_asn1_write_algorithm_identifier_ext b pos start cs par_len False) (der 0x30 (der 6 cs)) \<and>
    writes (\<lambda>b pos start. mbedtls_asn1_write_bool b pos start q) (der 1 [if q then 255 else 0]) \<and>
    writes (\<lambda>b pos start. mbedtls_asn1_write_int b pos start (int v)) (der 2 (int_digits v)) \<and>
    writes (\<lambda>b pos start. mbedtls_asn1_write_enum b pos start (int v)) (der 0x0A (int_digits v)) \<and>
    writes (\<lambda>b pos start. mbedtls_asn1_write_utf8_string b pos start cs) (der 0x0C cs) \<and>
    writes (\<lambda>b pos start. mbedtls_asn1_write_printable_string b pos start cs) (der 0x13 cs) \<and>
    writes (\<lambda>b pos start. mbedtls_asn1_write_ia5_string b pos start cs) (der 0x16 cs) \<and>
    writes (\<lambda>b pos start. mbedtls_asn1_write_octet_string b pos start cs) (der 4 cs) \<and>
    writes (\<lambda>b pos start. mbedtls_asn1_write_bitstring b pos start cs bits) (der 3 (bit_content cs bits)) \<and>
    writes (\<lambda>b pos start. mbedtls_asn1_write_named_bitstring b pos start cs bits) (der 3 (bit_content cs (last_bit cs bits)))"
proof -
  have n: "length cs + 6 < 2 ^ 31" "length cs + 7 < 2 ^ 31" "length cs + 20 < 2 ^ 31" using assms(1) by simp_all
  have b: "(bits + 7) div 8 \<le> length cs" using assms(3) by simp
  show ?thesis
    using write_null_spec write_oid_spec [OF n(1)] write_alg_completes [OF assms(1)] write_alg_spec(2) [OF n(3), of par_len] write_bool_spec [of q] write_int_spec [OF assms(2)]
      write_string_spec [OF n(1)] write_bitstring_spec [OF b n(2)] write_named_bitstring_spec [OF b n(2)]
    unfolding mbedtls_asn1_write_algorithm_identifier_def mbedtls_asn1_write_int_def mbedtls_asn1_write_enum_def
      mbedtls_asn1_write_utf8_string_def mbedtls_asn1_write_printable_string_def mbedtls_asn1_write_ia5_string_def
    by simp
qed

theorem asn1_writers_encode_witness:
  "mbedtls_asn1_write_algorithm_identifier [9, 9, 9, 9, 9, 9, 4, 0, 9] 6 0 [42] 2 = Some (7, 1, [9, 0x30, 5, 6, 1, 42, 4, 0, 9]) \<and>
   mbedtls_asn1_write_named_bitstring [9, 9, 9, 9, 9, 9] 5 0 [0xA0, 0] 16 = Some (4, 1, [9, 3, 2, 5, 0xA0, 9])"
proof -
  have "writes (\<lambda>b pos start. mbedtls_asn1_write_named_bitstring b pos start [0xA0, 0] 16) (der 3 (bit_content [0xA0, 0] (last_bit [0xA0, 0] 16)))"
    using asn1_writers_encode [of "[0xA0, 0]" "[]" 0 16] by simp
  moreover have e: "der 3 (bit_content [0xA0, 0] (last_bit [0xA0, 0] 16)) = [3, 2, 5, 0xA0]" by code_simp
  ultimately have w: "writes (\<lambda>b pos start. mbedtls_asn1_write_named_bitstring b pos start [0xA0, 0] 16) [3, 2, 5, 0xA0]" by simp
  have s: "0 \<le> length [9, 9, 9, 9, 9 :: u8]" "0 + length [3, 2, 5, 0xA0 :: u8] \<le> length [9, 9, 9, 9, 9 :: u8]" by simp_all
  have two: "length [4, 0 :: u8] = 2" by simp
  have "completes (\<lambda>b pos start. mbedtls_asn1_write_algorithm_identifier b pos start [42] (length [4, 0 :: u8])) [4, 0]
      (der 0x30 (der 6 [42] @ [4, 0]))"
    using asn1_writers_encode [of "[42]" "[4, 0]" 0 8] by simp
  note this [unfolded two]
  moreover have "der 0x30 (der 6 [42] @ [4, 0]) = [0x30, 5, 6, 1, 42, 4, 0]" by code_simp
  ultimately have c: "completes (\<lambda>b pos start. mbedtls_asn1_write_algorithm_identifier b pos start [42] 2) [4, 0] [0x30, 5, 6, 1, 42, 4, 0]" by simp
  have "mbedtls_asn1_write_algorithm_identifier ([9, 9, 9, 9, 9, 9] @ [4, 0] @ [9]) (length [9, 9, 9, 9, 9, 9 :: u8]) 0 [42] 2 =
      Some (int (length [0x30, 5, 6, 1, 42, 4, 0 :: u8]), 1, take 1 [9, 9, 9, 9, 9, 9] @ [0x30, 5, 6, 1, 42, 4, 0] @ [9])"
    using c unfolding completes_def Let_def by (elim allE [of _ "[9, 9, 9, 9, 9, 9]"] allE [of _ "[9]"] allE [of _ 0]) simp
  then show ?thesis using writesD(1) [OF w s, of "[9]"] by (simp add: eval_nat_numeral)
qed

text \<open>C35. Reading an integer back: for every value of a nonnegative \<open>int\<close> and every buffer with seven bytes of
  room, the reader returns the value the writer was given and stops behind it.\<close>

theorem asn1_int_roundtrip:
  assumes "v < 2 ^ 31" and "start + 7 \<le> length a"
  shows "\<exists>n pos b. mbedtls_asn1_write_int (a @ z) (length a) start (int v) = Some (int n, pos, b) \<and> pos + n = length a \<and>
    mbedtls_asn1_get_int b pos (length b) w0 = Some (0, length a, int v)"
proof -
  let ?e = "der 2 (int_digits v)" and ?a = "take (length a - length (der 2 (int_digits v))) a"
  have "length ?e \<le> 7" using length_int_digits [OF assms(1)] by (simp add: der_def der_len_def)
  then have room: "start + length ?e \<le> length a" "start \<le> length a" using assms(2) by simp_all
  have W: "mbedtls_asn1_write_int (a @ z) (length a) start (int v) = Some (int (length ?e), length a - length ?e, ?a @ ?e @ z)"
    unfolding mbedtls_asn1_write_int_def by (rule writesD(1) [OF write_int_spec [OF assms(1)] room(2,1)])
  let ?b = "?a @ ?e @ z"
  have la: "length ?a = length a - length ?e" by simp
  have le: "length ?a \<le> length ?b" by simp
  have d: "der_int 2 (win ?b (length ?a) (length ?b)) = Some (v, z)" unfolding win_written using der_int_digits [OF assms(1), of 2 z] by simp
  have n: "length ?b - length z = length a" "length a - length ?e + length ?e = length a" using room by simp_all
  from get_tagged_int_spec [OF le order.refl, of 2 w0] have "mbedtls_asn1_get_int ?b (length ?a) (length ?b) w0 = Some (0, length ?b - length z, int v)"
    unfolding d mbedtls_asn1_get_int_def by simp
  note R = this [unfolded n(1)]
  show ?thesis by (rule exI, rule exI, rule exI, intro conjI, rule W, rule n(2), rule R [unfolded la])
qed

theorem asn1_int_roundtrip_witness:
  "\<exists>n pos b. mbedtls_asn1_write_int ([0, 0, 0, 0, 0, 0, 0] @ [9]) 7 0 300 = Some (int n, pos, b) \<and> pos + n = 7 \<and>
    mbedtls_asn1_get_int b pos (length b) 0 = Some (0, 7, 300)"
proof -
  have l: "0 + 7 \<le> length [0, 0, 0, 0, 0, 0, 0 :: u8]" by simp
  have n: "length [0, 0, 0, 0, 0, 0, 0 :: u8] = 7" by simp
  from asn1_int_roundtrip [OF _ l, of 300 "[9]" 0] show ?thesis unfolding n by simp
qed

text \<open>C36. Reading an algorithm identifier back: the reader that insists on absent or null parameters accepts what
  the writer produced and points at the identifier.\<close>

theorem asn1_alg_roundtrip:
  assumes "length oid + 20 < 2 ^ 31" and "start + length oid + 20 \<le> length a"
  shows "\<exists>n pos b alg. mbedtls_asn1_write_algorithm_identifier (a @ z) (length a) start oid 0 = Some (int n, pos, b) \<and> pos + n = length a \<and>
    mbedtls_asn1_get_alg_null b pos (length b) alg0 = Some (0, length a, alg) \<and> points b alg 6 oid"
proof -
  let ?c = "der 6 oid @ der 5 []"
  let ?e = "der 0x30 ?c" 
  let ?a = "take (length a - length ?e) a"
  have lc: "length ?c \<le> length oid + 8" using length_der_len [of "length oid"] assms(1) by (simp add: der_def der_len_def)
  then have "length ?e \<le> length oid + 14" using length_der_len [of "length ?c"] assms(1) by (simp add: der_def [of 48])
  then have room: "start + length ?e \<le> length a" "start \<le> length a" using assms(2) by simp_all
  have "writes (\<lambda>b pos start. mbedtls_asn1_write_algorithm_identifier b pos start oid 0) ?e"
    using write_alg_spec(1) [OF assms(1)] by (simp add: mbedtls_asn1_write_algorithm_identifier_def)
  from writesD(1) [OF this room(2,1)] have W: "mbedtls_asn1_write_algorithm_identifier (a @ z) (length a) start oid 0 =
      Some (int (length ?e), length a - length ?e, ?a @ ?e @ z)" .
  let ?b = "?a @ ?e @ z"
  have la: "length ?a = length a - length ?e" by simp
  have le: "length ?a \<le> length ?b" by simp
  have t: "tlv (?e @ z) = Some (0x30, ?c, z)" "tlv ?c = Some (6, oid, der 5 [])" "tlv (der 5 []) = Some (5, [], [])"
    using assms(1) lc tlv_der [of ?c 48 z] tlv_der [of oid 6 "der 5 []"] tlv_der [of "[]" 5 "[]"] by simp_all
  have ne: "der 5 [] \<noteq> []" by (simp add: der_def)
  have d: "der_alg (win ?b (length ?a) (length ?b)) = Some (oid, Some (5, []), z)"
    unfolding win_written der_alg_def using t ne by simp
  from get_alg_spec [OF le order.refl, of alg0 zero_buf] obtain alg par where
    g: "mbedtls_asn1_get_alg ?b (length ?a) (length ?b) alg0 zero_buf = Some (0, length ?b - length z, alg, par)"
      "points ?b alg 6 oid" "points ?b par 5 []" unfolding d by auto
  have n: "length ?b - length z = length a" "length a - length ?e + length ?e = length a" using room by simp_all
  have R: "mbedtls_asn1_get_alg_null ?b (length ?a) (length ?b) alg0 = Some (0, length a, alg)"
    unfolding mbedtls_asn1_get_alg_null_def g(1) n using g(3) by (simp add: points_def)
  show ?thesis by (rule exI, rule exI, rule exI, rule exI, intro conjI, rule W, rule n(2), rule R [unfolded la], rule g(2))
qed

theorem asn1_alg_roundtrip_witness:
  "\<exists>n pos b alg. mbedtls_asn1_write_algorithm_identifier (replicate 22 0 @ []) 22 0 [42, 3] 0 = Some (int n, pos, b) \<and> pos + n = 22 \<and>
    mbedtls_asn1_get_alg_null b pos (length b) zero_buf = Some (0, 22, alg) \<and> points b alg 6 [42, 3]"
proof -
  have l: "0 + length [42, 3 :: u8] + 20 \<le> length (replicate 22 (0 :: u8))" by simp
  have n: "length (replicate 22 (0 :: u8)) = 22" by simp
  have s: "length [42, 3 :: u8] + 20 < 2 ^ 31" by simp
  from asn1_alg_roundtrip [OF s l, of "[]" zero_buf] show ?thesis unfolding n .
qed

end
