(* ===== verification/Ledger.thy ===== *)
theory Ledger
  imports OsIo
begin

text \<open>
  Accounting of resources in the trace of an \<open>io\<close>: an event says that a resource was obtained or given
  back, or is a note of its own. Objects may be reference counted, so what is held is the number of
  times a resource was obtained less the number of times it was given back.
\<close>

datatype ('r, 'x) lev = Got 'r | Gave 'r | Note 'x

type_synonym ('w, 'r, 'x) ledger = "('w, ('r, 'x) lev) io"

definition net :: "('w, 'r, 'x) ledger \<Rightarrow> 'r \<Rightarrow> int" where
  "net w r = int (count_list (trace w) (Got r)) - int (count_list (trace w) (Gave r))"

fun note_of :: "('r, 'x) lev \<Rightarrow> 'x list" where
  "note_of (Note x) = [x]"
| "note_of _ = []"

definition noted :: "('w, 'r, 'x) ledger \<Rightarrow> 'x list" where
  "noted w = concat (map note_of (trace w))"

text \<open>A call that may return a resource, one that returns it with the status 0, and a call that takes one.\<close>

definition obtain_res :: "(nat \<Rightarrow> 'r) \<Rightarrow> ('w \<Rightarrow> nat option \<times> 'w) \<Rightarrow> ('w, 'r, 'x) ledger \<Rightarrow> nat option \<times> ('w, 'r, 'x) ledger" where
  "obtain_res mk f w = (let (h, w) = call f w in (h, case h of None \<Rightarrow> w | Some h \<Rightarrow> emit (Got (mk h)) w))"

definition obtain_status ::
  "(nat \<Rightarrow> 'r) \<Rightarrow> ('w \<Rightarrow> (int \<times> nat) \<times> 'w) \<Rightarrow> ('w, 'r, 'x) ledger \<Rightarrow> (int \<times> nat) \<times> ('w, 'r, 'x) ledger" where
  "obtain_status mk f w = (let ((st, h), w) = call f w in ((st, h), if st = 0 then emit (Got (mk h)) w else w))"

definition act :: "('w \<Rightarrow> 'w) \<Rightarrow> ('w, 'e) io \<Rightarrow> ('w, 'e) io" where
  "act f w = snd (call (\<lambda>e. ((), f e)) w)"

definition init_ctx :: "'r \<Rightarrow> ('w \<Rightarrow> 'w) \<Rightarrow> ('w, 'r, 'x) ledger \<Rightarrow> ('w, 'r, 'x) ledger" where
  "init_ctx r f w = emit (Got r) (act f w)"

definition give_back :: "'r \<Rightarrow> ('w \<Rightarrow> 'w) \<Rightarrow> ('w, 'r, 'x) ledger \<Rightarrow> ('w, 'r, 'x) ledger" where
  "give_back r f w = emit (Gave r) (act f w)"

section \<open>Facts\<close>

lemma net_simps [simp]:
  "net (emit (Got s) w) r = net w r + of_bool (r = s)"
  "net (emit (Gave s) w) r = net w r - of_bool (r = s)"
  "net (emit (Note x) w) r = net w r"
  "net (check c w) r = net w r"
  "net (w\<lparr>env := e\<rparr>) r = net w r"
  by (auto simp: net_def)

lemma noted_simps [simp]:
  "noted (emit (Got s) w) = noted w"
  "noted (emit (Gave s) w) = noted w"
  "noted (emit (Note x) w) = noted w @ [x]"
  "noted (check c w) = noted w"
  "noted (w\<lparr>env := e\<rparr>) = noted w"
  by (simp_all add: noted_def)

lemma call_net: "call f w = (x, w') \<Longrightarrow> oob w' = oob w \<and> noted w' = noted w \<and> (\<forall>r. net w' r = net w r)"
  by (auto simp: call_def split: prod.splits)

lemma act_net [simp]: "net (act f w) r = net w r" "noted (act f w) = noted w" "oob (act f w) = oob w" "trace (act f w) = trace w"
  by (simp_all add: act_def call_def)

lemma env_act [simp]: "env (act f w) = f (env w)"
  by (simp add: act_def)

lemma obtain_res_net:
  "obtain_res mk f w = (h, w') \<Longrightarrow>
    oob w' = oob w \<and> noted w' = noted w \<and> (\<forall>r. net w' r = net w r + (case h of None \<Rightarrow> 0 | Some h \<Rightarrow> of_bool (r = mk h)))"
  by (auto simp: obtain_res_def call_def split: prod.splits option.splits)

lemma obtain_status_net:
  "obtain_status mk f w = ((st, h), w') \<Longrightarrow>
    oob w' = oob w \<and> noted w' = noted w \<and> (\<forall>r. net w' r = net w r + (if st = 0 then of_bool (r = mk h) else 0))"
  by (auto simp: obtain_status_def call_def split: prod.splits if_splits)

lemma give_back_net [simp]:
  "net (give_back s f w) r = net w r - of_bool (r = s)" "oob (give_back s f w) = oob w" "noted (give_back s f w) = noted w"
  "trace (give_back s f w) = trace w @ [Gave s]" "env (give_back s f w) = f (env w)"
  by (simp_all add: give_back_def)

lemma init_ctx_net [simp]:
  "net (init_ctx s f w) r = net w r + of_bool (r = s)" "oob (init_ctx s f w) = oob w" "noted (init_ctx s f w) = noted w"
  "trace (init_ctx s f w) = trace w @ [Got s]" "env (init_ctx s f w) = f (env w)"
  by (simp_all add: init_ctx_def)

text \<open>The word of an \<open>fd_set\<close> of 32 words that holds the bit of a descriptor.\<close>

lemma fd_word: "(fd::int) < 1024 \<Longrightarrow> fd div 32 < 32"
  by presburger

end
