(* ===== verification/RsaSign.thy ===== *)
theory RsaSign
  imports Ledger
begin

text \<open>
  The RSA signing backends: \<open>internal/rsasign/rsasign_darwin.c\<close> (Security.framework),
  \<open>rsasign_windows.c\<close> (CNG) and \<open>internal/mbedtls/rsasign_mbedtls.c\<close>. The three files have the same
  shape: load a key into a handle, sign digests with it, free it.

  The libraries they call come as a record of functions per backend. Resources obtained and given back are
  events of the trace; a private key blob that is overwritten leaves the note \<open>Wiped\<close>.
  An output parameter that was not written is \<open>None\<close>.
\<close>

section \<open>Resources\<close>

datatype rs_res = CFObj nat | Blob nat | Heap nat | AlgHandle nat | KeyHandle nat
  | PkCtx nat | EntropyCtx nat | DrbgCtx nat

datatype rs_note = Wiped nat

type_synonym 'w rs = "('w, rs_res, rs_note) ledger"

definition RSASIGN_OK :: int where "RSASIGN_OK = 0"
definition RSASIGN_ERR_LOAD :: int where "RSASIGN_ERR_LOAD = - 1"
definition RSASIGN_ERR_SIGN :: int where "RSASIGN_ERR_SIGN = - 2"
definition RSASIGN_ERR_SPACE :: int where "RSASIGN_ERR_SPACE = - 3"

lemmas rsasign_codes = RSASIGN_OK_def RSASIGN_ERR_LOAD_def RSASIGN_ERR_SIGN_def RSASIGN_ERR_SPACE_def

section \<open>Security.framework\<close>

text \<open>\<open>SecKeyCreateWithData\<close> and \<open>SecKeyCreateSignature\<close> return an object, or \<open>NULL\<close> and perhaps an error object.\<close>

record 'w sec_api =
  CFDataCreate :: "bytes \<Rightarrow> 'w \<Rightarrow> nat option \<times> 'w"
  CFDictionaryCreate :: "'w \<Rightarrow> nat option \<times> 'w"
  SecKeyCreateWithData :: "nat \<Rightarrow> nat \<Rightarrow> 'w \<Rightarrow> (nat option + nat) \<times> 'w"
  SecKeyCreateSignature :: "nat \<Rightarrow> nat \<Rightarrow> 'w \<Rightarrow> (nat option + nat) \<times> 'w"
  CFDataGetBytes :: "nat \<Rightarrow> 'w \<Rightarrow> bytes"
  CFRelease :: "nat \<Rightarrow> 'w \<Rightarrow> 'w"

definition cf_release :: "'w sec_api \<Rightarrow> nat \<Rightarrow> 'w rs \<Rightarrow> 'w rs" where
  "cf_release A h = give_back (CFObj h) (CFRelease A h)"

definition obtain_or_error :: "('w \<Rightarrow> (nat option + nat) \<times> 'w) \<Rightarrow> 'w rs \<Rightarrow> (nat option + nat) \<times> 'w rs" where
  "obtain_or_error f w = (let (r, w) = call f w in
     (r, case r of Inr h \<Rightarrow> emit (Got (CFObj h)) w | Inl (Some e) \<Rightarrow> emit (Got (CFObj e)) w | Inl None \<Rightarrow> w))"

definition darwin_load :: "'w sec_api \<Rightarrow> bytes \<Rightarrow> 'w rs \<Rightarrow> (int \<times> nat option) \<times> 'w rs" where
  "darwin_load A key_der w = (case obtain_res CFObj (CFDataCreate A key_der) w of
     (None, w) \<Rightarrow> ((RSASIGN_ERR_LOAD, None), w)
   | (Some data, w) \<Rightarrow> (case obtain_res CFObj (CFDictionaryCreate A) w of
       (None, w) \<Rightarrow> ((RSASIGN_ERR_LOAD, None), cf_release A data w)
     | (Some attrs, w) \<Rightarrow>
         let (key, w) = obtain_or_error (SecKeyCreateWithData A data attrs) w;
             w = cf_release A attrs w;
             w = cf_release A data w
         in case key of
              Inl err \<Rightarrow> ((RSASIGN_ERR_LOAD, None), case err of None \<Rightarrow> w | Some e \<Rightarrow> cf_release A e w)
            | Inr k \<Rightarrow> ((RSASIGN_OK, Some k), w)))"

text \<open>The loop that copies the signature; \<open>out\<close> has \<open>out_cap\<close> bytes.\<close>

fun copy_sig :: "bytes \<Rightarrow> bytes \<Rightarrow> nat \<Rightarrow> bytes" where
  "copy_sig out [] i = out"
| "copy_sig out (c # p) i = copy_sig (out[i := c]) p (i + 1)"

definition darwin_sign :: "'w sec_api \<Rightarrow> nat \<Rightarrow> bytes \<Rightarrow> bytes \<Rightarrow> 'w rs \<Rightarrow> (int \<times> bytes \<times> nat option) \<times> 'w rs" where
  "darwin_sign A key digest out w = (case obtain_res CFObj (CFDataCreate A digest) w of
     (None, w) \<Rightarrow> ((RSASIGN_ERR_SIGN, out, None), w)
   | (Some d, w) \<Rightarrow>
       let (sig, w) = obtain_or_error (SecKeyCreateSignature A key d) w;
           w = cf_release A d w
       in case sig of
            Inl err \<Rightarrow> ((RSASIGN_ERR_SIGN, out, None), case err of None \<Rightarrow> w | Some e \<Rightarrow> cf_release A e w)
          | Inr sig \<Rightarrow>
              let p = CFDataGetBytes A sig (env w); n = length p
              in if n > length out then ((RSASIGN_ERR_SPACE, out, None), cf_release A sig w)
                 else
                   let out = copy_sig out p 0; w = check (n \<le> length out) w; w = cf_release A sig w
                   in ((RSASIGN_OK, out, Some n), w))"

definition darwin_free :: "'w sec_api \<Rightarrow> nat option \<Rightarrow> 'w rs \<Rightarrow> 'w rs" where
  "darwin_free A key w = (case key of None \<Rightarrow> w | Some k \<Rightarrow> cf_release A k w)"

section \<open>CNG\<close>

record rsasign_win_key =
  wk_addr :: nat
  wk_alg :: "nat option"
  wk_key :: "nat option"
  wk_bits :: nat

text \<open>Calls that report a status return it with their result; status 0 is \<open>STATUS_SUCCESS\<close>. Signing reports the
  bytes it put into the buffer.\<close>

record 'w cng_api =
  CryptDecodeObjectEx :: "bytes \<Rightarrow> 'w \<Rightarrow> nat option \<times> 'w"
  win_calloc :: "'w \<Rightarrow> nat option \<times> 'w"
  BCryptOpenAlgorithmProvider :: "'w \<Rightarrow> (int \<times> nat) \<times> 'w"
  BCryptImportKeyPair :: "nat \<Rightarrow> nat \<Rightarrow> 'w \<Rightarrow> (int \<times> nat) \<times> 'w"
  BCryptGetProperty :: "nat \<Rightarrow> 'w \<Rightarrow> (int \<times> nat) \<times> 'w"
  BCryptSignHashSize :: "nat \<Rightarrow> bytes \<Rightarrow> 'w \<Rightarrow> (int \<times> nat) \<times> 'w"
  BCryptSignHash :: "nat \<Rightarrow> bytes \<Rightarrow> nat \<Rightarrow> 'w \<Rightarrow> (int \<times> bytes) \<times> 'w"
  BCryptDestroyKey :: "nat \<Rightarrow> 'w \<Rightarrow> 'w"
  BCryptCloseAlgorithmProvider :: "nat \<Rightarrow> 'w \<Rightarrow> 'w"
  LocalFree :: "nat \<Rightarrow> 'w \<Rightarrow> 'w"
  win_free :: "nat \<Rightarrow> 'w \<Rightarrow> 'w"

text \<open>Lengths are cut to the 32 bits of a \<open>DWORD\<close>.\<close>

definition dword :: "bytes \<Rightarrow> bytes" where
  "dword xs = take (length xs mod 4294967296) xs"

definition win_load :: "'w cng_api \<Rightarrow> bytes option \<Rightarrow> 'w rs \<Rightarrow> (int \<times> rsasign_win_key option) \<times> 'w rs" where
  "win_load A key_der w = (case key_der of
     None \<Rightarrow> ((RSASIGN_ERR_LOAD, None), w)
   | Some der \<Rightarrow>
     if length der = 0 then ((RSASIGN_ERR_LOAD, None), w)
     else case obtain_res Blob (CryptDecodeObjectEx A (dword der)) w of
       (None, w) \<Rightarrow> ((RSASIGN_ERR_LOAD, None), w)
     | (Some blob, w) \<Rightarrow> (case obtain_res Heap (win_calloc A) w of
         (None, w) \<Rightarrow> ((RSASIGN_ERR_LOAD, None), give_back (Blob blob) (LocalFree A blob) w)
       | (Some k, w) \<Rightarrow>
           let ((st, alg), w) = obtain_status AlgHandle (BCryptOpenAlgorithmProvider A) w
           in if st \<noteq> 0 then
                let w = give_back (Blob blob) (LocalFree A blob) w; w = give_back (Heap k) (win_free A k) w
                in ((RSASIGN_ERR_LOAD, None), w)
              else
                let ((st, key), w) = obtain_status KeyHandle (BCryptImportKeyPair A alg blob) w;
                    w = emit (Note (Wiped blob)) w;
                    w = give_back (Blob blob) (LocalFree A blob) w
                in if st \<noteq> 0 then
                     let w = give_back (AlgHandle alg) (BCryptCloseAlgorithmProvider A alg) w; w = give_back (Heap k) (win_free A k) w
                     in ((RSASIGN_ERR_LOAD, None), w)
                   else
                     let ((st, bits), w) = call (BCryptGetProperty A key) w
                     in if st \<noteq> 0 \<or> bits = 0 then
                          let w = give_back (KeyHandle key) (BCryptDestroyKey A key) w;
                              w = give_back (AlgHandle alg) (BCryptCloseAlgorithmProvider A alg) w;
                              w = give_back (Heap k) (win_free A k) w
                          in ((RSASIGN_ERR_LOAD, None), w)
                        else ((RSASIGN_OK, Some \<lparr>wk_addr = k, wk_alg = Some alg, wk_key = Some key, wk_bits = bits\<rparr>), w)))"

definition win_sign ::
  "'w cng_api \<Rightarrow> rsasign_win_key option \<Rightarrow> bytes \<Rightarrow> bytes \<Rightarrow> 'w rs \<Rightarrow> (int \<times> bytes \<times> nat option) \<times> 'w rs" where
  "win_sign A key digest out w = (case key of
     None \<Rightarrow> ((RSASIGN_ERR_SIGN, out, None), w)
   | Some k \<Rightarrow>
       let h = (case wk_key k of None \<Rightarrow> 0 | Some h \<Rightarrow> h);
           ((st, needed), w) = call (BCryptSignHashSize A h (dword digest)) w
       in if st \<noteq> 0 then ((RSASIGN_ERR_SIGN, out, None), w)
          else if needed > length out then ((RSASIGN_ERR_SPACE, out, None), w)
          else
            let ((st, sig), w) = call (BCryptSignHash A h (dword digest) needed) w;
                w = check (length sig \<le> needed) w;
                out = put out 0 sig
            in if st \<noteq> 0 then ((RSASIGN_ERR_SIGN, out, None), w) else ((RSASIGN_OK, out, Some (length sig)), w))"

definition win_rsa_free :: "'w cng_api \<Rightarrow> rsasign_win_key option \<Rightarrow> 'w rs \<Rightarrow> 'w rs" where
  "win_rsa_free A key w = (case key of
     None \<Rightarrow> w
   | Some k \<Rightarrow>
       let w = (case wk_key k of None \<Rightarrow> w | Some h \<Rightarrow> give_back (KeyHandle h) (BCryptDestroyKey A h) w);
           w = (case wk_alg k of None \<Rightarrow> w | Some a \<Rightarrow> give_back (AlgHandle a) (BCryptCloseAlgorithmProvider A a) w)
       in give_back (Heap (wk_addr k)) (win_free A (wk_addr k)) w)"

section \<open>mbedTLS\<close>

definition MBED_RSASIGN_OK :: int where "MBED_RSASIGN_OK = 0"
definition MBED_RSASIGN_ERR_ALLOC :: int where "MBED_RSASIGN_ERR_ALLOC = - 1"
definition MBED_RSASIGN_ERR_SEED :: int where "MBED_RSASIGN_ERR_SEED = - 2"
definition MBED_RSASIGN_ERR_PARSE :: int where "MBED_RSASIGN_ERR_PARSE = - 3"
definition MBED_RSASIGN_ERR_NOT_RSA :: int where "MBED_RSASIGN_ERR_NOT_RSA = - 4"
definition MBED_RSASIGN_ERR_SIGN :: int where "MBED_RSASIGN_ERR_SIGN = - 5"
definition MBED_RSASIGN_ERR_SPACE :: int where "MBED_RSASIGN_ERR_SPACE = - 6"

lemmas mbed_rsasign_codes = MBED_RSASIGN_OK_def MBED_RSASIGN_ERR_ALLOC_def MBED_RSASIGN_ERR_SEED_def
  MBED_RSASIGN_ERR_PARSE_def MBED_RSASIGN_ERR_NOT_RSA_def MBED_RSASIGN_ERR_SIGN_def MBED_RSASIGN_ERR_SPACE_def

text \<open>The contexts are parts of the allocated structure and are named by its address. \<open>sig_max\<close> is
  \<open>MBEDTLS_PK_SIGNATURE_MAX_SIZE\<close>.\<close>

record 'w mbed_api =
  mbed_calloc :: "'w \<Rightarrow> nat option \<times> 'w"
  mbed_free :: "nat \<Rightarrow> 'w \<Rightarrow> 'w"
  pk_init :: "nat \<Rightarrow> 'w \<Rightarrow> 'w"
  entropy_init :: "nat \<Rightarrow> 'w \<Rightarrow> 'w"
  ctr_drbg_init :: "nat \<Rightarrow> 'w \<Rightarrow> 'w"
  pk_free :: "nat \<Rightarrow> 'w \<Rightarrow> 'w"
  entropy_free :: "nat \<Rightarrow> 'w \<Rightarrow> 'w"
  ctr_drbg_free :: "nat \<Rightarrow> 'w \<Rightarrow> 'w"
  ctr_drbg_seed :: "nat \<Rightarrow> bytes \<Rightarrow> 'w \<Rightarrow> int \<times> 'w"
  pk_parse_key :: "nat \<Rightarrow> bytes \<Rightarrow> 'w \<Rightarrow> int \<times> 'w"
  pk_can_do_rsa :: "nat \<Rightarrow> 'w \<Rightarrow> bool"
  pk_get_bitlen :: "nat \<Rightarrow> 'w \<Rightarrow> nat"
  pk_sign :: "nat \<Rightarrow> bytes \<Rightarrow> nat \<Rightarrow> 'w \<Rightarrow> (int \<times> bytes) \<times> 'w"
  sig_max :: nat

text \<open>\<open>tinygodriver-rsasign\<close>\<close>

definition rsasign_pers :: bytes where
  "rsasign_pers = [116, 105, 110, 121, 103, 111, 100, 114, 105, 118, 101, 114, 45, 114, 115, 97, 115, 105, 103, 110]"

text \<open>The four calls every failing path of the loader makes.\<close>

definition mbed_load_undo :: "'w mbed_api \<Rightarrow> nat \<Rightarrow> 'w rs \<Rightarrow> 'w rs" where
  "mbed_load_undo A k w =
    (let w = give_back (DrbgCtx k) (ctr_drbg_free A k) w;
         w = give_back (EntropyCtx k) (entropy_free A k) w;
         w = give_back (PkCtx k) (pk_free A k) w
     in give_back (Heap k) (mbed_free A k) w)"

definition mbedtls_rsasign_load :: "'w mbed_api \<Rightarrow> bytes \<Rightarrow> 'w rs \<Rightarrow> (int \<times> nat option) \<times> 'w rs" where
  "mbedtls_rsasign_load A key_der w = (case obtain_res Heap (mbed_calloc A) w of
     (None, w) \<Rightarrow> ((MBED_RSASIGN_ERR_ALLOC, None), w)
   | (Some k, w) \<Rightarrow>
       let w = init_ctx (PkCtx k) (pk_init A k) w;
           w = init_ctx (EntropyCtx k) (entropy_init A k) w;
           w = init_ctx (DrbgCtx k) (ctr_drbg_init A k) w;
           (rc, w) = call (ctr_drbg_seed A k rsasign_pers) w
       in if rc \<noteq> 0 then ((MBED_RSASIGN_ERR_SEED, None), mbed_load_undo A k w)
          else
            let (rc, w) = call (pk_parse_key A k key_der) w
            in if rc \<noteq> 0 then ((MBED_RSASIGN_ERR_PARSE, None), mbed_load_undo A k w)
               else if \<not> pk_can_do_rsa A k (env w) then ((MBED_RSASIGN_ERR_NOT_RSA, None), mbed_load_undo A k w)
               else ((MBED_RSASIGN_OK, Some k), w))"

definition mbedtls_rsasign_bits :: "'w mbed_api \<Rightarrow> nat option \<Rightarrow> 'w rs \<Rightarrow> int" where
  "mbedtls_rsasign_bits A key w = (case key of None \<Rightarrow> MBED_RSASIGN_ERR_PARSE | Some k \<Rightarrow> sint (word_of_nat (pk_get_bitlen A k (env w)) :: 32 word))"

definition mbedtls_rsasign_sign :: "'w mbed_api \<Rightarrow> nat option \<Rightarrow> bytes \<Rightarrow> bytes \<Rightarrow> 'w rs \<Rightarrow> (int \<times> bytes \<times> nat option) \<times> 'w rs" where
  "mbedtls_rsasign_sign A key digest out w = (case key of
     None \<Rightarrow> ((MBED_RSASIGN_ERR_SIGN, out, None), w)
   | Some k \<Rightarrow>
       let ((rc, sig), w) = call (pk_sign A k digest (sig_max A)) w;
           w = check (length sig \<le> sig_max A) w
       in if rc \<noteq> 0 then ((MBED_RSASIGN_ERR_SIGN, out, None), w)
          else if length sig > length out then ((MBED_RSASIGN_ERR_SPACE, out, None), w)
          else ((MBED_RSASIGN_OK, put out 0 sig, Some (length sig)), w))"

definition mbedtls_rsasign_free :: "'w mbed_api \<Rightarrow> nat option \<Rightarrow> 'w rs \<Rightarrow> 'w rs" where
  "mbedtls_rsasign_free A key w = (case key of
     None \<Rightarrow> w
   | Some k \<Rightarrow>
       let w = give_back (PkCtx k) (pk_free A k) w;
           w = give_back (DrbgCtx k) (ctr_drbg_free A k) w;
           w = give_back (EntropyCtx k) (entropy_free A k) w
       in give_back (Heap k) (mbed_free A k) w)"

end
