(* ===== verification/RsaSign_Correct.thy ===== *)
theory RsaSign_Correct
  imports RsaSign
begin

text \<open>
  The contract the three signing backends share, as a locale over load, sign and free, and its
  interpretation on each of them: what a call obtains it gives back, a loaded key owns what freeing it
  gives back, and a signature never leaves the buffer of its caller.
\<close>

section \<open>Accounting\<close>

lemma obtain_or_error_net:
  "obtain_or_error f w = (x, w') \<Longrightarrow>
    oob w' = oob w \<and> (\<forall>r. net w' r = net w r +
      (case x of Inr h \<Rightarrow> of_bool (r = CFObj h) | Inl (Some e) \<Rightarrow> of_bool (r = CFObj e) | Inl None \<Rightarrow> 0))"
  by (auto simp: obtain_or_error_def call_def split: prod.splits option.splits sum.splits)

lemma cf_release_net [simp]:
  "net (cf_release A h w) r = net w r - of_bool (r = CFObj h)" "oob (cf_release A h w) = oob w"
  by (simp_all add: cf_release_def)

lemma mbed_load_undo_net [simp]:
  "net (mbed_load_undo A k w) r = net w r - of_bool (r = Heap k) - of_bool (r = PkCtx k) - of_bool (r = EntropyCtx k) - of_bool (r = DrbgCtx k)"
  "oob (mbed_load_undo A k w) = oob w"
  by (simp_all add: mbed_load_undo_def)

lemma copy_sig_put: "i + length p \<le> length out \<Longrightarrow> copy_sig out p i = put out i p"
proof (induction p arbitrary: out i)
  case Nil
  then show ?case by (simp add: put_def)
next
  case (Cons c p)
  then show ?case
    by (simp add: put_def take_Suc_conv_app_nth)
qed

section \<open>The contract of a backend\<close>

text \<open>What a client does with a key: it signs a number of digests, each into a buffer of its own, and frees the key.\<close>

fun signs :: "('k \<Rightarrow> bytes \<Rightarrow> bytes \<Rightarrow> 'w rs \<Rightarrow> (int \<times> bytes \<times> nat option) \<times> 'w rs) \<Rightarrow> 'k \<Rightarrow> (bytes \<times> bytes) list \<Rightarrow> 'w rs \<Rightarrow> (int \<times> bytes \<times> nat option) list \<times> 'w rs" where
  "signs sign k [] w = ([], w)"
| "signs sign k ((digest, out) # js) w = (let (x, w) = sign k digest out w; (xs, w) = signs sign k js w in (x # xs, w))"

definition rs_session ::
  "('d \<Rightarrow> 'w rs \<Rightarrow> (int \<times> 'k option) \<times> 'w rs)
   \<Rightarrow> ('k \<Rightarrow> bytes \<Rightarrow> bytes \<Rightarrow> 'w rs \<Rightarrow> (int \<times> bytes \<times> nat option) \<times> 'w rs)
   \<Rightarrow> ('k \<Rightarrow> 'w rs \<Rightarrow> 'w rs) \<Rightarrow> 'd \<Rightarrow> (bytes \<times> bytes) list \<Rightarrow> 'w rs \<Rightarrow> int \<times> (int \<times> bytes \<times> nat option) list \<times> 'w rs" where
  "rs_session load sign release d js w = (case load d w of
     ((rc, None), w) \<Rightarrow> (rc, [], w)
   | ((rc, Some k), w) \<Rightarrow> let (xs, w) = signs sign k js w in (rc, xs, release k w))"

definition answer :: "bytes \<times> bytes \<Rightarrow> int \<times> bytes \<times> nat option \<Rightarrow> bool" where
  "answer j x \<longleftrightarrow> (case (j, x) of ((_, out), rc, out', n) \<Rightarrow>
     length out' = length out \<and>
     (case n of None \<Rightarrow> rc < 0 | Some m \<Rightarrow> rc = 0 \<and> m \<le> length out \<and> drop m out' = drop m out))"

definition served :: "(bytes \<times> bytes) list \<Rightarrow> 'w rs \<Rightarrow> int \<times> (int \<times> bytes \<times> nat option) list \<times> 'w rs \<Rightarrow> bool" where
  "served js w x \<longleftrightarrow> (case x of (rc, xs, w') \<Rightarrow> oob w' = oob w \<and> (rc < 0 \<and> xs = [] \<or> rc = 0 \<and> list_all2 answer js xs))"

text \<open>
  \<open>owned k\<close> is what a loaded key holds: exactly what freeing it gives back. \<open>lib_ok\<close> is what the
  library documents of the signatures it writes.
\<close>

locale rsa_backend =
  fixes load :: "'d \<Rightarrow> 'w rs \<Rightarrow> (int \<times> 'k option) \<times> 'w rs"
    and sign :: "'k \<Rightarrow> bytes \<Rightarrow> bytes \<Rightarrow> 'w rs \<Rightarrow> (int \<times> bytes \<times> nat option) \<times> 'w rs"
    and release :: "'k \<Rightarrow> 'w rs \<Rightarrow> 'w rs"
    and owned :: "'k \<Rightarrow> rs_res \<Rightarrow> int"
    and lib_ok :: bool
  assumes load_law: "load d w = ((rc, ko), w') \<Longrightarrow>
      oob w' = oob w \<and> rc \<le> 0 \<and> (rc = 0 \<longleftrightarrow> ko \<noteq> None)
      \<and> (\<forall>r. net w' r = net w r + (case ko of None \<Rightarrow> 0 | Some k \<Rightarrow> owned k r))"
    and sign_net: "sign k digest out w = ((rc, out', n), w') \<Longrightarrow> rc \<le> 0 \<and> (rc = 0 \<longleftrightarrow> n \<noteq> None) \<and> (\<forall>r. net w' r = net w r)"
    and sign_law: "lib_ok \<Longrightarrow> sign k digest out w = ((rc, out', n), w') \<Longrightarrow>
      oob w' = oob w \<and> length out' = length out
      \<and> (\<forall>m. n = Some m \<longrightarrow> m \<le> length out \<and> drop m out' = drop m out)"
    and release_law: "oob (release k w) = oob w \<and> net (release k w) r = net w r - owned k r"
begin

lemma signs_net: "signs sign k js w = (xs, w') \<Longrightarrow> net w' r = net w r"
proof (induction js arbitrary: xs w)
  case (Cons j js)
  then show ?case by (cases j) (auto split: prod.splits dest: sign_net)
qed simp

lemma sign_answer: "lib_ok \<Longrightarrow> sign k digest out w = (x, w') \<Longrightarrow> answer (digest, out) x \<and> oob w' = oob w"
  using sign_net sign_law by (cases x) (fastforce simp: answer_def split: option.splits)

lemma signs_answer: "lib_ok \<Longrightarrow> signs sign k js w = (xs, w') \<Longrightarrow> list_all2 answer js xs \<and> oob w' = oob w"
proof (induction js arbitrary: xs w)
  case (Cons j js)
  then show ?case by (cases j) (auto split: prod.splits dest: sign_answer)
qed simp

lemma rs_session_net: "rs_session load sign release d js w = (rc, xs, w') \<Longrightarrow> net w' r = net w r"
  by (auto simp: rs_session_def release_law split: prod.splits option.splits dest!: load_law signs_net [where r = r])

lemma rs_session_answer:
  "lib_ok \<Longrightarrow> rs_session load sign release d js w = (rc, xs, w') \<Longrightarrow> oob w' = oob w \<and> (rc < 0 \<and> xs = [] \<or> rc = 0 \<and> list_all2 answer js xs)"
  by (auto simp: rs_session_def release_law split: prod.splits option.splits dest!: load_law signs_answer)

lemma rs_session_balanced: "net (snd (snd (rs_session load sign release d js w))) r = net w r"
  using rs_session_net by (cases "rs_session load sign release d js w") simp

lemma rs_session_served: "lib_ok \<Longrightarrow> served js w (rs_session load sign release d js w)"
  using rs_session_answer by (auto simp: served_def split: prod.split)

end

section \<open>The three backends keep the contract\<close>

lemmas rs_steps = obtain_res_net obtain_or_error_net obtain_status_net call_net

definition darwin_owned :: "nat \<Rightarrow> rs_res \<Rightarrow> int" where
  "darwin_owned k r = of_bool (r = CFObj k)"

lemma darwin_load_law:
  "darwin_load A d w = ((rc, k), w') \<Longrightarrow>
    oob w' = oob w \<and> rc \<le> 0 \<and> (rc = 0 \<longleftrightarrow> k \<noteq> None) \<and> (\<forall>r. net w' r = net w r + (case k of None \<Rightarrow> 0 | Some k \<Rightarrow> darwin_owned k r))"
  by (auto simp: darwin_load_def darwin_owned_def rsasign_codes Let_def split: prod.splits option.splits sum.splits dest!: rs_steps)

lemma darwin_sign_law:
  "darwin_sign A k digest out w = ((rc, out', n), w') \<Longrightarrow>
    rc \<le> 0 \<and> (rc = 0 \<longleftrightarrow> n \<noteq> None) \<and> (\<forall>r. net w' r = net w r) \<and> oob w' = oob w \<and> length out' = length out
    \<and> (\<forall>m. n = Some m \<longrightarrow> m \<le> length out \<and> drop m out' = drop m out)"
  by (auto simp: darwin_sign_def Let_def rsasign_codes copy_sig_put fits_def put_def
      split: prod.splits option.splits sum.splits if_splits dest!: rs_steps)

interpretation darwin_rsa: rsa_backend "darwin_load A" "darwin_sign A" "\<lambda>k. darwin_free A (Some k)" darwin_owned True
  by unfold_locales (auto simp: darwin_free_def darwin_owned_def dest: darwin_load_law darwin_sign_law)

definition win_owned :: "rsasign_win_key \<Rightarrow> rs_res \<Rightarrow> int" where
  "win_owned k r = of_bool (r = Heap (wk_addr k)) + of_bool (\<exists>h. wk_key k = Some h \<and> r = KeyHandle h)
     + of_bool (\<exists>a. wk_alg k = Some a \<and> r = AlgHandle a)"

text \<open>\<open>BCryptSignHash\<close> writes no more than the size it is given, whatever it returns.\<close>

definition cng_ok :: "'w cng_api \<Rightarrow> bool" where
  "cng_ok A \<longleftrightarrow> (\<forall>h digest n e. length (snd (fst (BCryptSignHash A h digest n e))) \<le> n)"

lemma cng_signature:
  "cng_ok A \<Longrightarrow> length (snd (fst (BCryptSignHash A h digest n e))) \<le> n"
  by (simp add: cng_ok_def)

lemma win_load_law:
  "win_load A d w = ((rc, k), w') \<Longrightarrow>
    oob w' = oob w \<and> rc \<le> 0 \<and> (rc = 0 \<longleftrightarrow> k \<noteq> None) \<and> (\<forall>r. net w' r = net w r + (case k of None \<Rightarrow> 0 | Some k \<Rightarrow> win_owned k r))"
  by (auto simp: win_load_def win_owned_def rsasign_codes Let_def split: prod.splits option.splits if_splits dest!: rs_steps)

lemma win_sign_net:
  "win_sign A (Some k) digest out w = ((rc, out', n), w') \<Longrightarrow> rc \<le> 0 \<and> (rc = 0 \<longleftrightarrow> n \<noteq> None) \<and> (\<forall>r. net w' r = net w r)"
  by (auto simp: win_sign_def rsasign_codes Let_def split: prod.splits option.splits if_splits dest!: rs_steps)

lemma win_sign_law:
  "cng_ok A \<Longrightarrow> win_sign A (Some k) digest out w = ((rc, out', n), w') \<Longrightarrow>
    oob w' = oob w \<and> length out' = length out \<and> (\<forall>m. n = Some m \<longrightarrow> m \<le> length out \<and> drop m out' = drop m out)"
  by (auto simp: win_sign_def rsasign_codes Let_def put_def call_def prod.case_eq_if
        cng_signature cng_signature [THEN order_trans] split: option.splits if_splits)

lemma win_free_law: "oob (win_rsa_free A (Some k) w) = oob w \<and> net (win_rsa_free A (Some k) w) r = net w r - win_owned k r"
  by (auto simp: win_rsa_free_def win_owned_def Let_def split: option.splits)

interpretation win_rsa: rsa_backend "win_load A" "\<lambda>k. win_sign A (Some k)" "\<lambda>k. win_rsa_free A (Some k)" win_owned "cng_ok A"
  by unfold_locales (auto simp: win_free_law dest: win_load_law win_sign_net win_sign_law)

definition mbed_owned :: "nat \<Rightarrow> rs_res \<Rightarrow> int" where
  "mbed_owned k r = of_bool (r = Heap k) + of_bool (r = PkCtx k) + of_bool (r = EntropyCtx k) + of_bool (r = DrbgCtx k)"

text \<open>\<open>mbedtls_pk_sign\<close> writes no more than \<open>MBEDTLS_PK_SIGNATURE_MAX_SIZE\<close>.\<close>

definition mbed_ok :: "'w mbed_api \<Rightarrow> bool" where
  "mbed_ok A \<longleftrightarrow> (\<forall>k digest n e. length (snd (fst (pk_sign A k digest n e))) \<le> n)"

lemma mbed_signature:
  "mbed_ok A \<Longrightarrow> length (snd (fst (pk_sign A k digest n e))) \<le> n"
  by (simp add: mbed_ok_def)

lemma mbed_load_law:
  "mbedtls_rsasign_load A d w = ((rc, k), w') \<Longrightarrow>
    oob w' = oob w \<and> rc \<le> 0 \<and> (rc = 0 \<longleftrightarrow> k \<noteq> None) \<and> (\<forall>r. net w' r = net w r + (case k of None \<Rightarrow> 0 | Some k \<Rightarrow> mbed_owned k r))"
  by (auto simp: mbedtls_rsasign_load_def mbed_owned_def mbed_rsasign_codes Let_def
      split: prod.splits option.splits if_splits dest!: rs_steps)

lemma mbed_sign_net:
  "mbedtls_rsasign_sign A (Some k) digest out w = ((rc, out', n), w') \<Longrightarrow> rc \<le> 0 \<and> (rc = 0 \<longleftrightarrow> n \<noteq> None) \<and> (\<forall>r. net w' r = net w r)"
  by (auto simp: mbedtls_rsasign_sign_def mbed_rsasign_codes Let_def split: prod.splits option.splits if_splits dest!: rs_steps)

lemma mbed_sign_law:
  "mbed_ok A \<Longrightarrow> mbedtls_rsasign_sign A (Some k) digest out w = ((rc, out', n), w') \<Longrightarrow>
    oob w' = oob w \<and> length out' = length out \<and> (\<forall>m. n = Some m \<longrightarrow> m \<le> length out \<and> drop m out' = drop m out)"
  by (auto simp: mbedtls_rsasign_sign_def mbed_rsasign_codes Let_def put_def call_def prod.case_eq_if
        mbed_signature split: option.splits if_splits)

lemma mbed_free_law:
  "oob (mbedtls_rsasign_free A (Some k) w) = oob w \<and> net (mbedtls_rsasign_free A (Some k) w) r = net w r - mbed_owned k r"
  by (simp add: mbedtls_rsasign_free_def mbed_owned_def Let_def)

interpretation mbed_rsa: rsa_backend "mbedtls_rsasign_load A" "\<lambda>k. mbedtls_rsasign_sign A (Some k)"
  "\<lambda>k. mbedtls_rsasign_free A (Some k)" mbed_owned "mbed_ok A"
  by unfold_locales (auto simp: mbed_free_law dest: mbed_load_law mbed_sign_net mbed_sign_law)

section \<open>Properties\<close>

text \<open>C22. Whatever the platform libraries answer, a session with a signing backend - load a key, sign any
  digests into any buffers, free the key - gives back every object, handle, block and context it obtained, and
  nothing else. This holds of the Security.framework, the CNG and the mbedTLS backend, on their error paths too.\<close>

theorem rsasign_balanced:
  "net (snd (snd (rs_session (darwin_load S) (darwin_sign S) (\<lambda>k. darwin_free S (Some k)) der js w))) r = net w r
   \<and> net (snd (snd (rs_session (win_load C) (\<lambda>k. win_sign C (Some k)) (\<lambda>k. win_rsa_free C (Some k)) der' js w))) r = net w r
   \<and> net (snd (snd (rs_session (mbedtls_rsasign_load M) (\<lambda>k. mbedtls_rsasign_sign M (Some k)) (\<lambda>k. mbedtls_rsasign_free M (Some k)) der js w))) r
     = net w r"
  using darwin_rsa.rs_session_balanced win_rsa.rs_session_balanced mbed_rsa.rs_session_balanced by blast

text \<open>C23. When CNG and mbedTLS keep to the size of the signature buffer they are given, each backend answers a
  failed load with a negative code, and otherwise every signing request: either with a negative code and no length,
  or with 0 and a length within the caller's buffer, the rest of which is untouched. No access leaves its object.\<close>

theorem rsasign_answers:
  assumes "cng_ok C" "mbed_ok M"
  shows "served js w (rs_session (darwin_load S) (darwin_sign S) (\<lambda>k. darwin_free S (Some k)) der js w)
    \<and> served js w (rs_session (win_load C) (\<lambda>k. win_sign C (Some k)) (\<lambda>k. win_rsa_free C (Some k)) der' js w)
    \<and> served js w (rs_session (mbedtls_rsasign_load M) (\<lambda>k. mbedtls_rsasign_sign M (Some k)) (\<lambda>k. mbedtls_rsasign_free M (Some k)) der js w)"
  using darwin_rsa.rs_session_served [OF TrueI] win_rsa.rs_session_served [OF assms(1)] mbed_rsa.rs_session_served [OF assms(2)] by blast

definition demo_sec :: "unit sec_api" where
  "demo_sec = \<lparr>CFDataCreate = \<lambda>d w. (Some (length d), w), CFDictionaryCreate = \<lambda>w. (Some 7, w),
     SecKeyCreateWithData = \<lambda>d a w. (Inr 9, w), SecKeyCreateSignature = \<lambda>k d w. (Inr 11, w),
     CFDataGetBytes = \<lambda>d w. [1, 2, 3], CFRelease = \<lambda>h w. w\<rparr>"

definition demo_cng :: "unit cng_api" where
  "demo_cng = \<lparr>CryptDecodeObjectEx = \<lambda>d w. (Some 1, w), win_calloc = \<lambda>w. (Some 2, w),
     BCryptOpenAlgorithmProvider = \<lambda>w. ((0, 3), w), BCryptImportKeyPair = \<lambda>a b w. ((0, 4), w),
     BCryptGetProperty = \<lambda>k w. ((0, 2048), w), BCryptSignHashSize = \<lambda>k d w. ((0, 3), w),
     BCryptSignHash = \<lambda>k d n w. ((0, take n [1, 2, 3]), w), BCryptDestroyKey = \<lambda>k w. w,
     BCryptCloseAlgorithmProvider = \<lambda>a w. w, LocalFree = \<lambda>b w. w, win_free = \<lambda>b w. w\<rparr>"

definition demo_mbed :: "unit mbed_api" where
  "demo_mbed = \<lparr>mbed_calloc = \<lambda>w. (Some 1, w), mbed_free = \<lambda>k w. w, pk_init = \<lambda>k w. w, entropy_init = \<lambda>k w. w,
     ctr_drbg_init = \<lambda>k w. w, pk_free = \<lambda>k w. w, entropy_free = \<lambda>k w. w, ctr_drbg_free = \<lambda>k w. w,
     ctr_drbg_seed = \<lambda>k p w. (0, w), pk_parse_key = \<lambda>k d w. (0, w), pk_can_do_rsa = \<lambda>k w. True,
     pk_get_bitlen = \<lambda>k w. 2048, pk_sign = \<lambda>k d n w. ((0, take n [1, 2, 3]), w), sig_max = 512\<rparr>"

definition demo_rs :: "unit rs" where
  "demo_rs = \<lparr>env = (), trace = [], oob = False\<rparr>"

lemma demo_apis_ok: "cng_ok demo_cng" "mbed_ok demo_mbed"
  by (simp_all add: cng_ok_def demo_cng_def mbed_ok_def demo_mbed_def)

theorem rsasign_answers_witness:
  "cng_ok demo_cng \<and> mbed_ok demo_mbed
   \<and> served [([5], [0, 0, 0, 0]), ([6], [0])] demo_rs
      (rs_session (mbedtls_rsasign_load demo_mbed) (\<lambda>k. mbedtls_rsasign_sign demo_mbed (Some k))
        (\<lambda>k. mbedtls_rsasign_free demo_mbed (Some k)) [48] [([5], [0, 0, 0, 0]), ([6], [0])] demo_rs)
   \<and> (case rs_session (mbedtls_rsasign_load demo_mbed) (\<lambda>k. mbedtls_rsasign_sign demo_mbed (Some k))
        (\<lambda>k. mbedtls_rsasign_free demo_mbed (Some k)) [48] [([5], [0, 0, 0, 0]), ([6], [0])] demo_rs of
      (rc, xs, _) \<Rightarrow> rc = 0 \<and> xs = [(0, [1, 2, 3, 0], Some 3), (- 6, [0], None)])"
  using rsasign_answers [OF demo_apis_ok, of "[([5], [0, 0, 0, 0]), ([6], [0])]" demo_rs demo_sec "[48]" "Some [48]"] demo_apis_ok
  by (simp add: rs_session_def mbedtls_rsasign_load_def mbedtls_rsasign_sign_def demo_mbed_def obtain_res_def call_def
      put_def mbed_rsasign_codes)

text \<open>C39. A key the CNG loader returns is well formed: it has its provider handle, its key handle and a non-zero
  strength, so signing and freeing it never see a missing handle. The decoded private key is wiped right
  before it is freed.\<close>

theorem rsasign_win_key_wf:
  assumes "win_load A der w = ((rc, Some k), w')"
  shows "\<exists>blob alg key. rc = RSASIGN_OK \<and> wk_alg k = Some alg \<and> wk_key k = Some key \<and> 0 < wk_bits k
    \<and> trace w' = trace w @ [Got (Blob blob), Got (Heap (wk_addr k)), Got (AlgHandle alg), Got (KeyHandle key),
        Note (Wiped blob), Gave (Blob blob)]"
  using assms
  by (auto simp: win_load_def obtain_res_def obtain_status_def call_eq Let_def
      split: option.splits prod.splits if_splits)

theorem rsasign_win_key_wf_witness:
  "\<exists>k w'. win_load demo_cng (Some [48]) demo_rs = ((0, Some k), w')
     \<and> (\<exists>blob alg key. (0::int) = RSASIGN_OK \<and> wk_alg k = Some alg \<and> wk_key k = Some key \<and> 0 < wk_bits k
    \<and> trace w' = trace demo_rs @ [Got (Blob blob), Got (Heap (wk_addr k)), Got (AlgHandle alg), Got (KeyHandle key),
        Note (Wiped blob), Gave (Blob blob)])"
proof -
  obtain k w' where "win_load demo_cng (Some [48]) demo_rs = ((0, Some k), w')"
    by (simp add: win_load_def demo_cng_def obtain_res_def obtain_status_def call_def Let_def rsasign_codes)
  then show ?thesis using rsasign_win_key_wf [of demo_cng "Some [48]" demo_rs 0] by blast
qed

end
