(* ===== verification/SecureTransport.thy ===== *)
theory SecureTransport
  imports Ledger
begin

text \<open>
  The Secure Transport layer of \<open>internal/securetransport/securetransport.c\<close>: TLS over a socket the caller has
  connected, with the deadlines, the two I/O callbacks, the trust evaluation and the connection's life cycle.

  Secure Transport calls back into this file while it runs. One of its calls is therefore a tree: it ends with a
  result, or asks for bytes to be read or written and goes on with the callback's answer. \<open>ssl_run\<close> runs such a
  tree against the callbacks. The rest of the platform comes as a record of functions.
\<close>

section \<open>Codes\<close>

definition HTTPS_ST_OK :: int where "HTTPS_ST_OK = 0"
definition HTTPS_ST_ERR_ALLOC :: int where "HTTPS_ST_ERR_ALLOC = - 1"
definition HTTPS_ST_ERR_SETUP :: int where "HTTPS_ST_ERR_SETUP = - 2"
definition HTTPS_ST_ERR_HANDSHAKE :: int where "HTTPS_ST_ERR_HANDSHAKE = - 5"
definition HTTPS_ST_ERR_TIMEOUT :: int where "HTTPS_ST_ERR_TIMEOUT = - 6"
definition HTTPS_ST_ERR_IO :: int where "HTTPS_ST_ERR_IO = - 7"
definition HTTPS_ST_ERR_CLOSED :: int where "HTTPS_ST_ERR_CLOSED = - 8"

definition errSecSuccess :: int where "errSecSuccess = 0"
definition errSSLWouldBlock :: int where "errSSLWouldBlock = - 9803"
definition errSSLClosedGraceful :: int where "errSSLClosedGraceful = - 9805"
definition errSSLClosedAbort :: int where "errSSLClosedAbort = - 9806"
definition errSSLServerAuthCompleted :: int where "errSSLServerAuthCompleted = - 9841"
definition errSSLXCertChainInvalid :: int where "errSSLXCertChainInvalid = - 9807"
definition errSSLClosedNoNotify :: int where "errSSLClosedNoNotify = - 9816"

lemmas st_codes = HTTPS_ST_OK_def HTTPS_ST_ERR_ALLOC_def HTTPS_ST_ERR_SETUP_def HTTPS_ST_ERR_HANDSHAKE_def
  HTTPS_ST_ERR_TIMEOUT_def HTTPS_ST_ERR_IO_def HTTPS_ST_ERR_CLOSED_def

lemmas ssl_codes = errSecSuccess_def errSSLWouldBlock_def errSSLClosedGraceful_def errSSLClosedAbort_def
  errSSLServerAuthCompleted_def errSSLXCertChainInvalid_def errSSLClosedNoNotify_def

section \<open>State\<close>

text \<open>\<open>st_addr\<close> is the address of the structure, which is its handle.\<close>

record https_st =
  st_addr :: nat
  st_ctx :: "nat option"
  st_fd :: int
  st_anchors :: "nat option"
  st_ca_only :: bool
  st_skip_verify :: bool
  st_deadline_ns :: int
  st_timed_out :: bool
  st_eof :: bool

text \<open>The context as it is passed on; 0 is the null pointer.\<close>

definition ctx_of :: "https_st \<Rightarrow> nat" where
  "ctx_of s = (case st_ctx s of None \<Rightarrow> 0 | Some c \<Rightarrow> c)"

datatype st_res = StCF nat | StMem nat

text \<open>The notes record the steps of the verification of the server.\<close>

datatype st_note = BreakOnAuth | ServerAuth | SetAnchors nat nat | SetOnly nat bool | Evaluated nat bool | Appended nat nat

type_synonym 'w stio = "('w, st_res, st_note) ledger"

datatype ('w, 'a) ssl =
    Finish 'a 'w
  | AskRead nat 'w "int \<Rightarrow> bytes \<Rightarrow> 'w \<Rightarrow> ('w, 'a) ssl"
  | AskWrite bytes 'w "int \<Rightarrow> nat \<Rightarrow> 'w \<Rightarrow> ('w, 'a) ssl"

text \<open>
  \<open>st_select fd for_write timeout\<close>: the timeout is in seconds and microseconds. \<open>posix_read\<close> and \<open>posix_write\<close>
  return \<open>None\<close> for a negative result.
\<close>

record 'w st_api =
  clock_gettime :: "'w \<Rightarrow> (int \<times> int) \<times> 'w"
  st_select :: "int \<Rightarrow> bool \<Rightarrow> (int \<times> int) option \<Rightarrow> 'w \<Rightarrow> int \<times> 'w"
  posix_read :: "int \<Rightarrow> nat \<Rightarrow> 'w \<Rightarrow> bytes option \<times> 'w"
  posix_write :: "int \<Rightarrow> bytes \<Rightarrow> 'w \<Rightarrow> nat option \<times> 'w"
  st_calloc :: "'w \<Rightarrow> nat option \<times> 'w"
  st_free :: "nat \<Rightarrow> 'w \<Rightarrow> 'w"
  st_CFRelease :: "nat \<Rightarrow> 'w \<Rightarrow> 'w"
  CFArrayCreateMutable :: "'w \<Rightarrow> nat option \<times> 'w"
  st_CFDataCreate :: "bytes \<Rightarrow> 'w \<Rightarrow> nat option \<times> 'w"
  SecCertificateCreateWithData :: "nat \<Rightarrow> 'w \<Rightarrow> nat option \<times> 'w"
  CFArrayAppendValue :: "nat \<Rightarrow> nat \<Rightarrow> 'w \<Rightarrow> 'w"
  SSLCreateContext :: "'w \<Rightarrow> nat option \<times> 'w"
  SSLSetIOFuncs :: "nat \<Rightarrow> 'w \<Rightarrow> int \<times> 'w"
  SSLSetConnection :: "nat \<Rightarrow> nat \<Rightarrow> 'w \<Rightarrow> int \<times> 'w"
  SSLSetPeerDomainName :: "nat \<Rightarrow> string \<Rightarrow> 'w \<Rightarrow> int \<times> 'w"
  SSLSetProtocolVersionMin :: "nat \<Rightarrow> int \<Rightarrow> 'w \<Rightarrow> int \<times> 'w"
  SSLSetBreakOnServerAuth :: "nat \<Rightarrow> 'w \<Rightarrow> int \<times> 'w"
  SSLCopyPeerTrust :: "nat \<Rightarrow> 'w \<Rightarrow> (int \<times> nat option) \<times> 'w"
  SecTrustSetAnchorCertificates :: "nat \<Rightarrow> nat \<Rightarrow> 'w \<Rightarrow> 'w"
  SecTrustSetAnchorCertificatesOnly :: "nat \<Rightarrow> bool \<Rightarrow> 'w \<Rightarrow> 'w"
  SecTrustEvaluateWithError :: "nat \<Rightarrow> 'w \<Rightarrow> (bool \<times> nat option) \<times> 'w"
  SSLHandshake :: "nat \<Rightarrow> 'w \<Rightarrow> ('w, int) ssl"
  SSLRead :: "nat \<Rightarrow> nat \<Rightarrow> 'w \<Rightarrow> ('w, int \<times> bytes) ssl"
  SSLWrite :: "nat \<Rightarrow> bytes \<Rightarrow> 'w \<Rightarrow> ('w, int \<times> nat) ssl"
  SSLClose :: "nat \<Rightarrow> 'w \<Rightarrow> ('w, int) ssl"

section \<open>Waiting and the callbacks\<close>

definition st_now_ns :: "'w st_api \<Rightarrow> 'w stio \<Rightarrow> int \<times> 'w stio" where
  "st_now_ns A w = (let ((sec, nsec), w) = call (clock_gettime A) w in (sec * 1000000000 + nsec, w))"

text \<open>The \<open>timeval\<close> of one round: \<open>None\<close> when the deadline has passed.\<close>

definition st_tv :: "'w st_api \<Rightarrow> https_st \<Rightarrow> 'w stio \<Rightarrow> (int \<times> int) option option \<times> 'w stio" where
  "st_tv A s w = (if st_deadline_ns s \<noteq> 0 then
     let (now, w) = st_now_ns A w; remaining = st_deadline_ns s - now
     in (if remaining \<le> 0 then None else Some (Some (remaining div 1000000000, remaining mod 1000000000 div 1000)), w)
   else (Some None, w))"

text \<open>The bit \<open>FDSET_SET\<close> sets is in the word \<open>fd / 32\<close> of 32.\<close>

partial_function (option) st_wait_ready :: "'w st_api \<Rightarrow> https_st \<Rightarrow> bool \<Rightarrow> 'w stio \<Rightarrow> (int \<times> 'w stio) option" where
  "st_wait_ready A s for_write w =
    (if st_fd s < 0 \<or> st_fd s \<ge> 1024 then Some (- 1, w)
     else
       let w = check (st_fd s div 32 < 32) w;
           (tvp, w) = st_tv A s w
       in case tvp of
            None \<Rightarrow> Some (- 1, w)
          | Some tv \<Rightarrow>
              let (rc, w) = call (st_select A (st_fd s) for_write tv) w
              in if rc > 0 then Some (0, w)
                 else if rc = 0 then Some (- 1, w)
                 else st_wait_ready A s for_write w)"

partial_function (option) st_read_loop ::
  "'w st_api \<Rightarrow> nat \<Rightarrow> bytes \<Rightarrow> https_st \<Rightarrow> 'w stio \<Rightarrow> ((int \<times> bytes) \<times> https_st \<times> 'w stio) option" where
  "st_read_loop A want got s w =
    (if length got < want then do {
       (r, w) \<leftarrow> (if st_deadline_ns s \<noteq> 0 then st_wait_ready A s False w else Some (0, w));
       (if r \<noteq> 0 then Some ((errSSLWouldBlock, got), s\<lparr>st_timed_out := True\<rparr>, w)
        else
          let (n, w) = call (posix_read A (st_fd s) (want - length got)) w
          in case n of
               None \<Rightarrow> Some ((errSSLClosedAbort, got), s, w)
             | Some bs \<Rightarrow>
                 let w = check (length bs \<le> want - length got) w
                 in if bs \<noteq> [] then st_read_loop A want (got @ bs) s w
                    else Some ((errSSLClosedGraceful, got), s\<lparr>st_eof := True\<rparr>, w))
     } else Some ((errSecSuccess, got), s, w))"

definition st_read :: "'w st_api \<Rightarrow> nat \<Rightarrow> https_st \<Rightarrow> 'w stio \<Rightarrow> ((int \<times> bytes) \<times> https_st \<times> 'w stio) option" where
  "st_read A want = st_read_loop A want []"

partial_function (option) st_write_loop ::
  "'w st_api \<Rightarrow> bytes \<Rightarrow> nat \<Rightarrow> https_st \<Rightarrow> 'w stio \<Rightarrow> ((int \<times> nat) \<times> https_st \<times> 'w stio) option" where
  "st_write_loop A data sent s w =
    (if sent < length data then do {
       (r, w) \<leftarrow> (if st_deadline_ns s \<noteq> 0 then st_wait_ready A s True w else Some (0, w));
       (if r \<noteq> 0 then Some ((errSSLWouldBlock, sent), s\<lparr>st_timed_out := True\<rparr>, w)
        else
          let (n, w) = call (posix_write A (st_fd s) (drop sent data)) w
          in case n of
               None \<Rightarrow> Some ((errSSLClosedAbort, sent), s, w)
             | Some n \<Rightarrow>
                 if n > 0 then st_write_loop A data (sent + n) s w else Some ((errSSLClosedAbort, sent), s, w))
     } else Some ((errSecSuccess, sent), s, w))"

definition st_write :: "'w st_api \<Rightarrow> bytes \<Rightarrow> https_st \<Rightarrow> 'w stio \<Rightarrow> ((int \<times> nat) \<times> https_st \<times> 'w stio) option" where
  "st_write A data = st_write_loop A data 0"

primrec ssl_run :: "'w st_api \<Rightarrow> ('w, 'a) ssl \<Rightarrow> https_st \<Rightarrow> 'w stio \<Rightarrow> ('a \<times> https_st \<times> 'w stio) option" where
  "ssl_run A (Finish x e) s w = Some (x, s, w\<lparr>env := e\<rparr>)"
| "ssl_run A (AskRead n e k) s w = do {
     ((rc, bs), s, w) \<leftarrow> st_read A n s (w\<lparr>env := e\<rparr>);
     ssl_run A (k rc bs (env w)) s w }"
| "ssl_run A (AskWrite bs e k) s w = do {
     ((rc, n), s, w) \<leftarrow> st_write A bs s (w\<lparr>env := e\<rparr>);
     ssl_run A (k rc n (env w)) s w }"

section \<open>Anchors\<close>

definition st_cf_release :: "'w st_api \<Rightarrow> nat \<Rightarrow> 'w stio \<Rightarrow> 'w stio" where
  "st_cf_release A h = give_back (StCF h) (st_CFRelease A h)"

definition https_st_calist_new :: "'w st_api \<Rightarrow> 'w stio \<Rightarrow> nat option \<times> 'w stio" where
  "https_st_calist_new A = obtain_res StCF (CFArrayCreateMutable A)"

text \<open>\<open>der\<close> is \<open>None\<close> for a null pointer; otherwise \<open>len\<close> is at most its length.\<close>

definition https_st_calist_add :: "'w st_api \<Rightarrow> nat option \<Rightarrow> bytes option \<Rightarrow> int \<Rightarrow> 'w stio \<Rightarrow> int \<times> 'w stio" where
  "https_st_calist_add A list der len w = (case (list, der) of
     (Some array, Some der) \<Rightarrow>
       if len \<le> 0 then (HTTPS_ST_ERR_SETUP, w)
       else
         let w = check (nat len \<le> length der) w;
             (data, w) = obtain_res StCF (st_CFDataCreate A (take (nat len) der)) w
         in (case data of
               None \<Rightarrow> (HTTPS_ST_ERR_ALLOC, w)
             | Some data \<Rightarrow>
                 let (cert, w) = obtain_res StCF (SecCertificateCreateWithData A data) w;
                     w = st_cf_release A data w
                 in (case cert of
                       None \<Rightarrow> (HTTPS_ST_ERR_SETUP, w)
                     | Some cert \<Rightarrow>
                         let w = emit (Note (Appended array cert)) (act (CFArrayAppendValue A array cert) w);
                             w = st_cf_release A cert w
                         in (HTTPS_ST_OK, w)))
   | _ \<Rightarrow> (HTTPS_ST_ERR_SETUP, w))"

definition https_st_calist_free :: "'w st_api \<Rightarrow> nat option \<Rightarrow> 'w stio \<Rightarrow> 'w stio" where
  "https_st_calist_free A list w = (case list of None \<Rightarrow> w | Some a \<Rightarrow> st_cf_release A a w)"

section \<open>Trust\<close>

text \<open>The peer's trust object is the caller's when the call succeeded and returned one.\<close>

definition copy_peer_trust :: "'w st_api \<Rightarrow> nat \<Rightarrow> 'w stio \<Rightarrow> nat option \<times> 'w stio" where
  "copy_peer_trust A ctx w = (let ((rc, trust), w) = call (SSLCopyPeerTrust A ctx) w
     in if rc \<noteq> errSecSuccess then (None, w)
        else (case trust of None \<Rightarrow> (None, w) | Some t \<Rightarrow> (Some t, emit (Got (StCF t)) w)))"

definition evaluate_trust :: "'w st_api \<Rightarrow> https_st \<Rightarrow> 'w stio \<Rightarrow> int \<times> 'w stio" where
  "evaluate_trust A s w =
    (if st_skip_verify s then (0, w)
     else case copy_peer_trust A (ctx_of s) w of
       (None, w) \<Rightarrow> (- 1, w)
     | (Some trust, w) \<Rightarrow>
         let w = (case st_anchors s of
               None \<Rightarrow> w
             | Some a \<Rightarrow>
                 let w = emit (Note (SetAnchors trust a)) (act (SecTrustSetAnchorCertificates A trust a) w)
                 in emit (Note (SetOnly trust (st_ca_only s))) (act (SecTrustSetAnchorCertificatesOnly A trust (st_ca_only s)) w));
             ((ok, err), w) = call (SecTrustEvaluateWithError A trust) w;
             w = emit (Note (Evaluated trust ok)) w;
             w = (case err of None \<Rightarrow> w | Some e \<Rightarrow> st_cf_release A e (emit (Got (StCF e)) w));
             w = st_cf_release A trust w
         in (if ok then 0 else - 1, w))"

definition st_free_state :: "'w st_api \<Rightarrow> https_st option \<Rightarrow> 'w stio \<Rightarrow> 'w stio" where
  "st_free_state A s w = (case s of
     None \<Rightarrow> w
   | Some s \<Rightarrow>
       let w = (case st_ctx s of None \<Rightarrow> w | Some c \<Rightarrow> st_cf_release A c w)
       in give_back (StMem (st_addr s)) (st_free A (st_addr s)) w)"

section \<open>Connections\<close>

definition st_deadline_from :: "'w st_api \<Rightarrow> int \<Rightarrow> 'w stio \<Rightarrow> int \<times> 'w stio" where
  "st_deadline_from A timeout_ns w =
    (if timeout_ns > 0 then let (now, w) = st_now_ns A w in (now + timeout_ns, w) else (0, w))"

text \<open>The loop of the handshake: the code, the status and the connection, which is gone after a failure.\<close>

partial_function (option) st_handshake_loop ::
  "'w st_api \<Rightarrow> https_st \<Rightarrow> 'w stio \<Rightarrow> ((int \<times> int) \<times> https_st option \<times> 'w stio) option" where
  "st_handshake_loop A s w = do {
     (rc, s, w) \<leftarrow> ssl_run A (SSLHandshake A (ctx_of s) (env w)) s w;
     (if rc = errSecSuccess then Some ((HTTPS_ST_OK, 0), Some (s\<lparr>st_deadline_ns := 0\<rparr>), w)
      else if rc = errSSLServerAuthCompleted then
        let (r, w) = evaluate_trust A s (emit (Note ServerAuth) w)
        in if r \<noteq> 0 then Some ((HTTPS_ST_ERR_HANDSHAKE, errSSLXCertChainInvalid), None, st_free_state A (Some s) w)
           else st_handshake_loop A s w
      else if rc = errSSLWouldBlock then
        let (late, w) =
              (if st_timed_out s then (True, w)
               else if st_deadline_ns s \<noteq> 0 then let (now, w) = st_now_ns A w in (now \<ge> st_deadline_ns s, w)
               else (False, w))
        in if late then Some ((HTTPS_ST_ERR_TIMEOUT, 0), None, st_free_state A (Some s) w)
           else st_handshake_loop A s w
      else
        let timed_out = st_timed_out s; w = st_free_state A (Some s) w
        in Some ((if timed_out then HTTPS_ST_ERR_TIMEOUT else HTTPS_ST_ERR_HANDSHAKE, rc), None, w))
   }"

text \<open>The setup of the context, up to the loop: whether it succeeded.\<close>

definition st_setup :: "'w st_api \<Rightarrow> https_st \<Rightarrow> string option \<Rightarrow> int \<Rightarrow> 'w stio \<Rightarrow> bool \<times> 'w stio" where
  "st_setup A s host min_version w =
    (let (rc, w) = call (SSLSetIOFuncs A (ctx_of s)) w
     in if rc \<noteq> errSecSuccess then (False, w)
        else
          let (rc, w) = call (SSLSetConnection A (ctx_of s) (st_addr s)) w
          in if rc \<noteq> errSecSuccess then (False, w)
             else
               let (named, w) = (case host of
                     None \<Rightarrow> (True, w)
                   | Some h \<Rightarrow>
                       if h = [] then (True, w)
                       else let (rc, w) = call (SSLSetPeerDomainName A (ctx_of s) h) w in (rc = errSecSuccess, w))
               in if \<not> named then (False, w)
                  else
                    let w = (if min_version \<noteq> 0 then snd (call (SSLSetProtocolVersionMin A (ctx_of s) min_version) w) else w);
                        (rc, w) = call (SSLSetBreakOnServerAuth A (ctx_of s)) w
                    in (True, emit (Note BreakOnAuth) w))"

definition https_st_handshake ::
  "'w st_api \<Rightarrow> int \<Rightarrow> string option \<Rightarrow> bool \<Rightarrow> nat option \<Rightarrow> bool \<Rightarrow> int \<Rightarrow> int \<Rightarrow> 'w stio
   \<Rightarrow> ((int \<times> int) \<times> https_st option \<times> 'w stio) option" where
  "https_st_handshake A fd host skip_verify calist ca_only min_version timeout_ns w =
    (case obtain_res StMem (st_calloc A) w of
       (None, w) \<Rightarrow> Some ((HTTPS_ST_ERR_ALLOC, 0), None, w)
     | (Some p, w) \<Rightarrow>
         let (dl, w) = st_deadline_from A timeout_ns w;
             s = \<lparr>st_addr = p, st_ctx = None, st_fd = fd, st_anchors = calist, st_ca_only = ca_only,
                  st_skip_verify = skip_verify, st_deadline_ns = dl, st_timed_out = False, st_eof = False\<rparr>;
             (ctx, w) = obtain_res StCF (SSLCreateContext A) w;
             s = s\<lparr>st_ctx := ctx\<rparr>
         in if ctx = None then Some ((HTTPS_ST_ERR_SETUP, 0), None, st_free_state A (Some s) w)
            else
              let (ok, w) = st_setup A s host min_version w
              in if \<not> ok then Some ((HTTPS_ST_ERR_SETUP, 0), None, st_free_state A (Some s) w)
                 else st_handshake_loop A s w)"

text \<open>A transfer returns its code, \<open>*n\<close>, \<open>*status\<close>, and the bytes it put into the buffer; the connection keeps its handle.\<close>

definition https_st_read ::
  "'w st_api \<Rightarrow> https_st option \<Rightarrow> int \<Rightarrow> int \<Rightarrow> 'w stio
   \<Rightarrow> ((int \<times> nat \<times> int \<times> bytes) \<times> https_st option \<times> 'w stio) option" where
  "https_st_read A handle len timeout_ns w = (case handle of
     None \<Rightarrow> Some ((HTTPS_ST_ERR_CLOSED, 0, 0, []), handle, w)
   | Some s \<Rightarrow>
       if st_ctx s = None then Some ((HTTPS_ST_ERR_CLOSED, 0, 0, []), handle, w)
       else if len \<le> 0 then Some ((HTTPS_ST_OK, 0, 0, []), handle, w)
       else
         let (dl, w) = st_deadline_from A timeout_ns w;
             s = s\<lparr>st_deadline_ns := dl, st_timed_out := False\<rparr>
         in do {
           ((rc, bs), s, w) \<leftarrow> ssl_run A (SSLRead A (ctx_of s) (nat len) (env w)) s w;
           let w = check (length bs \<le> nat len) w;
           Some (if bs \<noteq> [] then (HTTPS_ST_OK, length bs, 0, bs)
                 else if rc = errSecSuccess then (HTTPS_ST_OK, 0, 0, [])
                 else if rc = errSSLClosedGraceful \<or> rc = errSSLClosedNoNotify then (HTTPS_ST_OK, 0, 0, [])
                 else if rc = errSSLWouldBlock then (HTTPS_ST_ERR_TIMEOUT, 0, 0, [])
                 else (if st_timed_out s then HTTPS_ST_ERR_TIMEOUT else HTTPS_ST_ERR_IO, 0, rc, []), Some s, w)
         })"

definition https_st_write ::
  "'w st_api \<Rightarrow> https_st option \<Rightarrow> bytes \<Rightarrow> int \<Rightarrow> int \<Rightarrow> 'w stio
   \<Rightarrow> ((int \<times> nat \<times> int) \<times> https_st option \<times> 'w stio) option" where
  "https_st_write A handle buf len timeout_ns w = (case handle of
     None \<Rightarrow> Some ((HTTPS_ST_ERR_CLOSED, 0, 0), handle, w)
   | Some s \<Rightarrow>
       if st_ctx s = None then Some ((HTTPS_ST_ERR_CLOSED, 0, 0), handle, w)
       else if len \<le> 0 then Some ((HTTPS_ST_OK, 0, 0), handle, w)
       else
         let w = check (nat len \<le> length buf) w;
             (dl, w) = st_deadline_from A timeout_ns w;
             s = s\<lparr>st_deadline_ns := dl, st_timed_out := False\<rparr>
         in do {
           ((rc, n), s, w) \<leftarrow> ssl_run A (SSLWrite A (ctx_of s) (take (nat len) buf) (env w)) s w;
           Some (if rc = errSecSuccess then (HTTPS_ST_OK, n, 0)
                 else if rc = errSSLWouldBlock then (HTTPS_ST_ERR_TIMEOUT, n, 0)
                 else (if st_timed_out s then HTTPS_ST_ERR_TIMEOUT else HTTPS_ST_ERR_IO, n, rc), Some s, w)
         })"

definition https_st_close :: "'w st_api \<Rightarrow> https_st option \<Rightarrow> 'w stio \<Rightarrow> 'w stio option" where
  "https_st_close A handle w = (case handle of
     None \<Rightarrow> Some w
   | Some s \<Rightarrow> do {
       (s, w) \<leftarrow> (case st_ctx s of
           None \<Rightarrow> Some (s, w)
         | Some c \<Rightarrow>
             let (now, w) = st_now_ns A w; s = s\<lparr>st_deadline_ns := now + 100000000\<rparr>
             in map_option snd (ssl_run A (SSLClose A c (env w)) s w));
       let (s, w) = (case st_anchors s of None \<Rightarrow> (s, w) | Some a \<Rightarrow> (s\<lparr>st_anchors := None\<rparr>, st_cf_release A a w));
       Some (st_free_state A (Some s) w)
     })"

end
