(* ===== verification/TlsSession.thy ===== *)
theory TlsSession
  imports Ledger
begin

text \<open>
  What the TLS layers over a platform library have in common: a handshake that returns a code and a handle, transfers
  on the handle, and a close that ends it. The locale states who owns what between these calls; a session made of them
  then gives back all it obtained.
\<close>

primrec tls_steps :: "('op \<Rightarrow> 'h \<Rightarrow> 'w \<Rightarrow> ('h \<times> 'w) option) \<Rightarrow> 'op list \<Rightarrow> 'h \<Rightarrow> 'w \<Rightarrow> ('h \<times> 'w) option" where
  "tls_steps step [] h w = Some (h, w)"
| "tls_steps step (x # xs) h w = do { (h, w) \<leftarrow> step x h w; tls_steps step xs h w }"

definition tls_session ::
  "('w \<Rightarrow> (int \<times> 'h \<times> 'w) option) \<Rightarrow> ('op \<Rightarrow> 'h \<Rightarrow> 'w \<Rightarrow> ('h \<times> 'w) option) \<Rightarrow> ('h \<Rightarrow> 'w \<Rightarrow> 'w option)
   \<Rightarrow> 'op list \<Rightarrow> 'w \<Rightarrow> (int \<times> 'w) option" where
  "tls_session hs step close xs w = do {
     (rc, h, w) \<leftarrow> hs w;
     (h, w) \<leftarrow> tls_steps step xs h w;
     w \<leftarrow> close h w;
     Some (rc, w) }"

text \<open>
  \<open>bal\<close> counts what is held of a resource, \<open>held\<close> is what closing a handle gives back, and \<open>gift\<close> is what a
  successful handshake takes over from its caller.
\<close>

locale tls_transport =
  fixes hs :: "'w \<Rightarrow> (int \<times> 'h \<times> 'w) option"
    and step :: "'op \<Rightarrow> 'h \<Rightarrow> 'w \<Rightarrow> ('h \<times> 'w) option"
    and close :: "'h \<Rightarrow> 'w \<Rightarrow> 'w option"
    and bal :: "'w \<Rightarrow> 'r \<Rightarrow> int"
    and held :: "'h \<Rightarrow> 'r \<Rightarrow> int"
    and gift :: "'r \<Rightarrow> int"
  assumes hs_law: "hs w = Some (rc, h, w') \<Longrightarrow> bal w' r = bal w r + held h r - (if rc = 0 then gift r else 0)"
    and step_law: "step x h w = Some (h', w') \<Longrightarrow> bal w' r = bal w r \<and> held h' r = held h r"
    and close_law: "close h w = Some w' \<Longrightarrow> bal w' r = bal w r - held h r"
begin

lemma tls_steps_law: "tls_steps step xs h w = Some (h', w') \<Longrightarrow> bal w' r = bal w r \<and> held h' r = held h r"
proof (induction xs arbitrary: h w)
  case (Cons x xs)
  then obtain h1 w1 where "step x h w = Some (h1, w1)" "tls_steps step xs h1 w1 = Some (h', w')"
    by (auto split: bind_splits)
  then show ?case using Cons.IH [of h1 w1] step_law [of x h w h1 w1] by simp
qed simp

lemma tls_session_law:
  assumes "tls_session hs step close xs w = Some (rc, w')"
  shows "bal w' r = bal w r - (if rc = 0 then gift r else 0)"
proof -
  obtain h w1 h2 w2 where "hs w = Some (rc, h, w1)" "tls_steps step xs h w1 = Some (h2, w2)" "close h2 w2 = Some w'"
    using assms by (auto simp: tls_session_def split: bind_splits)
  then show ?thesis using hs_law [of w rc h w1] tls_steps_law [of xs h w1 h2 w2] close_law [of h2 w2 w'] by simp
qed

end

end
