(* ===== verification/SecureTransport_Correct.thy ===== *)
theory SecureTransport_Correct
  imports SecureTransport TlsSession
begin

text \<open>
  Proofs about the Secure Transport layer: what the callbacks leave alone, that they return, who owns what
  at each point of a connection's life, and that a handshake only succeeds over a verified server.
\<close>

lemmas st_wait_ready_induct = st_wait_ready.raw_induct [rotated, consumes 1, case_names step]
lemmas st_read_loop_induct = st_read_loop.raw_induct [rotated, consumes 1, case_names step]
lemmas st_write_loop_induct = st_write_loop.raw_induct [rotated, consumes 1, case_names step]
lemmas st_handshake_loop_induct = st_handshake_loop.raw_induct [rotated, consumes 1, case_names step]

section \<open>The callbacks\<close>

text \<open>\<open>read\<close> returns no more bytes than it was asked for.\<close>

definition posix_read_ok :: "'w st_api \<Rightarrow> bool" where
  "posix_read_ok A \<longleftrightarrow> (\<forall>fd n e bs. fst (posix_read A fd n e) = Some bs \<longrightarrow> length bs \<le> n)"

text \<open>Between two calls of Secure Transport only the two flags of a connection change, and no resource moves.\<close>

definition st_cfg :: "https_st \<Rightarrow> https_st" where
  "st_cfg s = s\<lparr>st_timed_out := False, st_eof := False\<rparr>"

definition st_kept :: "'w st_api \<Rightarrow> https_st \<Rightarrow> 'w stio \<Rightarrow> https_st \<Rightarrow> 'w stio \<Rightarrow> bool" where
  "st_kept A s w s' w' \<longleftrightarrow> st_cfg s' = st_cfg s \<and> trace w' = trace w \<and> (posix_read_ok A \<longrightarrow> oob w' = oob w)"

lemma st_cfg_flags [simp]: "st_cfg (s\<lparr>st_timed_out := t\<rparr>) = st_cfg s" "st_cfg (s\<lparr>st_eof := t\<rparr>) = st_cfg s"
  by (simp_all add: st_cfg_def)

lemma st_kept_refl [simp]: "st_kept A s w s (w\<lparr>env := e\<rparr>)" "st_kept A s w s w"
  by (simp_all add: st_kept_def)

lemma st_kept_trans: "st_kept A s w s' w' \<Longrightarrow> st_kept A s' w' s'' w'' \<Longrightarrow> st_kept A s w s'' w''"
  by (simp add: st_kept_def)

lemma st_kept_flags:
  "st_kept A s w s' w' \<Longrightarrow> st_kept A s w (s'\<lparr>st_timed_out := t\<rparr>) w'"
  "st_kept A s w s' w' \<Longrightarrow> st_kept A s w (s'\<lparr>st_eof := t\<rparr>) w'"
  by (simp_all add: st_kept_def)

lemma st_kept_env: "st_kept A s (w\<lparr>env := e\<rparr>) s' w' \<longleftrightarrow> st_kept A s w s' w'"
  by (simp add: st_kept_def)

lemma st_keptI: "trace w' = trace w \<Longrightarrow> (posix_read_ok A \<Longrightarrow> oob w' = oob w) \<Longrightarrow> st_kept A s w s w'"
  by (simp add: st_kept_def)

lemma st_now_ns_ghosts: "st_now_ns A w = (t, w') \<Longrightarrow> trace w' = trace w \<and> oob w' = oob w"
  by (auto simp: st_now_ns_def call_def split: prod.splits)

lemma st_tv_ghosts: "st_tv A s w = (x, w') \<Longrightarrow> trace w' = trace w \<and> oob w' = oob w"
  by (auto simp: st_tv_def Let_def split: if_splits prod.splits dest: st_now_ns_ghosts)

lemma st_wait_ready_ghosts: "st_wait_ready A s fw w = Some y \<Longrightarrow> trace (snd y) = trace w \<and> oob (snd y) = oob w"
proof (induction rule: st_wait_ready_induct)
  case (step rec A s fw w y)
  show ?case
  proof (cases "st_fd s < 0 \<or> st_fd s \<ge> 1024")
    case True
    then show ?thesis using step(2) by auto
  next
    case False
    then have bit: "st_fd s div 32 < 32" by (simp add: fd_word)
    obtain x w1 where x: "st_tv A s (check (st_fd s div 32 < 32) w) = (x, w1)" by fastforce
    have w1: "trace w1 = trace w \<and> oob w1 = oob w" using st_tv_ghosts [OF x] bit by simp
    show ?thesis
    proof (cases x)
      case None
      then show ?thesis using step(2) False w1 x by auto
    next
      case (Some tv)
      obtain rc w2 where rc: "call (st_select A (st_fd s) fw tv) w1 = (rc, w2)" by fastforce
      have w2: "trace w2 = trace w \<and> oob w2 = oob w" using w1 rc by (auto simp: call_eq)
      show ?thesis using step(2) False w2 x Some rc step(1) [of A s fw w2 y]
        by (auto split: if_splits)
    qed
  qed
qed

lemma st_read_loop_kept:
  "st_read_loop A want got s w = Some y \<Longrightarrow> (case y of ((rc, bs), s', w') \<Rightarrow>
    st_kept A s w s' w' \<and> (rc = errSSLWouldBlock \<longrightarrow> st_timed_out s')
    \<and> (posix_read_ok A \<longrightarrow> length got \<le> want \<longrightarrow> length bs \<le> want \<and> (rc = errSecSuccess \<longrightarrow> length bs = want)))"
proof (induction rule: st_read_loop_induct)
  case (step rec A want got s w y)
  show ?case
  proof (cases "length got < want")
    case False
    then show ?thesis using step(2) by (auto simp: ssl_codes)
  next
    case True
    then obtain r w1 where r: "(if st_deadline_ns s \<noteq> 0 then st_wait_ready A s False w else Some (0, w)) = Some (r, w1)"
      using step(2) by (auto split: bind_splits)
    then have w1: "st_kept A s w s w1"
      by (intro st_keptI) (auto split: if_splits dest: st_wait_ready_ghosts)
    obtain n w2 where n: "call (posix_read A (st_fd s) (want - length got)) w1 = (n, w2)" by fastforce
    have bound: "length bs \<le> want - length got" if "posix_read_ok A" "n = Some bs" for bs
      using n that by (simp add: call_eq posix_read_ok_def)
    have w2: "st_kept A s w s (check (length bs \<le> want - length got) w2)" if "n = Some bs" for bs
      using w1 n bound that by (auto simp: call_eq st_kept_def)
    have w2': "st_kept A s w s w2" using w1 n by (auto simp: call_eq st_kept_def)
    consider "r \<noteq> 0" | "r = 0" "n = None" | "r = 0" "n = Some []" | b where "r = 0" "n = Some b" "b \<noteq> []" by fastforce
    then show ?thesis
    proof cases
      case 4
      then have "rec A want (got @ b) s (check (length b \<le> want - length got) w2) = Some y"
        using step(2) True r n by simp
      from step(1) [OF this] show ?thesis using w2 [OF 4(2)] bound 4 True by (auto intro: st_kept_trans)
    qed (use step(2) True r n w1 w2 w2' in \<open>auto simp: ssl_codes intro: st_kept_flags\<close>)
  qed
qed

lemma st_write_loop_kept:
  "st_write_loop A data sent s w = Some y \<Longrightarrow> (case y of ((rc, n), s', w') \<Rightarrow>
    st_kept A s w s' w' \<and> (rc = errSSLWouldBlock \<longrightarrow> st_timed_out s'))"
proof (induction rule: st_write_loop_induct)
  case (step rec A data sent s w y)
  show ?case
  proof (cases "sent < length data")
    case False
    then show ?thesis using step(2) by (auto simp: ssl_codes)
  next
    case True
    then obtain r w1 where r: "(if st_deadline_ns s \<noteq> 0 then st_wait_ready A s True w else Some (0, w)) = Some (r, w1)"
      using step(2) by (auto split: bind_splits)
    then have w1: "st_kept A s w s w1"
      by (intro st_keptI) (auto split: if_splits dest: st_wait_ready_ghosts)
    obtain m w2 where m: "call (posix_write A (st_fd s) (drop sent data)) w1 = (m, w2)" by fastforce
    have w2: "st_kept A s w s w2" using w1 m by (auto simp: call_eq st_kept_def)
    consider "r \<noteq> 0" | "r = 0" "m = None" | "r = 0" "m = Some 0" | b where "r = 0" "m = Some b" "b > 0" by fastforce
    then show ?thesis
    proof cases
      case 4
      then have "rec A data (sent + b) s w2 = Some y"
        using step(2) True r m by simp
      from step(1) [OF this] show ?thesis using w2 by (auto intro: st_kept_trans)
    qed (use step(2) True r m w1 w2 in \<open>auto simp: ssl_codes intro: st_kept_flags\<close>)
  qed
qed

lemma ssl_induct [case_names Finish AskRead AskWrite]:
  assumes "\<And>x e. P (Finish x e)"
    and "\<And>n e k. (\<And>rc bs e. P (k rc bs e)) \<Longrightarrow> P (AskRead n e k)"
    and "\<And>bs e k. (\<And>rc n e. P (k rc n e)) \<Longrightarrow> P (AskWrite bs e k)"
  shows "P t"
proof (induction t)
  case (AskRead n e k)
  show ?case by (rule assms(2)) (rule AskRead [OF rangeI rangeI rangeI])
next
  case (AskWrite bs e k)
  show ?case by (rule assms(3)) (rule AskWrite [OF rangeI rangeI rangeI])
qed (rule assms(1))

lemma ssl_run_kept: "ssl_run A t s w = Some (x, s', w') \<Longrightarrow> st_kept A s w s' w'"
proof (induction t arbitrary: s w rule: ssl_induct)
  case (AskRead n e k)
  then obtain rc bs s1 w1 where *: "st_read A n s (w\<lparr>env := e\<rparr>) = Some ((rc, bs), s1, w1)"
    "ssl_run A (k rc bs (env w1)) s1 w1 = Some (x, s', w')" by (auto split: bind_splits)
  have "st_kept A s w s1 w1" using st_read_loop_kept [OF *(1) [unfolded st_read_def]] by (simp add: st_kept_env)
  from st_kept_trans [OF this AskRead.IH [OF *(2)]] show ?case .
next
  case (AskWrite bs e k)
  then obtain rc n s1 w1 where *: "st_write A bs s (w\<lparr>env := e\<rparr>) = Some ((rc, n), s1, w1)"
    "ssl_run A (k rc n (env w1)) s1 w1 = Some (x, s', w')" by (auto split: bind_splits)
  have "st_kept A s w s1 w1" using st_write_loop_kept [OF *(1) [unfolded st_write_def]] by (simp add: st_kept_env)
  from st_kept_trans [OF this AskWrite.IH [OF *(2)]] show ?case .
qed auto

section \<open>The callbacks return\<close>

text \<open>\<open>T\<close> is the monotonic clock. Reading it does not turn it back, and \<open>select\<close> takes time.\<close>

definition clock_ok :: "'w st_api \<Rightarrow> ('w \<Rightarrow> int) \<Rightarrow> bool" where
  "clock_ok A T \<longleftrightarrow>
     (\<forall>e. (case clock_gettime A e of ((sec, nsec), e') \<Rightarrow> sec * 1000000000 + nsec = T e \<and> T e \<le> T e'))
     \<and> (\<forall>fd fw tv e. T e < T (snd (st_select A fd fw tv e)))"

lemma st_now_ns_clock: "clock_ok A T \<Longrightarrow> st_now_ns A w = (t, w') \<Longrightarrow> t = T (env w) \<and> T (env w) \<le> T (env w')"
  by (auto simp: clock_ok_def st_now_ns_def call_def split: prod.splits)

lemma st_wait_ready_returns:
  assumes "clock_ok A T" "st_deadline_ns s \<noteq> 0"
  shows "\<exists>r w'. st_wait_ready A s fw w = Some (r, w')"
proof (induction "nat (st_deadline_ns s - T (env w))" arbitrary: w rule: less_induct)
  case less
  let ?w = "check (st_fd s div 32 < 32) w"
  obtain now w1 where now: "st_now_ns A ?w = (now, w1)" by fastforce
  have t: "now = T (env w)" "T (env w) \<le> T (env w1)" using st_now_ns_clock [OF assms(1) now] by simp_all
  show ?case
  proof (cases "st_fd s < 0 \<or> st_fd s \<ge> 1024 \<or> st_deadline_ns s - now \<le> 0")
    case True
    then show ?thesis using now assms(2) by (subst st_wait_ready.simps) (auto simp: st_tv_def Let_def)
  next
    case False
    then obtain tv where tv: "st_tv A s ?w = (Some tv, w1)" using now assms(2) by (auto simp: st_tv_def Let_def)
    obtain rc w2 where rc: "call (st_select A (st_fd s) fw tv) w1 = (rc, w2)" by fastforce
    have "T (env w1) < T (env w2)" using assms(1) rc by (auto simp: clock_ok_def call_eq)
    then obtain r w' where "st_wait_ready A s fw w2 = Some (r, w')" using less [of w2] t False by fastforce
    then show ?thesis using tv rc False by (subst st_wait_ready.simps) (auto simp: Let_def)
  qed
qed

lemma st_wait_returns:
  "clock_ok A T \<Longrightarrow> \<exists>r w'. (if st_deadline_ns s \<noteq> 0 then st_wait_ready A s fw w else Some (0, w)) = Some (r, w')"
  using st_wait_ready_returns by fastforce

lemma st_read_loop_returns:
  assumes "clock_ok A T"
  shows "\<exists>rc bs s' w'. st_read_loop A want got s w = Some ((rc, bs), s', w')"
proof (induction "want - length got" arbitrary: got w rule: less_induct)
  case less
  show ?case
  proof (cases "length got < want")
    case False
    then show ?thesis by (subst st_read_loop.simps) auto
  next
    case True
    obtain r w1 where r: "(if st_deadline_ns s \<noteq> 0 then st_wait_ready A s False w else Some (0, w)) = Some (r, w1)"
      using st_wait_returns [OF assms] by blast
    obtain n w2 where n: "call (posix_read A (st_fd s) (want - length got)) w1 = (n, w2)" by fastforce
    consider "r \<noteq> 0" | "r = 0" "n = None" | "r = 0" "n = Some []" | b where "r = 0" "n = Some b" "b \<noteq> []" by fastforce
    then show ?thesis
    proof cases
      case 4
      then have "want - length (got @ b) < want - length got" using True by (cases b) auto
      from less [OF this, of "check (length b \<le> want - length got) w2"]
      show ?thesis using True r n 4 by (subst st_read_loop.simps) auto
    qed (use True r n in \<open>(subst st_read_loop.simps, auto)+\<close>)
  qed
qed

lemma st_write_loop_returns:
  assumes "clock_ok A T"
  shows "\<exists>rc n s' w'. st_write_loop A data sent s w = Some ((rc, n), s', w')"
proof (induction "length data - sent" arbitrary: sent w rule: less_induct)
  case less
  show ?case
  proof (cases "sent < length data")
    case False
    then show ?thesis by (subst st_write_loop.simps) auto
  next
    case True
    obtain r w1 where r: "(if st_deadline_ns s \<noteq> 0 then st_wait_ready A s True w else Some (0, w)) = Some (r, w1)"
      using st_wait_returns [OF assms] by blast
    obtain n w2 where n: "call (posix_write A (st_fd s) (drop sent data)) w1 = (n, w2)" by fastforce
    consider "r \<noteq> 0" | "r = 0" "n = None" | "r = 0" "n = Some 0" | b where "r = 0" "n = Some b" "b > 0" by fastforce
    then show ?thesis
    proof cases
      case 4
      then have "length data - (sent + b) < length data - sent" using True by auto
      from less [OF this, of w2] show ?thesis using True r n 4 by (subst st_write_loop.simps) auto
    qed (use True r n in \<open>(subst st_write_loop.simps, auto)+\<close>)
  qed
qed

lemma ssl_run_returns: "clock_ok A T \<Longrightarrow> \<exists>x s' w'. ssl_run A t s w = Some (x, s', w')"
proof (induction t arbitrary: s w rule: ssl_induct)
  case (AskRead n e k)
  obtain rc bs s1 w1 where "st_read A n s (w\<lparr>env := e\<rparr>) = Some ((rc, bs), s1, w1)"
    using st_read_loop_returns [OF AskRead.prems] unfolding st_read_def by blast
  then show ?case using AskRead.IH [OF AskRead.prems, of rc bs "env w1" s1 w1] by simp
next
  case (AskWrite bs e k)
  obtain rc n s1 w1 where "st_write A bs s (w\<lparr>env := e\<rparr>) = Some ((rc, n), s1, w1)"
    using st_write_loop_returns [OF AskWrite.prems] unfolding st_write_def by blast
  then show ?case using AskWrite.IH [OF AskWrite.prems, of rc n "env w1" s1 w1] by simp
qed simp

section \<open>Trust\<close>

lemma st_cf_release_net [simp]:
  "net (st_cf_release A h w) r = net w r - of_bool (r = StCF h)" "oob (st_cf_release A h w) = oob w"
  "noted (st_cf_release A h w) = noted w"
  by (simp_all add: st_cf_release_def)

lemma copy_peer_trust_net:
  "copy_peer_trust A c w = (t, w') \<Longrightarrow> oob w' = oob w \<and> noted w' = noted w
     \<and> (\<forall>r. net w' r = net w r + (case t of None \<Rightarrow> 0 | Some t \<Rightarrow> of_bool (r = StCF t)))"
  by (auto simp: copy_peer_trust_def split: prod.splits if_splits option.splits dest!: call_net)

text \<open>What the evaluation of one trust object leaves in the trace.\<close>

definition verification :: "https_st \<Rightarrow> nat \<Rightarrow> bool \<Rightarrow> st_note list" where
  "verification s t ok =
    (if st_skip_verify s then []
     else (case st_anchors s of None \<Rightarrow> [] | Some a \<Rightarrow> [SetAnchors t a, SetOnly t (st_ca_only s)]) @ [Evaluated t ok])"

lemma evaluate_trust_spec:
  "evaluate_trust A s w = (r, w') \<Longrightarrow> oob w' = oob w \<and> (\<forall>q. net w' q = net w q)
     \<and> (r = 0 \<longrightarrow> (\<exists>t. noted w' = noted w @ verification s t True))
     \<and> (r \<noteq> 0 \<longrightarrow> noted w' = noted w \<or> (\<exists>t. noted w' = noted w @ verification s t False))"
  by (auto simp: evaluate_trust_def verification_def Let_def split: if_splits prod.splits option.splits
      dest!: copy_peer_trust_net call_net)

text \<open>Rounds of the handshake in which the server was verified, with the trust objects \<open>ts\<close>.\<close>

definition rounds :: "https_st \<Rightarrow> nat list \<Rightarrow> st_note list" where
  "rounds s ts = concat (map (\<lambda>t. ServerAuth # verification s t True) ts)"

lemma rounds_simps [simp]: "rounds s [] = []" "rounds s [t] = ServerAuth # verification s t True" "rounds s ts @ rounds s us = rounds s (ts @ us)"
  by (simp_all add: rounds_def)

section \<open>Connections\<close>

definition st_owned :: "https_st \<Rightarrow> st_res \<Rightarrow> int" where
  "st_owned s r = of_bool (r = StMem (st_addr s)) + (case st_ctx s of None \<Rightarrow> 0 | Some c \<Rightarrow> of_bool (r = StCF c))"

definition st_list :: "nat option \<Rightarrow> st_res \<Rightarrow> int" where
  "st_list a r = (case a of None \<Rightarrow> 0 | Some a \<Rightarrow> of_bool (r = StCF a))"

lemma st_free_state_net [simp]:
  "net (st_free_state A (Some s) w) r = net w r - st_owned s r" "oob (st_free_state A (Some s) w) = oob w"
  "noted (st_free_state A (Some s) w) = noted w"
  by (simp_all add: st_free_state_def st_owned_def Let_def split: option.split)

lemma net_trace: "trace w' = trace w \<Longrightarrow> net w' r = net w r" "trace w' = trace w \<Longrightarrow> noted w' = noted w"
  by (simp_all add: net_def noted_def)

lemma st_cfg_eq:
  assumes "st_cfg s' = st_cfg s"
  shows "st_addr s' = st_addr s" "st_ctx s' = st_ctx s" "st_anchors s' = st_anchors s" "st_ca_only s' = st_ca_only s"
    "st_skip_verify s' = st_skip_verify s" "st_fd s' = st_fd s" "st_deadline_ns s' = st_deadline_ns s"
  using assms by (cases s, cases s', simp add: st_cfg_def)+

lemma st_kept_facts:
  assumes "st_kept A s w s' w'"
  shows "net w' r = net w r" "noted w' = noted w" "st_owned s' r = st_owned s r" "verification s' t ok = verification s t ok"
    "st_anchors s' = st_anchors s" "st_ctx s' = st_ctx s" "st_addr s' = st_addr s"
proof -
  have c: "st_cfg s' = st_cfg s" and t: "trace w' = trace w" using assms by (simp_all add: st_kept_def)
  show "net w' r = net w r" "noted w' = noted w" "st_owned s' r = st_owned s r" "verification s' t ok = verification s t ok"
    "st_anchors s' = st_anchors s" "st_ctx s' = st_ctx s" "st_addr s' = st_addr s"
    by (simp_all add: net_trace [OF t] st_owned_def verification_def st_cfg_eq [OF c] split: option.split)
qed

lemma st_cfg_deadline: "st_cfg s' = st_cfg s \<Longrightarrow> st_cfg (s'\<lparr>st_deadline_ns := d\<rparr>) = st_cfg (s\<lparr>st_deadline_ns := d\<rparr>)"
  by (cases s, cases s', simp add: st_cfg_def)

text \<open>
  What a handshake leaves behind: on success the open connection, with a verified server; on failure nothing,
  and a negative code.
\<close>

definition hs_result :: "'w st_api \<Rightarrow> https_st \<Rightarrow> 'w stio \<Rightarrow> (int \<times> int) \<times> https_st option \<times> 'w stio \<Rightarrow> bool" where
  "hs_result A s w y \<longleftrightarrow> (case y of ((rc, status), out, w') \<Rightarrow>
     (posix_read_ok A \<longrightarrow> oob w' = oob w) \<and>
     (case out of
        Some s' \<Rightarrow> rc = HTTPS_ST_OK \<and> status = 0 \<and> st_cfg s' = st_cfg (s\<lparr>st_deadline_ns := 0\<rparr>)
          \<and> (\<forall>r. net w' r = net w r) \<and> (\<exists>ts. noted w' = noted w @ rounds s ts)
      | None \<Rightarrow> rc < 0 \<and> (\<forall>r. net w' r = net w r - st_owned s r)))"

lemma hs_result_step:
  assumes "st_cfg s' = st_cfg s" "\<forall>r. net w1 r = net w r" "posix_read_ok A \<longrightarrow> oob w1 = oob w"
    "noted w1 = noted w @ rounds s ts" "hs_result A s' w1 y"
  shows "hs_result A s w y"
proof -
  have "verification s' = verification s" "st_owned s' = st_owned s"
    by (simp_all add: fun_eq_iff verification_def st_owned_def st_cfg_eq [OF assms(1)] split: option.split)
  then have "rounds s' = rounds s" "st_owned s' = st_owned s" by (simp_all add: fun_eq_iff rounds_def)
  then show ?thesis using assms(2-5) st_cfg_deadline [OF assms(1), of 0] unfolding hs_result_def
    by (auto split: prod.splits option.splits)
qed

lemma st_handshake_loop_spec: "st_handshake_loop A s w = Some y \<Longrightarrow> hs_result A s w y"
proof (induction rule: st_handshake_loop_induct)
  case (step rec A s w y)
  then obtain rc s1 w1 where run: "ssl_run A (SSLHandshake A (ctx_of s) (env w)) s w = Some (rc, s1, w1)"
    by (auto split: bind_splits)
  note k = ssl_run_kept [OF run]
  have cfg: "st_cfg s1 = st_cfg s" and oob1: "posix_read_ok A \<longrightarrow> oob w1 = oob w" using k by (simp_all add: st_kept_def)
  note f = st_kept_facts [OF k]
  obtain r w2 where r: "evaluate_trust A s1 (emit (Note ServerAuth) w1) = (r, w2)" by fastforce
  note et = evaluate_trust_spec [OF r]
  obtain late w3 where late: "(if st_timed_out s1 then (True, w1)
      else if st_deadline_ns s1 \<noteq> 0 then let (now, w) = st_now_ns A w1 in (now \<ge> st_deadline_ns s1, w) else (False, w1)) = (late, w3)"
    by fastforce
  then have w3: "trace w3 = trace w1" "oob w3 = oob w1"
    by (auto split: if_splits prod.splits dest: st_now_ns_ghosts)
  note n3 = net_trace [OF w3(1)]
  consider "rc = errSecSuccess" | "rc = errSSLServerAuthCompleted" "r \<noteq> 0" | "rc = errSSLServerAuthCompleted" "r = 0"
    | "rc = errSSLWouldBlock" late | "rc = errSSLWouldBlock" "\<not> late"
    | "rc \<notin> {errSecSuccess, errSSLServerAuthCompleted, errSSLWouldBlock}" by blast
  then show ?case
  proof cases
    case 1
    then have "y = ((HTTPS_ST_OK, 0), Some (s1\<lparr>st_deadline_ns := 0\<rparr>), w1)" using step(2) run by simp
    then show ?thesis using f oob1 st_cfg_deadline [OF cfg] by (auto simp: hs_result_def intro: exI [of _ "[]"])
  next
    case 3
    then have "rec A s1 w2 = Some y" using step(2) run r by (simp add: ssl_codes)
    from step(1) [OF this] obtain t where "noted w2 = noted w @ rounds s [t]"
      using et 3 f by auto
    from hs_result_step [OF cfg _ _ this step(1) [OF \<open>rec A s1 w2 = Some y\<close>]] show ?thesis using et f oob1 by simp
  next
    case 5
    then have "rec A s1 w3 = Some y" using step(2) run late by (simp add: ssl_codes)
    from hs_result_step [OF cfg _ _ _ step(1) [OF this], of w "[]"] show ?thesis using f oob1 w3(2) by (simp add: n3)
  next
    case 2
    then have "y = ((HTTPS_ST_ERR_HANDSHAKE, errSSLXCertChainInvalid), None, st_free_state A (Some s1) w2)"
      using step(2) run r by (simp add: ssl_codes)
    then show ?thesis using et f oob1 by (simp add: hs_result_def st_codes)
  next
    case 4
    then have "y = ((HTTPS_ST_ERR_TIMEOUT, 0), None, st_free_state A (Some s1) w3)"
      using step(2) run late by (simp add: ssl_codes)
    then show ?thesis using f oob1 w3(2) by (simp add: hs_result_def st_codes n3)
  next
    case 6
    then have "y = ((if st_timed_out s1 then HTTPS_ST_ERR_TIMEOUT else HTTPS_ST_ERR_HANDSHAKE, rc), None, st_free_state A (Some s1) w1)"
      using step(2) run by (simp add: Let_def)
    then show ?thesis using f oob1 by (simp add: hs_result_def st_codes)
  qed
qed

lemma st_setup_net:
  "st_setup A s host mv w = (ok, w') \<Longrightarrow> oob w' = oob w \<and> (\<forall>r. net w' r = net w r)
     \<and> (ok \<longrightarrow> noted w' = noted w @ [BreakOnAuth])"
  by (auto simp: st_setup_def Let_def call_def split: if_splits prod.splits option.splits)

lemma st_deadline_from_net:
  "st_deadline_from A t w = (d, w') \<Longrightarrow> oob w' = oob w \<and> trace w' = trace w"
  by (auto simp: st_deadline_from_def split: if_splits prod.splits dest: st_now_ns_ghosts)

text \<open>A connection as the handshake hands it out.\<close>

definition st_open :: "https_st \<Rightarrow> int \<Rightarrow> bool \<Rightarrow> nat option \<Rightarrow> bool \<Rightarrow> bool" where
  "st_open s fd skip_verify calist ca_only \<longleftrightarrow> st_ctx s \<noteq> None \<and> st_fd s = fd \<and> st_skip_verify s = skip_verify
     \<and> st_anchors s = calist \<and> st_ca_only s = ca_only \<and> st_deadline_ns s = 0"

definition handshake_result ::
  "'w st_api \<Rightarrow> int \<Rightarrow> bool \<Rightarrow> nat option \<Rightarrow> bool \<Rightarrow> 'w stio \<Rightarrow> (int \<times> int) \<times> https_st option \<times> 'w stio \<Rightarrow> bool" where
  "handshake_result A fd skip_verify calist ca_only w y \<longleftrightarrow> (case y of ((rc, status), out, w') \<Rightarrow>
     (posix_read_ok A \<longrightarrow> oob w' = oob w) \<and>
     (case out of
        Some s \<Rightarrow> rc = HTTPS_ST_OK \<and> status = 0 \<and> st_open s fd skip_verify calist ca_only
          \<and> (\<forall>r. net w' r = net w r + st_owned s r) \<and> (\<exists>ts. noted w' = noted w @ BreakOnAuth # rounds s ts)
      | None \<Rightarrow> rc < 0 \<and> (\<forall>r. net w' r = net w r)))"

lemma rounds_cong:
  "st_skip_verify s' = st_skip_verify s \<Longrightarrow> st_anchors s' = st_anchors s \<Longrightarrow> st_ca_only s' = st_ca_only s \<Longrightarrow> rounds s' ts = rounds s ts"
proof -
  assume "st_skip_verify s' = st_skip_verify s" "st_anchors s' = st_anchors s" "st_ca_only s' = st_ca_only s"
  then have "verification s' = verification s" by (simp add: fun_eq_iff verification_def split: option.split)
  then show ?thesis by (simp add: rounds_def)
qed

lemma hs_to_handshake:
  assumes "hs_result A s w1 y" "st_open (s\<lparr>st_deadline_ns := 0\<rparr>) fd skip calist only"
    "\<forall>r. net w1 r = net w r + st_owned s r" "oob w1 = oob w" "noted w1 = noted w @ [BreakOnAuth]"
  shows "handshake_result A fd skip calist only w y"
proof -
  obtain rc status out w' where y: "y = ((rc, status), out, w')" by (cases y) auto
  show ?thesis
  proof (cases out)
    case None
    then show ?thesis using assms y by (simp add: hs_result_def handshake_result_def)
  next
    case (Some s')
    then have c: "st_cfg s' = st_cfg (s\<lparr>st_deadline_ns := 0\<rparr>)" using assms(1) y by (simp add: hs_result_def)
    have "rounds s' ts = rounds s ts" for ts by (rule rounds_cong) (simp_all add: st_cfg_eq [OF c])
    moreover have "st_owned s' r = st_owned s r" for r by (simp add: st_owned_def st_cfg_eq [OF c])
    moreover have "st_open s' fd skip calist only" using assms(2) by (simp add: st_open_def st_cfg_eq [OF c])
    ultimately show ?thesis using assms(1,3-5) y Some by (auto simp: hs_result_def handshake_result_def)
  qed
qed

lemma https_st_handshake_spec:
  assumes "https_st_handshake A fd host skip calist only mv timeout w = Some y"
  shows "handshake_result A fd skip calist only w y"
proof -
  obtain m w1 where m: "obtain_res StMem (st_calloc A) w = (m, w1)" by fastforce
  note nm = obtain_res_net [OF m]
  show ?thesis
  proof (cases m)
    case None
    then show ?thesis using assms nm m by (auto simp: https_st_handshake_def handshake_result_def st_codes)
  next
    case (Some p)
    obtain dl w2 where dl: "st_deadline_from A timeout w1 = (dl, w2)" by fastforce
    note d = st_deadline_from_net [OF dl]
    obtain ctx w3 where ctx: "obtain_res StCF (SSLCreateContext A) w2 = (ctx, w3)" by fastforce
    note nc = obtain_res_net [OF ctx]
    define s where "s = \<lparr>st_addr = p, st_ctx = ctx, st_fd = fd, st_anchors = calist, st_ca_only = only,
                  st_skip_verify = skip, st_deadline_ns = dl, st_timed_out = False, st_eof = False\<rparr>"
    have n3: "\<forall>r. net w3 r = net w r + st_owned s r" "oob w3 = oob w" "noted w3 = noted w"
      using nm nc d net_trace [of w2 w1] Some by (auto simp: st_owned_def s_def split: option.split)
    obtain ok w4 where ok: "st_setup A s host mv w3 = (ok, w4)" by fastforce
    note n4 = st_setup_net [OF ok]
    have y: "(if ctx = None then Some ((HTTPS_ST_ERR_SETUP, 0), None, st_free_state A (Some s) w3)
        else if \<not> ok then Some ((HTTPS_ST_ERR_SETUP, 0), None, st_free_state A (Some s) w4)
        else st_handshake_loop A s w4) = Some y"
      using assms m dl ctx ok Some by (cases "ctx = None") (auto simp: https_st_handshake_def s_def Let_def)
    consider "ctx = None" | "ctx \<noteq> None" "\<not> ok" | "ctx \<noteq> None" ok by blast
    then show ?thesis
    proof cases
      case 3
      then have "hs_result A s w4 y" using y by (auto intro: st_handshake_loop_spec)
      from hs_to_handshake [OF this] show ?thesis using n3 n4 3 by (simp add: st_open_def s_def)
    qed (use y n3 n4 in \<open>auto simp: handshake_result_def st_codes\<close>)
  qed
qed

section \<open>Transfers and whole sessions\<close>

text \<open>What a transfer keeps: the handle, what it owns, its anchors, and every resource.\<close>

definition st_same :: "https_st option \<Rightarrow> 'w stio \<Rightarrow> https_st option \<Rightarrow> 'w stio \<Rightarrow> bool" where
  "st_same h w h' w' \<longleftrightarrow> (\<forall>r. net w' r = net w r) \<and> noted w' = noted w
     \<and> map_option (\<lambda>s. (st_addr s, st_ctx s, st_anchors s)) h' = map_option (\<lambda>s. (st_addr s, st_ctx s, st_anchors s)) h"

lemma st_same_refl [simp]: "st_same h w h w"
  by (simp add: st_same_def)

lemma st_same_trans: "st_same h w h' w' \<Longrightarrow> st_same h' w' h'' w'' \<Longrightarrow> st_same h w h'' w''"
  by (simp add: st_same_def)

lemma st_same_run:
  assumes "ssl_run A t (s\<lparr>st_deadline_ns := d, st_timed_out := x\<rparr>) w1 = Some (y, s', w2)"
    "\<forall>r. net w1 r = net w r" "noted w1 = noted w"
  shows "st_same (Some s) w (Some s') w2"
  using st_kept_facts [OF ssl_run_kept [OF assms(1)]] assms(2,3) by (simp add: st_same_def)

lemma https_st_read_same:
  assumes "https_st_read A h len timeout w = Some (x, h', w')"
  shows "st_same h w h' w'"
proof (cases "h = None \<or> st_ctx (the h) = None \<or> len \<le> 0")
  case True
  then show ?thesis using assms by (auto simp: https_st_read_def split: option.splits if_splits)
next
  case False
  then obtain s where s: "h = Some s" by auto
  obtain d w1 where d: "st_deadline_from A timeout w = (d, w1)" by fastforce
  obtain y s' w2 where r: "ssl_run A (SSLRead A (ctx_of (s\<lparr>st_deadline_ns := d, st_timed_out := False\<rparr>)) (nat len) (env w1))
      (s\<lparr>st_deadline_ns := d, st_timed_out := False\<rparr>) w1 = Some (y, s', w2)"
    using assms False s d by (auto simp: https_st_read_def Let_def split: bind_splits)
  have "h' = Some s' \<and> w' = check (length (snd y) \<le> nat len) w2"
    using assms False s d r by (cases y) (auto simp: https_st_read_def Let_def)
  then show ?thesis using st_same_run [OF r, of w] st_deadline_from_net [OF d] net_trace [of w1 w] s by (simp add: st_same_def)
qed

lemma https_st_write_same:
  assumes "https_st_write A h buf len timeout w = Some (x, h', w')"
  shows "st_same h w h' w'"
proof (cases "h = None \<or> st_ctx (the h) = None \<or> len \<le> 0")
  case True
  then show ?thesis using assms by (auto simp: https_st_write_def split: option.splits if_splits)
next
  case False
  then obtain s where s: "h = Some s" by auto
  let ?w = "check (nat len \<le> length buf) w"
  obtain d w1 where d: "st_deadline_from A timeout ?w = (d, w1)" by fastforce
  obtain y s' w2 where r: "ssl_run A (SSLWrite A (ctx_of (s\<lparr>st_deadline_ns := d, st_timed_out := False\<rparr>)) (take (nat len) buf) (env w1))
      (s\<lparr>st_deadline_ns := d, st_timed_out := False\<rparr>) w1 = Some (y, s', w2)"
    using assms False s d by (auto simp: https_st_write_def Let_def split: bind_splits)
  have "h' = Some s' \<and> w' = w2"
    using assms False s d r by (cases y) (auto simp: https_st_write_def Let_def)
  then show ?thesis using st_same_run [OF r, of w] st_deadline_from_net [OF d] net_trace [of w1 ?w] s by simp
qed

datatype st_op = StRead int int | StWrite bytes int int

definition st_step :: "'w st_api \<Rightarrow> st_op \<Rightarrow> https_st option \<Rightarrow> 'w stio \<Rightarrow> (https_st option \<times> 'w stio) option" where
  "st_step A op h w = (case op of
     StRead len timeout \<Rightarrow> map_option snd (https_st_read A h len timeout w)
   | StWrite buf len timeout \<Rightarrow> map_option snd (https_st_write A h buf len timeout w))"

abbreviation st_open_conn ::
  "'w st_api \<Rightarrow> int \<Rightarrow> string option \<Rightarrow> bool \<Rightarrow> nat option \<Rightarrow> bool \<Rightarrow> int \<Rightarrow> int \<Rightarrow> 'w stio
   \<Rightarrow> (int \<times> https_st option \<times> 'w stio) option" where
  "st_open_conn A fd host skip calist only mv timeout w \<equiv>
     map_option (\<lambda>((rc, status), h, w). (rc, h, w)) (https_st_handshake A fd host skip calist only mv timeout w)"

lemma st_step_same: "st_step A op h w = Some (h', w') \<Longrightarrow> st_same h w h' w'"
  by (auto simp: st_step_def split: st_op.splits dest: https_st_read_same https_st_write_same)

text \<open>What closing a handle gives back: what the connection owns, and the anchors it was given.\<close>

definition st_handle :: "https_st option \<Rightarrow> st_res \<Rightarrow> int" where
  "st_handle h r = (case h of None \<Rightarrow> 0 | Some s \<Rightarrow> st_owned s r + st_list (st_anchors s) r)"

lemma https_st_close_net:
  assumes "https_st_close A h w = Some w'"
  shows "net w' r = net w r - st_handle h r"
proof (cases h)
  case None
  then show ?thesis using assms by (simp add: https_st_close_def st_handle_def)
next
  case (Some s)
  obtain s1 w1 where 1: "(case st_ctx s of None \<Rightarrow> Some (s, w)
      | Some c \<Rightarrow> let (now, w) = st_now_ns A w; s = s\<lparr>st_deadline_ns := now + 100000000\<rparr>
          in map_option snd (ssl_run A (SSLClose A c (env w)) s w)) = Some (s1, w1)"
    and 2: "w' = (let (s, w) = (case st_anchors s1 of None \<Rightarrow> (s1, w1) | Some a \<Rightarrow> (s1\<lparr>st_anchors := None\<rparr>, st_cf_release A a w1))
        in st_free_state A (Some s) w)"
    using assms Some by (auto simp: https_st_close_def Let_def split: bind_splits prod.splits)
  have "net w1 r = net w r \<and> st_anchors s1 = st_anchors s \<and> st_owned s1 r = st_owned s r"
  proof (cases "st_ctx s")
    case (Some c)
    obtain now w0 where now: "st_now_ns A w = (now, w0)" by fastforce
    obtain x where "ssl_run A (SSLClose A c (env w0)) (s\<lparr>st_deadline_ns := now + 100000000\<rparr>) w0 = Some (x, s1, w1)"
      using 1 Some now by (auto simp: Let_def)
    from st_kept_facts [OF ssl_run_kept [OF this]] show ?thesis
      using st_now_ns_ghosts [OF now] net_trace [of w0 w] by (simp add: st_owned_def)
  qed (use 1 in simp)
  then show ?thesis using 2 Some by (auto simp: st_handle_def st_list_def st_owned_def split: option.splits)
qed

lemma st_handle_cong:
  "map_option (\<lambda>s. (st_addr s, st_ctx s, st_anchors s)) h' = map_option (\<lambda>s. (st_addr s, st_ctx s, st_anchors s)) h
   \<Longrightarrow> st_handle h' r = st_handle h r"
  by (cases h; cases h') (auto simp: st_handle_def st_owned_def)

interpretation st_tls: tls_transport "st_open_conn A fd host skip calist only mv timeout" "st_step A" "https_st_close A"
  net st_handle "st_list calist"
proof (unfold_locales, goal_cases)
  case (1 w rc h w' r)
  then obtain status where "https_st_handshake A fd host skip calist only mv timeout w = Some ((rc, status), h, w')" by auto
  from https_st_handshake_spec [OF this] show ?case
    by (auto simp: handshake_result_def st_handle_def st_open_def st_codes split: option.splits)
next
  case (2 x h w h' w' r)
  from st_step_same [OF this] show ?case by (auto simp: st_same_def intro: st_handle_cong)
next
  case (3 h w w' r)
  then show ?case by (rule https_st_close_net)
qed

text \<open>Secure Transport never reports more bytes than the buffer of a transfer holds.\<close>

definition ssl_io_ok :: "'w st_api \<Rightarrow> bool" where
  "ssl_io_ok A \<longleftrightarrow> (\<forall>c n e x. x \<in> set_ssl (SSLRead A c n e) \<longrightarrow> length (snd x) \<le> n)
     \<and> (\<forall>c bs e x. x \<in> set_ssl (SSLWrite A c bs e) \<longrightarrow> snd x \<le> length bs)"

lemma ssl_run_leaf: "ssl_run A t s w = Some (x, s', w') \<Longrightarrow> x \<in> set_ssl t"
proof (induction t arbitrary: s w rule: ssl_induct)
  case (AskRead n e k)
  then show ?case by (fastforce split: bind_splits)
next
  case (AskWrite bs e k)
  then show ?case by (fastforce split: bind_splits)
qed simp

lemma https_st_read_returns:
  assumes "clock_ok A T" "ssl_io_ok A" "st_ctx s \<noteq> None" "0 < len"
  shows "\<exists>rc n status bs s' w'. https_st_read A (Some s) len timeout w = Some ((rc, n, status, bs), Some s', w')
    \<and> n = length bs \<and> int n \<le> len \<and> rc \<in> {HTTPS_ST_OK, HTTPS_ST_ERR_TIMEOUT, HTTPS_ST_ERR_IO}
    \<and> (0 < n \<longrightarrow> rc = HTTPS_ST_OK)"
proof -
  obtain d w1 where d: "st_deadline_from A timeout w = (d, w1)" by fastforce
  let ?s = "s\<lparr>st_deadline_ns := d, st_timed_out := False\<rparr>"
  obtain rc bs s' w2 where r: "ssl_run A (SSLRead A (ctx_of ?s) (nat len) (env w1)) ?s w1 = Some ((rc, bs), s', w2)"
    using ssl_run_returns [OF assms(1)] by (metis surj_pair)
  have "length bs \<le> nat len" using assms(2) ssl_run_leaf [OF r] by (fastforce simp: ssl_io_ok_def)
  then show ?thesis using assms(3,4) d r by (auto simp: https_st_read_def Let_def)
qed

lemma https_st_write_returns:
  assumes "clock_ok A T" "ssl_io_ok A" "st_ctx s \<noteq> None" "0 < len" "len \<le> int (length buf)"
  shows "\<exists>rc n status s' w'. https_st_write A (Some s) buf len timeout w = Some ((rc, n, status), Some s', w')
    \<and> int n \<le> len \<and> rc \<in> {HTTPS_ST_OK, HTTPS_ST_ERR_TIMEOUT, HTTPS_ST_ERR_IO}"
proof -
  obtain d w1 where d: "st_deadline_from A timeout (check (nat len \<le> length buf) w) = (d, w1)" by fastforce
  let ?s = "s\<lparr>st_deadline_ns := d, st_timed_out := False\<rparr>"
  obtain rc n s' w2 where r: "ssl_run A (SSLWrite A (ctx_of ?s) (take (nat len) buf) (env w1)) ?s w1 = Some ((rc, n), s', w2)"
    using ssl_run_returns [OF assms(1)] by (metis surj_pair)
  have "n \<le> length (take (nat len) buf)" using assms(2) ssl_run_leaf [OF r] by (fastforce simp: ssl_io_ok_def)
  then have "n \<le> nat len" by simp
  then show ?thesis using assms(3,4) d r by (auto simp: https_st_write_def Let_def)
qed

lemma https_st_close_returns:
  assumes "clock_ok A T"
  shows "\<exists>w'. https_st_close A h w = Some w'"
proof (cases h)
  case (Some s)
  show ?thesis
  proof (cases "st_ctx s")
    case None
    then show ?thesis using Some by (simp add: https_st_close_def split: option.split)
  next
    case (Some c)
    obtain now w0 where now: "st_now_ns A w = (now, w0)" by fastforce
    obtain x s1 w1 where "ssl_run A (SSLClose A c (env w0)) (s\<lparr>st_deadline_ns := now + 100000000\<rparr>) w0 = Some (x, s1, w1)"
      using ssl_run_returns [OF assms, of "SSLClose A c (env w0)" "s\<lparr>st_deadline_ns := now + 100000000\<rparr>" w0] by blast
    then show ?thesis using \<open>h = Some s\<close> Some now by (simp add: https_st_close_def Let_def split: option.split)
  qed
qed (simp add: https_st_close_def)

section \<open>Properties\<close>

text \<open>C11. A handshake that succeeds has asked Secure Transport to stop for the verification of the server, and every time
  it stopped the chain was evaluated, with the anchors and the exclusiveness the caller configured, and accepted, unless
  verification was switched off. The caller then has an open connection without a deadline that owns its context and
  memory. A handshake that fails returns a negative code and has given back all it obtained; the anchors stay with the
  caller.\<close>

theorem https_st_handshake_verified:
  assumes "https_st_handshake A fd host skip_verify calist ca_only min_version timeout_ns w = Some ((rc, status), out, w')"
  shows "case out of
      None \<Rightarrow> rc < 0 \<and> (\<forall>r. net w' r = net w r)
    | Some s \<Rightarrow> rc = HTTPS_ST_OK \<and> status = 0 \<and> st_open s fd skip_verify calist ca_only
        \<and> (\<forall>r. net w' r = net w r + st_owned s r)
        \<and> (\<exists>ts. noted w' = noted w @ BreakOnAuth # concat (map (\<lambda>t. ServerAuth # verification s t True) ts))"
  using https_st_handshake_spec [OF assms] by (simp add: handshake_result_def rounds_def split: option.splits)

text \<open>C12. Whatever Secure Transport, the socket and the clock do, a session that returns - handshake, any sequence of reads
  and writes, close - gives back everything it obtained. When the handshake succeeded the connection has also
  released the caller's anchors, exactly once; when it failed they are still the caller's.\<close>

theorem https_st_session_balanced:
  assumes "tls_session (st_open_conn A fd host skip_verify calist ca_only min_version timeout_ns) (st_step A) (https_st_close A) ops w
    = Some (rc, w')"
  shows "net w' r = net w r - (if rc = HTTPS_ST_OK then st_list calist r else 0)"
  using st_tls.tls_session_law [OF assms] by (simp add: st_codes)

text \<open>C13. On an open connection reads, writes and close return, as long as the monotonic clock advances while \<open>select\<close> waits and
  Secure Transport's calls are finite: interrupted waits cannot hold a call past its deadline. A read returns no more than
  it was asked for and reports an error only when it has no data; a write reports no more than it was given.\<close>

theorem https_st_transfers_return:
  assumes "clock_ok A T" "ssl_io_ok A" "st_ctx s \<noteq> None" "0 < len" "len \<le> int (length buf)"
  shows "(\<exists>rc n status bs s' w'. https_st_read A (Some s) len timeout w = Some ((rc, n, status, bs), Some s', w')
      \<and> n = length bs \<and> int n \<le> len \<and> rc \<in> {HTTPS_ST_OK, HTTPS_ST_ERR_TIMEOUT, HTTPS_ST_ERR_IO}
      \<and> (0 < n \<longrightarrow> rc = HTTPS_ST_OK))
    \<and> (\<exists>rc n status s' w'. https_st_write A (Some s) buf len timeout w = Some ((rc, n, status), Some s', w')
      \<and> int n \<le> len \<and> rc \<in> {HTTPS_ST_OK, HTTPS_ST_ERR_TIMEOUT, HTTPS_ST_ERR_IO})
    \<and> (\<exists>w'. https_st_close A (Some s) w = Some w')"
  using https_st_read_returns [OF assms(1-4)] https_st_write_returns [OF assms] https_st_close_returns [OF assms(1)] by blast

text \<open>A platform for the witnesses: its world is the clock and how far the handshake has come.\<close>

definition demo_st :: "(int \<times> nat) st_api" where
  "demo_st = \<lparr>clock_gettime = \<lambda>e. ((0, fst e), e), st_select = \<lambda>fd fw tv e. (1, (fst e + 1, snd e)),
     posix_read = \<lambda>fd n e. (Some (take n [7]), e), posix_write = \<lambda>fd bs e. (Some (length bs), e),
     st_calloc = \<lambda>e. (Some 1, e), st_free = \<lambda>p e. e, st_CFRelease = \<lambda>h e. e, CFArrayCreateMutable = \<lambda>e. (Some 5, e),
     st_CFDataCreate = \<lambda>bs e. (Some 6, e), SecCertificateCreateWithData = \<lambda>d e. (Some 7, e),
     CFArrayAppendValue = \<lambda>a c e. e, SSLCreateContext = \<lambda>e. (Some 2, e), SSLSetIOFuncs = \<lambda>c e. (0, e),
     SSLSetConnection = \<lambda>c p e. (0, e), SSLSetPeerDomainName = \<lambda>c h e. (0, e),
     SSLSetProtocolVersionMin = \<lambda>c v e. (0, e), SSLSetBreakOnServerAuth = \<lambda>c e. (0, e),
     SSLCopyPeerTrust = \<lambda>c e. ((0, Some 3), e), SecTrustSetAnchorCertificates = \<lambda>t a e. e,
     SecTrustSetAnchorCertificatesOnly = \<lambda>t b e. e, SecTrustEvaluateWithError = \<lambda>t e. ((True, None), e),
     SSLHandshake = \<lambda>c e. if snd e = 0 then AskWrite [22] e (\<lambda>rc n e. AskRead 1 e (\<lambda>rc bs e. Finish (- 9841) (fst e, 1)))
       else Finish 0 e,
     SSLRead = \<lambda>c n e. AskRead n e (\<lambda>rc bs e. Finish (0, take n [1, 2]) e),
     SSLWrite = \<lambda>c bs e. AskWrite bs e (\<lambda>rc n e. Finish (rc, length bs) e),
     SSLClose = \<lambda>c e. Finish 0 e\<rparr>"

definition demo_stio :: "(int \<times> nat) stio" where
  "demo_stio = \<lparr>env = (0, 0), trace = [], oob = False\<rparr>"

definition st_demo_conn :: https_st where
  "st_demo_conn = \<lparr>st_addr = 1, st_ctx = Some 2, st_fd = 3, st_anchors = Some 5, st_ca_only = True,
     st_skip_verify = False, st_deadline_ns = 0, st_timed_out = False, st_eof = False\<rparr>"

lemma callbacks_end:
  "want \<le> length got \<Longrightarrow> st_read_loop A want got s w = Some ((errSecSuccess, got), s, w)"
  "length data \<le> sent \<Longrightarrow> st_write_loop A data sent s w = Some ((errSecSuccess, sent), s, w)"
  by (subst st_read_loop.simps st_write_loop.simps, simp)+

lemma st_demo_read: "st_deadline_ns s = 0 \<Longrightarrow> st_read demo_st (Suc 0) s w = Some ((0, [7]), s, check True w)"
  unfolding st_read_def by (subst st_read_loop.simps) (simp add: demo_st_def call_def ssl_codes callbacks_end)

lemma st_demo_write: "st_deadline_ns s = 0 \<Longrightarrow> st_write demo_st [b] s w = Some ((0, Suc 0), s, w)"
  unfolding st_write_def by (subst st_write_loop.simps) (simp add: demo_st_def call_def ssl_codes callbacks_end)

definition demo_done :: "(int \<times> nat) stio" where
  "demo_done = \<lparr>env = (0, 1), trace = [Got (StMem 1), Got (StCF 2), Note BreakOnAuth, Note ServerAuth, Got (StCF 3),
     Note (SetAnchors 3 5), Note (SetOnly 3 True), Note (Evaluated 3 True), Gave (StCF 3)], oob = False\<rparr>"

lemma st_demo_handshake:
  "https_st_handshake demo_st 3 None False (Some 5) True 0 0 demo_stio = Some ((0, 0), Some st_demo_conn, demo_done)"
proof -
  let ?w = "\<lparr>env = (0, 0), trace = [Got (StMem 1), Got (StCF 2), Note BreakOnAuth], oob = False\<rparr> :: (int \<times> nat) stio"
  have run: "SSLHandshake demo_st c e = (if snd e = 0 then AskWrite [22] e (\<lambda>rc n e. AskRead 1 e (\<lambda>rc bs e. Finish (- 9841) (fst e, 1)))
       else Finish 0 e)" for c e by (simp add: demo_st_def)
  have 2: "st_handshake_loop demo_st st_demo_conn demo_done = Some ((0, 0), Some st_demo_conn, demo_done)"
    by (subst st_handshake_loop.simps) (simp add: run demo_done_def st_demo_conn_def ssl_codes st_codes)
  have "evaluate_trust demo_st st_demo_conn (emit (Note ServerAuth) (check True (?w\<lparr>env := (0, 1)\<rparr>))) = (0, demo_done)"
    by (simp add: evaluate_trust_def copy_peer_trust_def st_demo_conn_def demo_done_def demo_st_def call_def act_def
        emit_def check_def st_cf_release_def give_back_def ssl_codes)
  then have "st_handshake_loop demo_st st_demo_conn ?w = Some ((0, 0), Some st_demo_conn, demo_done)"
    using 2 st_demo_read st_demo_write
    by (subst st_handshake_loop.simps) (simp add: run st_demo_conn_def ssl_codes st_codes check_def)
  then show ?thesis
    by (simp add: https_st_handshake_def demo_stio_def st_setup_def obtain_res_def call_def demo_st_def emit_def
        st_deadline_from_def ssl_codes st_demo_conn_def)
qed

lemma demo_session:
  "tls_session (st_open_conn demo_st 3 None False (Some 5) True 0 0) (st_step demo_st) (https_st_close demo_st) [] demo_stio
   = Some (0, emit (Gave (StMem 1)) (emit (Gave (StCF 2)) (emit (Gave (StCF 5)) demo_done)))"
proof -
  have "https_st_close demo_st (Some st_demo_conn) demo_done
      = Some (emit (Gave (StMem 1)) (emit (Gave (StCF 2)) (emit (Gave (StCF 5)) demo_done)))"
    by (simp add: https_st_close_def st_demo_conn_def demo_done_def demo_st_def st_now_ns_def call_def
        st_cf_release_def st_free_state_def give_back_def act_def emit_def)
  then show ?thesis by (simp add: tls_session_def st_demo_handshake)
qed

theorem https_st_handshake_verified_witness:
  "https_st_handshake demo_st 3 None False (Some 5) True 0 0 demo_stio = Some ((0, 0), Some st_demo_conn, demo_done)
   \<and> st_open st_demo_conn 3 False (Some 5) True
   \<and> (\<exists>ts. noted demo_done = noted demo_stio @ BreakOnAuth # concat (map (\<lambda>t. ServerAuth # verification st_demo_conn t True) ts))
   \<and> Evaluated 3 True \<in> set (noted demo_done)"
  using https_st_handshake_verified [OF st_demo_handshake] st_demo_handshake by (simp add: noted_def demo_done_def)

theorem https_st_session_balanced_witness:
  "\<exists>w'. tls_session (st_open_conn demo_st 3 None False (Some 5) True 0 0) (st_step demo_st) (https_st_close demo_st) [] demo_stio = Some (0, w')
     \<and> net w' (StCF 5) = - 1 \<and> net w' (StCF 2) = 0 \<and> net w' (StMem 1) = 0"
proof -
  have "net demo_stio r = 0" for r by (simp add: net_def demo_stio_def)
  then have "net (emit (Gave (StMem 1)) (emit (Gave (StCF 2)) (emit (Gave (StCF 5)) demo_done))) r = - of_bool (r = StCF 5)" for r
    using https_st_session_balanced [OF demo_session, of r] by (simp add: st_codes st_list_def)
  from this [of "StCF 5"] this [of "StCF 2"] this [of "StMem 1"] show ?thesis using demo_session by simp
qed

lemma demo_st_ok: "clock_ok demo_st fst" "ssl_io_ok demo_st"
  by (auto simp: clock_ok_def ssl_io_ok_def demo_st_def)

theorem https_st_transfers_return_witness:
  "clock_ok demo_st fst \<and> ssl_io_ok demo_st \<and> st_ctx st_demo_conn \<noteq> None
   \<and> (\<exists>rc n status bs s' w'. https_st_read demo_st (Some st_demo_conn) 2 1000 demo_done = Some ((rc, n, status, bs), Some s', w')
      \<and> n = length bs \<and> int n \<le> 2)
   \<and> (\<exists>rc n status s' w'. https_st_write demo_st (Some st_demo_conn) [1, 2, 3] 2 1000 demo_done = Some ((rc, n, status), Some s', w')
      \<and> int n \<le> 2)
   \<and> (\<exists>w'. https_st_close demo_st (Some st_demo_conn) demo_done = Some w')"
proof -
  have "st_ctx st_demo_conn \<noteq> None" "(0::int) < 2" "2 \<le> int (length [1::8 word, 2, 3])" by (simp_all add: st_demo_conn_def)
  note facts = https_st_transfers_return [OF demo_st_ok this, of 1000 demo_done]
  show ?thesis using facts demo_st_ok \<open>st_ctx st_demo_conn \<noteq> None\<close> by blast
qed

end
