(* ===== verification/MbedTls.thy ===== *)
theory MbedTls
  imports Ledger
begin

text \<open>
  The transport of \<open>internal/mbedtls/tls_mbedtls.c\<close>: TLS by mbedTLS over a connected socket, on Linux by direct system
  calls and on macOS by libc. mbedTLS calls back into this file for I/O and for entropy, so one of its calls is a tree
  that asks for bytes to be received, sent or drawn and goes on with the callback's answer; \<open>mb_run\<close> runs it. The
  library and the platform come as a record of functions. A context of mbedTLS is a part of the connection's
  structure and is named by its address. Times are unbounded integers.
\<close>

section \<open>Codes\<close>

definition HTTPS_MBED_OK :: int where "HTTPS_MBED_OK = 0"
definition HTTPS_MBED_ERR_ALLOC :: int where "HTTPS_MBED_ERR_ALLOC = - 1"
definition HTTPS_MBED_ERR_SETUP :: int where "HTTPS_MBED_ERR_SETUP = - 2"
definition HTTPS_MBED_ERR_CA :: int where "HTTPS_MBED_ERR_CA = - 3"
definition HTTPS_MBED_ERR_CLIENT_CERT :: int where "HTTPS_MBED_ERR_CLIENT_CERT = - 4"
definition HTTPS_MBED_ERR_HANDSHAKE :: int where "HTTPS_MBED_ERR_HANDSHAKE = - 5"
definition HTTPS_MBED_ERR_TIMEOUT :: int where "HTTPS_MBED_ERR_TIMEOUT = - 6"
definition HTTPS_MBED_ERR_IO :: int where "HTTPS_MBED_ERR_IO = - 7"
definition HTTPS_MBED_ERR_CLOSED :: int where "HTTPS_MBED_ERR_CLOSED = - 8"

definition MBEDTLS_ERR_SSL_TIMEOUT :: int where "MBEDTLS_ERR_SSL_TIMEOUT = - 0x6800"
definition MBEDTLS_ERR_SSL_WANT_READ :: int where "MBEDTLS_ERR_SSL_WANT_READ = - 0x6900"
definition MBEDTLS_ERR_SSL_WANT_WRITE :: int where "MBEDTLS_ERR_SSL_WANT_WRITE = - 0x6880"
definition MBEDTLS_ERR_SSL_PEER_CLOSE_NOTIFY :: int where "MBEDTLS_ERR_SSL_PEER_CLOSE_NOTIFY = - 0x7880"
definition MBEDTLS_ERR_ENTROPY_SOURCE_FAILED :: int where "MBEDTLS_ERR_ENTROPY_SOURCE_FAILED = - 0x003C"
definition NET_ERR_RECV_FAILED :: int where "NET_ERR_RECV_FAILED = - 0x004C"
definition NET_ERR_SEND_FAILED :: int where "NET_ERR_SEND_FAILED = - 0x004E"

lemmas mb_codes = HTTPS_MBED_OK_def HTTPS_MBED_ERR_ALLOC_def HTTPS_MBED_ERR_SETUP_def HTTPS_MBED_ERR_CA_def
  HTTPS_MBED_ERR_CLIENT_CERT_def HTTPS_MBED_ERR_HANDSHAKE_def HTTPS_MBED_ERR_TIMEOUT_def HTTPS_MBED_ERR_IO_def
  HTTPS_MBED_ERR_CLOSED_def

lemmas mb_ssl_codes = MBEDTLS_ERR_SSL_TIMEOUT_def MBEDTLS_ERR_SSL_WANT_READ_def MBEDTLS_ERR_SSL_WANT_WRITE_def
  MBEDTLS_ERR_SSL_PEER_CLOSE_NOTIFY_def MBEDTLS_ERR_ENTROPY_SOURCE_FAILED_def NET_ERR_RECV_FAILED_def NET_ERR_SEND_FAILED_def

section \<open>State and platform\<close>

record https_mbed =
  mb_addr :: nat
  mb_fd :: int
  mb_has_clicert :: bool
  mb_deadline_ns :: int
  mb_timed_out :: bool

datatype mb_res = MbMem nat | MbSsl nat | MbConf nat | MbCaCert nat | MbCliCert nat | MbKey nat | MbEntropy nat | MbDrbg nat

text \<open>
  The notes are the calls of mbedTLS that decide whether and with whom a connection comes about, with the address
  of the structure, the arguments and, where the call can fail, its result. The wrappers of these calls record them.
\<close>

datatype mb_note = Seeded nat bytes int | Parsed mb_res bytes int | Defaults nat int | AuthRequired nat bool | CaChain nat |
  MinVersion nat int | KeyParsed nat bytes int | OwnCert nat int | SslSetup nat int | HostName nat "string option" int |
  Shook nat int

type_synonym 'w mbio = "('w, mb_res, mb_note) ledger"

datatype ('w, 'a) mb_call =
    MbDone 'a 'w
  | MbRecv nat 'w "int \<Rightarrow> bytes \<Rightarrow> 'w \<Rightarrow> ('w, 'a) mb_call"
  | MbSend bytes 'w "int \<Rightarrow> 'w \<Rightarrow> ('w, 'a) mb_call"
  | MbRandom nat 'w "int \<Rightarrow> bytes \<Rightarrow> 'w \<Rightarrow> ('w, 'a) mb_call"

datatype plat = Linux | Darwin

text \<open>
  \<open>mb_getrandom\<close> returns a result that is not positive, or the bytes it drew; \<open>mb_sys_read\<close> and \<open>mb_sys_write\<close>
  return \<open>None\<close> for a negative result; \<open>mb_init\<close> and \<open>mb_fini\<close> are the \<open>mbedtls_*_init\<close> and \<open>mbedtls_*_free\<close> of a context.
\<close>

record 'w mb_api =
  mb_plat :: plat
  mb_clock_gettime :: "'w \<Rightarrow> (int \<times> int) \<times> 'w"
  mb_ppoll :: "int \<Rightarrow> bool \<Rightarrow> (int \<times> int) option \<Rightarrow> 'w \<Rightarrow> int \<times> 'w"
  mb_select :: "int \<Rightarrow> bool \<Rightarrow> (int \<times> int) option \<Rightarrow> 'w \<Rightarrow> int \<times> 'w"
  mb_getrandom :: "nat \<Rightarrow> 'w \<Rightarrow> (int + bytes) \<times> 'w"
  mb_arc4random :: "nat \<Rightarrow> 'w \<Rightarrow> bytes \<times> 'w"
  mb_sys_read :: "int \<Rightarrow> nat \<Rightarrow> 'w \<Rightarrow> bytes option \<times> 'w"
  mb_sys_write :: "int \<Rightarrow> bytes \<Rightarrow> 'w \<Rightarrow> nat option \<times> 'w"
  mb_calloc :: "'w \<Rightarrow> nat option \<times> 'w"
  mb_free :: "nat \<Rightarrow> 'w \<Rightarrow> 'w"
  mb_init :: "mb_res \<Rightarrow> 'w \<Rightarrow> 'w"
  mb_fini :: "mb_res \<Rightarrow> 'w \<Rightarrow> 'w"
  mb_add_source :: "nat \<Rightarrow> 'w \<Rightarrow> 'w"
  mb_drbg_seed :: "nat \<Rightarrow> bytes \<Rightarrow> 'w \<Rightarrow> ('w, int) mb_call"
  mb_crt_parse :: "mb_res \<Rightarrow> bytes \<Rightarrow> 'w \<Rightarrow> int \<times> 'w"
  mb_config_defaults :: "nat \<Rightarrow> 'w \<Rightarrow> int \<times> 'w"
  mb_conf_authmode :: "nat \<Rightarrow> bool \<Rightarrow> 'w \<Rightarrow> 'w"
  mb_conf_ca_chain :: "nat \<Rightarrow> 'w \<Rightarrow> 'w"
  mb_conf_rng :: "nat \<Rightarrow> 'w \<Rightarrow> 'w"
  mb_conf_min_tls_version :: "nat \<Rightarrow> int \<Rightarrow> 'w \<Rightarrow> 'w"
  mb_pk_parse_key :: "nat \<Rightarrow> bytes \<Rightarrow> 'w \<Rightarrow> ('w, int) mb_call"
  mb_conf_own_cert :: "nat \<Rightarrow> 'w \<Rightarrow> int \<times> 'w"
  mb_ssl_setup :: "nat \<Rightarrow> 'w \<Rightarrow> int \<times> 'w"
  mb_set_hostname :: "nat \<Rightarrow> string option \<Rightarrow> 'w \<Rightarrow> int \<times> 'w"
  mb_set_bio :: "nat \<Rightarrow> 'w \<Rightarrow> 'w"
  mb_ssl_handshake :: "nat \<Rightarrow> 'w \<Rightarrow> ('w, int) mb_call"
  mb_verify_result :: "nat \<Rightarrow> 'w \<Rightarrow> nat"
  mb_ssl_read :: "nat \<Rightarrow> nat \<Rightarrow> 'w \<Rightarrow> ('w, int \<times> bytes) mb_call"
  mb_ssl_write :: "nat \<Rightarrow> bytes \<Rightarrow> 'w \<Rightarrow> ('w, int) mb_call"
  mb_close_notify :: "nat \<Rightarrow> 'w \<Rightarrow> ('w, int) mb_call"

section \<open>Waiting, random bytes and the callbacks\<close>

text \<open>The time that is left, in seconds and a fraction of \<open>unit\<close> nanoseconds: \<open>None\<close> when the deadline has passed,
  \<open>Some None\<close> without one. \<open>now\<close> is read once, before the wait.\<close>

definition plat_left :: "int \<Rightarrow> int \<Rightarrow> int \<Rightarrow> (int \<times> int) option option" where
  "plat_left unit deadline_ns now =
    (if deadline_ns \<noteq> 0 then
       let remaining = deadline_ns - now
       in if remaining \<le> 0 then None else Some (Some (remaining div 1000000000, remaining mod 1000000000 div unit))
     else Some None)"

partial_function (option) plat_wait_linux ::
  "'w mb_api \<Rightarrow> int \<Rightarrow> bool \<Rightarrow> int \<Rightarrow> int \<Rightarrow> 'w mbio \<Rightarrow> (int \<times> 'w mbio) option" where
  "plat_wait_linux A fd for_write deadline_ns now w = (case plat_left 1 deadline_ns now of
     None \<Rightarrow> Some (- 1, w)
   | Some tsp \<Rightarrow>
       let (rc, w) = call (mb_ppoll A fd for_write tsp) w
       in if rc > 0 then Some (0, w)
          else if rc = 0 then Some (- 1, w)
          else if rc = - 4 then plat_wait_linux A fd for_write deadline_ns now w
          else Some (- 1, w))"

partial_function (option) plat_wait_darwin_loop ::
  "'w mb_api \<Rightarrow> int \<Rightarrow> bool \<Rightarrow> int \<Rightarrow> int \<Rightarrow> 'w mbio \<Rightarrow> (int \<times> 'w mbio) option" where
  "plat_wait_darwin_loop A fd for_write deadline_ns now w =
    (let w = check (fd div 32 < 32) w
     in case plat_left 1000 deadline_ns now of
          None \<Rightarrow> Some (- 1, w)
        | Some tvp \<Rightarrow>
            let (rc, w) = call (mb_select A fd for_write tvp) w
            in if rc > 0 then Some (0, w)
               else if rc = 0 then Some (- 1, w)
               else plat_wait_darwin_loop A fd for_write deadline_ns now w)"

definition plat_wait_darwin ::
  "'w mb_api \<Rightarrow> int \<Rightarrow> bool \<Rightarrow> int \<Rightarrow> int \<Rightarrow> 'w mbio \<Rightarrow> (int \<times> 'w mbio) option" where
  "plat_wait_darwin A fd for_write deadline_ns now w =
    (if fd < 0 \<or> fd \<ge> 1024 then Some (- 1, w) else plat_wait_darwin_loop A fd for_write deadline_ns now w)"

definition plat_wait :: "'w mb_api \<Rightarrow> int \<Rightarrow> bool \<Rightarrow> int \<Rightarrow> int \<Rightarrow> 'w mbio \<Rightarrow> (int \<times> 'w mbio) option" where
  "plat_wait A = (case mb_plat A of Linux \<Rightarrow> plat_wait_linux A | Darwin \<Rightarrow> plat_wait_darwin A)"

partial_function (option) plat_random_linux :: "'w mb_api \<Rightarrow> nat \<Rightarrow> bytes \<Rightarrow> 'w mbio \<Rightarrow> ((int \<times> bytes) \<times> 'w mbio) option" where
  "plat_random_linux A len got w =
    (if length got < len then
       let (n, w) = call (mb_getrandom A (len - length got)) w
       in case n of
            Inl e \<Rightarrow> if e = - 4 then plat_random_linux A len got w else Some ((- 1, got), w)
          | Inr bs \<Rightarrow>
              if bs = [] then Some ((- 1, got), w)
              else plat_random_linux A len (got @ bs) (check (length bs \<le> len - length got) w)
     else Some ((0, got), w))"

definition plat_random :: "'w mb_api \<Rightarrow> nat \<Rightarrow> 'w mbio \<Rightarrow> ((int \<times> bytes) \<times> 'w mbio) option" where
  "plat_random A len w = (case mb_plat A of
     Linux \<Rightarrow> plat_random_linux A len [] w
   | Darwin \<Rightarrow> let (bs, w) = call (mb_arc4random A len) w in Some ((0, bs), w))"

definition mb_now_ns :: "'w mb_api \<Rightarrow> 'w mbio \<Rightarrow> int \<times> 'w mbio" where
  "mb_now_ns A w = (let ((sec, nsec), w) = call (mb_clock_gettime A) w in (sec * 1000000000 + nsec, w))"

definition mb_wait_ready :: "'w mb_api \<Rightarrow> https_mbed \<Rightarrow> bool \<Rightarrow> 'w mbio \<Rightarrow> (int \<times> 'w mbio) option" where
  "mb_wait_ready A s for_write w =
    (let (now, w) = mb_now_ns A w in plat_wait A (mb_fd s) for_write (mb_deadline_ns s) now w)"

definition bio_send :: "'w mb_api \<Rightarrow> bytes \<Rightarrow> https_mbed \<Rightarrow> 'w mbio \<Rightarrow> (int \<times> https_mbed \<times> 'w mbio) option" where
  "bio_send A buf s w = do {
     (r, w) \<leftarrow> (if mb_deadline_ns s \<noteq> 0 then mb_wait_ready A s True w else Some (0, w));
     (if r \<noteq> 0 then Some (MBEDTLS_ERR_SSL_TIMEOUT, s\<lparr>mb_timed_out := True\<rparr>, w)
      else
        let (n, w) = call (mb_sys_write A (mb_fd s) buf) w
        in Some (case n of None \<Rightarrow> NET_ERR_SEND_FAILED | Some n \<Rightarrow> sint (word_of_nat n :: 32 word), s, w)) }"

definition bio_recv :: "'w mb_api \<Rightarrow> nat \<Rightarrow> https_mbed \<Rightarrow> 'w mbio \<Rightarrow> ((int \<times> bytes) \<times> https_mbed \<times> 'w mbio) option" where
  "bio_recv A len s w = do {
     (r, w) \<leftarrow> (if mb_deadline_ns s \<noteq> 0 then mb_wait_ready A s False w else Some (0, w));
     (if r \<noteq> 0 then Some ((MBEDTLS_ERR_SSL_TIMEOUT, []), s\<lparr>mb_timed_out := True\<rparr>, w)
      else
        let (n, w) = call (mb_sys_read A (mb_fd s) len) w
        in case n of
             None \<Rightarrow> Some ((NET_ERR_RECV_FAILED, []), s, w)
           | Some bs \<Rightarrow> Some ((sint (word_of_nat (length bs) :: 32 word), bs), s, check (length bs \<le> len) w)) }"

definition entropy_platform :: "'w mb_api \<Rightarrow> nat \<Rightarrow> 'w mbio \<Rightarrow> ((int \<times> bytes) \<times> 'w mbio) option" where
  "entropy_platform A len w = do {
     ((rc, bs), w) \<leftarrow> plat_random A len w;
     Some (if rc \<noteq> 0 then (MBEDTLS_ERR_ENTROPY_SOURCE_FAILED, []) else (0, bs), w) }"

primrec mb_run :: "'w mb_api \<Rightarrow> ('w, 'a) mb_call \<Rightarrow> https_mbed \<Rightarrow> 'w mbio \<Rightarrow> ('a \<times> https_mbed \<times> 'w mbio) option" where
  "mb_run A (MbDone x e) s w = Some (x, s, w\<lparr>env := e\<rparr>)"
| "mb_run A (MbRecv n e k) s w = do {
     ((rc, bs), s, w) \<leftarrow> bio_recv A n s (w\<lparr>env := e\<rparr>);
     mb_run A (k rc bs (env w)) s w }"
| "mb_run A (MbSend bs e k) s w = do {
     (rc, s, w) \<leftarrow> bio_send A bs s (w\<lparr>env := e\<rparr>);
     mb_run A (k rc (env w)) s w }"
| "mb_run A (MbRandom n e k) s w = do {
     ((rc, bs), w) \<leftarrow> entropy_platform A n (w\<lparr>env := e\<rparr>);
     mb_run A (k rc bs (env w)) s w }"

section \<open>Connections\<close>

definition mb_fini_ctx :: "'w mb_api \<Rightarrow> mb_res \<Rightarrow> 'w mbio \<Rightarrow> 'w mbio" where
  "mb_fini_ctx A r = give_back r (mb_fini A r)"

definition mb_init_ctx :: "'w mb_api \<Rightarrow> mb_res \<Rightarrow> 'w mbio \<Rightarrow> 'w mbio" where
  "mb_init_ctx A r = init_ctx r (mb_init A r)"

definition mb_free_state :: "'w mb_api \<Rightarrow> https_mbed option \<Rightarrow> 'w mbio \<Rightarrow> 'w mbio" where
  "mb_free_state A s w = (case s of
     None \<Rightarrow> w
   | Some s \<Rightarrow>
       let p = mb_addr s;
           w = mb_fini_ctx A (MbSsl p) w;
           w = mb_fini_ctx A (MbConf p) w;
           w = mb_fini_ctx A (MbCaCert p) w;
           w = (if mb_has_clicert s then let w = mb_fini_ctx A (MbCliCert p) w in mb_fini_ctx A (MbKey p) w else w);
           w = mb_fini_ctx A (MbDrbg p) w;
           w = mb_fini_ctx A (MbEntropy p) w
       in give_back (MbMem p) (mb_free A p) w)"

definition mb_deadline_from :: "'w mb_api \<Rightarrow> int \<Rightarrow> 'w mbio \<Rightarrow> int \<times> 'w mbio" where
  "mb_deadline_from A timeout_ns w =
    (if timeout_ns > 0 then let (now, w) = mb_now_ns A w in (now + timeout_ns, w) else (0, w))"

text \<open>Whether the deadline has passed; the clock is only read when there is one.\<close>

definition mb_late :: "'w mb_api \<Rightarrow> https_mbed \<Rightarrow> 'w mbio \<Rightarrow> bool \<times> 'w mbio" where
  "mb_late A s w =
    (if mb_deadline_ns s \<noteq> 0 then let (now, w) = mb_now_ns A w in (now \<ge> mb_deadline_ns s, w) else (False, w))"

definition mb_want :: "int \<Rightarrow> bool" where
  "mb_want rc \<longleftrightarrow> rc = MBEDTLS_ERR_SSL_WANT_READ \<or> rc = MBEDTLS_ERR_SSL_WANT_WRITE"

text \<open>A handshake returns its code, \<open>*tls_err\<close> and \<open>*verify_flags\<close>, and the connection, which is gone after a failure.\<close>

type_synonym 'w mb_hs = "((int \<times> int \<times> nat) \<times> https_mbed option \<times> 'w mbio) option"

definition mb_fail :: "'w mb_api \<Rightarrow> https_mbed \<Rightarrow> int \<Rightarrow> int \<Rightarrow> 'w mbio \<Rightarrow> 'w mb_hs" where
  "mb_fail A s code tls_err w = Some ((code, tls_err, 0), None, mb_free_state A (Some s) w)"

subsection \<open>Calls of mbedTLS on the trace\<close>

definition mbn_seed :: "'w mb_api \<Rightarrow> nat \<Rightarrow> bytes \<Rightarrow> https_mbed \<Rightarrow> 'w mbio \<Rightarrow> (int \<times> https_mbed \<times> 'w mbio) option" where
  "mbn_seed A p pers s w = do {
     (rc, s, w) \<leftarrow> mb_run A (mb_drbg_seed A p pers (env w)) s w;
     Some (rc, s, emit (Note (Seeded p pers rc)) w) }"

definition mbn_parse :: "'w mb_api \<Rightarrow> mb_res \<Rightarrow> bytes \<Rightarrow> 'w mbio \<Rightarrow> int \<times> 'w mbio" where
  "mbn_parse A q pem w = (let (rc, w) = call (mb_crt_parse A q pem) w in (rc, emit (Note (Parsed q pem rc)) w))"

definition mbn_defaults :: "'w mb_api \<Rightarrow> nat \<Rightarrow> 'w mbio \<Rightarrow> int \<times> 'w mbio" where
  "mbn_defaults A p w = (let (rc, w) = call (mb_config_defaults A p) w in (rc, emit (Note (Defaults p rc)) w))"

definition mbn_authmode :: "'w mb_api \<Rightarrow> nat \<Rightarrow> bool \<Rightarrow> 'w mbio \<Rightarrow> 'w mbio" where
  "mbn_authmode A p required w = emit (Note (AuthRequired p required)) (act (mb_conf_authmode A p required) w)"

definition mbn_ca_chain :: "'w mb_api \<Rightarrow> nat \<Rightarrow> 'w mbio \<Rightarrow> 'w mbio" where
  "mbn_ca_chain A p w = emit (Note (CaChain p)) (act (mb_conf_ca_chain A p) w)"

definition mbn_min_version :: "'w mb_api \<Rightarrow> nat \<Rightarrow> int \<Rightarrow> 'w mbio \<Rightarrow> 'w mbio" where
  "mbn_min_version A p v w = emit (Note (MinVersion p v)) (act (mb_conf_min_tls_version A p v) w)"

definition mbn_key :: "'w mb_api \<Rightarrow> nat \<Rightarrow> bytes \<Rightarrow> https_mbed \<Rightarrow> 'w mbio \<Rightarrow> (int \<times> https_mbed \<times> 'w mbio) option" where
  "mbn_key A p pem s w = do {
     (rc, s, w) \<leftarrow> mb_run A (mb_pk_parse_key A p pem (env w)) s w;
     Some (rc, s, emit (Note (KeyParsed p pem rc)) w) }"

definition mbn_own_cert :: "'w mb_api \<Rightarrow> nat \<Rightarrow> 'w mbio \<Rightarrow> int \<times> 'w mbio" where
  "mbn_own_cert A p w = (let (rc, w) = call (mb_conf_own_cert A p) w in (rc, emit (Note (OwnCert p rc)) w))"

definition mbn_setup :: "'w mb_api \<Rightarrow> nat \<Rightarrow> 'w mbio \<Rightarrow> int \<times> 'w mbio" where
  "mbn_setup A p w = (let (rc, w) = call (mb_ssl_setup A p) w in (rc, emit (Note (SslSetup p rc)) w))"

definition mbn_hostname :: "'w mb_api \<Rightarrow> nat \<Rightarrow> string option \<Rightarrow> 'w mbio \<Rightarrow> int \<times> 'w mbio" where
  "mbn_hostname A p host w = (let (rc, w) = call (mb_set_hostname A p host) w in (rc, emit (Note (HostName p host rc)) w))"

definition mbn_shake :: "'w mb_api \<Rightarrow> nat \<Rightarrow> https_mbed \<Rightarrow> 'w mbio \<Rightarrow> (int \<times> https_mbed \<times> 'w mbio) option" where
  "mbn_shake A p s w = do {
     (rc, s, w) \<leftarrow> mb_run A (mb_ssl_handshake A p (env w)) s w;
     Some (rc, s, emit (Note (Shook p rc)) w) }"

subsection \<open>The stages\<close>

partial_function (option) mb_handshake_loop :: "'w mb_api \<Rightarrow> https_mbed \<Rightarrow> 'w mbio \<Rightarrow> 'w mb_hs" where
  "mb_handshake_loop A s w = do {
     (rc, s, w) \<leftarrow> mbn_shake A (mb_addr s) s w;
     (if rc = 0 then Some ((HTTPS_MBED_OK, 0, 0), Some (s\<lparr>mb_deadline_ns := 0\<rparr>), w)
      else if mb_want rc then
        let (late, w) = mb_late A s w
        in if late then mb_fail A s HTTPS_MBED_ERR_TIMEOUT 0 w else mb_handshake_loop A s w
      else
        let flags = mb_verify_result A (mb_addr s) (env w); timed_out = mb_timed_out s; w = mb_free_state A (Some s) w
        in Some ((if timed_out then HTTPS_MBED_ERR_TIMEOUT else HTTPS_MBED_ERR_HANDSHAKE, rc, flags), None, w)) }"

text \<open>A buffer comes with its length; \<open>None\<close> is the null pointer.\<close>

definition given :: "bytes option \<Rightarrow> bool" where
  "given b = (case b of None \<Rightarrow> False | Some bs \<Rightarrow> length bs > 0)"

definition mb_load_ca :: "'w mb_api \<Rightarrow> nat \<Rightarrow> bool \<Rightarrow> bytes option \<Rightarrow> 'w mbio \<Rightarrow> int \<times> 'w mbio" where
  "mb_load_ca A p skip_verify ca_pem w =
    (if \<not> skip_verify \<and> given ca_pem then mbn_parse A (MbCaCert p) (the ca_pem) w else (0, w))"

definition mb_configure :: "'w mb_api \<Rightarrow> nat \<Rightarrow> bool \<Rightarrow> int \<Rightarrow> 'w mbio \<Rightarrow> 'w mbio" where
  "mb_configure A p skip_verify min_version w =
    (let w = mbn_authmode A p (\<not> skip_verify) w;
         w = (if \<not> skip_verify then mbn_ca_chain A p w else w);
         w = act (mb_conf_rng A p) w
     in if min_version \<noteq> 0 then mbn_min_version A p min_version w else w)"

definition mb_client_cert ::
  "'w mb_api \<Rightarrow> bytes option \<Rightarrow> bytes option \<Rightarrow> https_mbed \<Rightarrow> 'w mbio \<Rightarrow> (int \<times> https_mbed \<times> 'w mbio) option" where
  "mb_client_cert A cert_pem key_pem s w =
    (if given cert_pem \<and> given key_pem then
       let p = mb_addr s;
           w = mb_init_ctx A (MbCliCert p) w;
           w = mb_init_ctx A (MbKey p) w;
           s = s\<lparr>mb_has_clicert := True\<rparr>;
           (rc, w) = mbn_parse A (MbCliCert p) (the cert_pem) w
       in if rc \<noteq> 0 then Some (rc, s, w)
          else do {
            (rc, s, w) \<leftarrow> mbn_key A p (the key_pem) s w;
            (if rc \<noteq> 0 then Some (rc, s, w)
             else let (rc, w) = mbn_own_cert A p w in Some (rc, s, w)) }
     else Some (0, s, w))"

text \<open>From \<open>mbedtls_ssl_setup\<close> to the end.\<close>

definition mb_connect :: "'w mb_api \<Rightarrow> string option \<Rightarrow> https_mbed \<Rightarrow> 'w mbio \<Rightarrow> 'w mb_hs" where
  "mb_connect A host s w =
    (let p = mb_addr s; (rc, w) = mbn_setup A p w
     in if rc \<noteq> 0 then mb_fail A s HTTPS_MBED_ERR_SETUP rc w
        else
          let (rc, w) = mbn_hostname A p host w
          in if rc \<noteq> 0 then mb_fail A s HTTPS_MBED_ERR_SETUP rc w
             else mb_handshake_loop A s (act (mb_set_bio A p) w))"

text \<open>\<open>tinygodriver/https\<close>\<close>

definition mbed_pers :: bytes where
  "mbed_pers = [116, 105, 110, 121, 103, 111, 100, 114, 105, 118, 101, 114, 47, 104, 116, 116, 112, 115]"

definition mb_new :: "'w mb_api \<Rightarrow> nat \<Rightarrow> int \<Rightarrow> int \<Rightarrow> 'w mbio \<Rightarrow> https_mbed \<times> 'w mbio" where
  "mb_new A p fd timeout_ns w =
    (let (dl, w) = mb_deadline_from A timeout_ns w;
         w = mb_init_ctx A (MbSsl p) w;
         w = mb_init_ctx A (MbConf p) w;
         w = mb_init_ctx A (MbCaCert p) w;
         w = mb_init_ctx A (MbEntropy p) w;
         w = mb_init_ctx A (MbDrbg p) w;
         w = act (mb_add_source A p) w
     in (\<lparr>mb_addr = p, mb_fd = fd, mb_has_clicert = False, mb_deadline_ns = dl, mb_timed_out = False\<rparr>, w))"

definition https_mbed_handshake ::
  "'w mb_api \<Rightarrow> int \<Rightarrow> string option \<Rightarrow> bool \<Rightarrow> int \<Rightarrow> bytes option \<Rightarrow> bytes option \<Rightarrow> bytes option \<Rightarrow> int \<Rightarrow> 'w mbio \<Rightarrow> 'w mb_hs" where
  "https_mbed_handshake A fd host skip_verify min_version ca_pem cert_pem key_pem timeout_ns w =
    (case obtain_res MbMem (mb_calloc A) w of
       (None, w) \<Rightarrow> Some ((HTTPS_MBED_ERR_ALLOC, 0, 0), None, w)
     | (Some p, w) \<Rightarrow>
         let (s, w) = mb_new A p fd timeout_ns w
         in do {
           (rc, s, w) \<leftarrow> mbn_seed A p mbed_pers s w;
           (if rc \<noteq> 0 then mb_fail A s HTTPS_MBED_ERR_SETUP rc w
            else
              let (rc, w) = mb_load_ca A p skip_verify ca_pem w
              in if rc < 0 then mb_fail A s HTTPS_MBED_ERR_CA rc w
                 else
                   let (rc, w) = mbn_defaults A p w
                   in if rc \<noteq> 0 then mb_fail A s HTTPS_MBED_ERR_SETUP rc w
                      else do {
                        (rc, s, w) \<leftarrow> mb_client_cert A cert_pem key_pem s (mb_configure A p skip_verify min_version w);
                        (if rc \<noteq> 0 then mb_fail A s HTTPS_MBED_ERR_CLIENT_CERT rc w else mb_connect A host s w) }) })"

section \<open>Transfers\<close>

text \<open>A transfer returns its code, \<open>*n\<close>, \<open>*tls_err\<close>, and the bytes it put into the buffer.\<close>

partial_function (option) mb_read_loop ::
  "'w mb_api \<Rightarrow> nat \<Rightarrow> https_mbed \<Rightarrow> 'w mbio \<Rightarrow> ((int \<times> int \<times> int \<times> bytes) \<times> https_mbed \<times> 'w mbio) option" where
  "mb_read_loop A len s w = do {
     ((rc, bs), s, w) \<leftarrow> mb_run A (mb_ssl_read A (mb_addr s) len (env w)) s w;
     let w = check (length bs \<le> len) w;
     (if rc > 0 then Some ((HTTPS_MBED_OK, rc, 0, bs), s, w)
      else if rc = MBEDTLS_ERR_SSL_PEER_CLOSE_NOTIFY \<or> rc = 0 then Some ((HTTPS_MBED_OK, 0, 0, bs), s, w)
      else if mb_want rc then
        let (late, w) = mb_late A s w
        in if late then Some ((HTTPS_MBED_ERR_TIMEOUT, 0, 0, bs), s, w) else mb_read_loop A len s w
      else Some ((if mb_timed_out s then HTTPS_MBED_ERR_TIMEOUT else HTTPS_MBED_ERR_IO, 0, rc, bs), s, w)) }"

definition https_mbed_read ::
  "'w mb_api \<Rightarrow> https_mbed option \<Rightarrow> int \<Rightarrow> int \<Rightarrow> 'w mbio
   \<Rightarrow> ((int \<times> int \<times> int \<times> bytes) \<times> https_mbed option \<times> 'w mbio) option" where
  "https_mbed_read A handle len timeout_ns w = (case handle of
     None \<Rightarrow> Some ((HTTPS_MBED_ERR_CLOSED, 0, 0, []), None, w)
   | Some s \<Rightarrow>
       if len \<le> 0 then Some ((HTTPS_MBED_OK, 0, 0, []), handle, w)
       else
         let (dl, w) = mb_deadline_from A timeout_ns w
         in map_option (\<lambda>(x, s, w). (x, Some s, w))
              (mb_read_loop A (nat len) (s\<lparr>mb_deadline_ns := dl, mb_timed_out := False\<rparr>) w))"

partial_function (option) mb_write_loop ::
  "'w mb_api \<Rightarrow> bytes \<Rightarrow> nat \<Rightarrow> https_mbed \<Rightarrow> 'w mbio \<Rightarrow> ((int \<times> nat \<times> int) \<times> https_mbed \<times> 'w mbio) option" where
  "mb_write_loop A buf written s w =
    (if written < length buf then do {
       (rc, s, w) \<leftarrow> mb_run A (mb_ssl_write A (mb_addr s) (drop written buf) (env w)) s w;
       (if rc > 0 then mb_write_loop A buf (written + nat rc) s w
        else if mb_want rc then
          let (late, w) = mb_late A s w
          in if late then Some ((HTTPS_MBED_ERR_TIMEOUT, written, 0), s, w) else mb_write_loop A buf written s w
        else Some ((if mb_timed_out s then HTTPS_MBED_ERR_TIMEOUT else HTTPS_MBED_ERR_IO, written, rc), s, w)) }
     else Some ((HTTPS_MBED_OK, written, 0), s, w))"

definition https_mbed_write ::
  "'w mb_api \<Rightarrow> https_mbed option \<Rightarrow> bytes \<Rightarrow> int \<Rightarrow> int \<Rightarrow> 'w mbio
   \<Rightarrow> ((int \<times> nat \<times> int) \<times> https_mbed option \<times> 'w mbio) option" where
  "https_mbed_write A handle buf len timeout_ns w = (case handle of
     None \<Rightarrow> Some ((HTTPS_MBED_ERR_CLOSED, 0, 0), None, w)
   | Some s \<Rightarrow>
       if len \<le> 0 then Some ((HTTPS_MBED_OK, 0, 0), handle, w)
       else
         let w = check (nat len \<le> length buf) w;
             (dl, w) = mb_deadline_from A timeout_ns w
         in map_option (\<lambda>(x, s, w). (x, Some s, w))
              (mb_write_loop A (take (nat len) buf) 0 (s\<lparr>mb_deadline_ns := dl, mb_timed_out := False\<rparr>) w))"

definition https_mbed_close :: "'w mb_api \<Rightarrow> https_mbed option \<Rightarrow> 'w mbio \<Rightarrow> 'w mbio option" where
  "https_mbed_close A handle w = (case handle of
     None \<Rightarrow> Some w
   | Some s \<Rightarrow>
       let (now, w) = mb_now_ns A w;
           s = s\<lparr>mb_deadline_ns := now + 100000000\<rparr>
       in do {
         (_, s, w) \<leftarrow> mb_run A (mb_close_notify A (mb_addr s) (env w)) s w;
         Some (mb_free_state A (Some s) w) })"

section \<open>Self test and CPU features\<close>

text \<open>The results of the self tests of AES, GCM, SHA-256 and SHA-512. A test only runs when those before it passed.\<close>

definition https_mbed_self_test :: "('w \<Rightarrow> int \<times> 'w) \<Rightarrow> ('w \<Rightarrow> int \<times> 'w) \<Rightarrow> ('w \<Rightarrow> int \<times> 'w) \<Rightarrow> ('w \<Rightarrow> int \<times> 'w) \<Rightarrow> 'w \<Rightarrow> int \<times> 'w" where
  "https_mbed_self_test aes gcm sha256 sha512 e =
    (let (rc, e) = aes e
     in if rc \<noteq> 0 then (- 1, e)
        else let (rc, e) = gcm e
             in if rc \<noteq> 0 then (- 2, e)
                else let (rc, e) = sha256 e
                     in if rc \<noteq> 0 then (- 3, e)
                        else let (rc, e) = sha512 e in if rc \<noteq> 0 then (- 4, e) else (0, e))"

text \<open>What the build sees of the processor: the kernel's capability word on Linux for AArch64, AES-NI on x86-64.\<close>

datatype hw_source = AuxHwcap "64 word" | Aesni bool | NoHwSource

definition https_mbed_hwcaps :: "hw_source \<Rightarrow> int" where
  "https_mbed_hwcaps src = (case src of
     AuxHwcap c \<Rightarrow>
       let r = (0 :: 32 word);
           r = (if c AND push_bit 3 1 \<noteq> 0 then r OR 1 else r);
           r = (if c AND push_bit 6 1 \<noteq> 0 then r OR 2 else r);
           r = (if c AND push_bit 21 1 \<noteq> 0 then r OR 4 else r)
       in sint r
   | Aesni b \<Rightarrow> if b then 1 else 0
   | NoHwSource \<Rightarrow> - 1)"

end
