(* ===== verification/MbedTls_Correct.thy ===== *)
theory MbedTls_Correct
  imports MbedTls TlsSession
begin

text \<open>
  Proofs about the mbedTLS transport: what its callbacks leave alone, how a handshake configures the verification of the
  server, who owns what over a connection's life, and the wait of the macOS build that no deadline ends.
\<close>

lemmas plat_wait_linux_induct = plat_wait_linux.raw_induct [rotated, consumes 1, case_names step]
lemmas plat_wait_darwin_loop_induct = plat_wait_darwin_loop.raw_induct [rotated, consumes 1, case_names step]
lemmas plat_random_linux_induct = plat_random_linux.raw_induct [rotated, consumes 1, case_names step]
lemmas mb_handshake_loop_induct = mb_handshake_loop.raw_induct [rotated, consumes 1, case_names step]
lemmas mb_read_loop_induct = mb_read_loop.raw_induct [rotated, consumes 1, case_names step]
lemmas mb_write_loop_induct = mb_write_loop.raw_induct [rotated, consumes 1, case_names step]

section \<open>The callbacks\<close>

text \<open>The system calls return no more bytes than they were asked for.\<close>

definition mb_sys_ok :: "'w mb_api \<Rightarrow> bool" where
  "mb_sys_ok A \<longleftrightarrow> (\<forall>fd n e bs. fst (mb_sys_read A fd n e) = Some bs \<longrightarrow> length bs \<le> n)
     \<and> (\<forall>n e bs. fst (mb_getrandom A n e) = Inr bs \<longrightarrow> length bs \<le> n)"

definition mb_quiet :: "'w mb_api \<Rightarrow> 'w mbio \<Rightarrow> 'w mbio \<Rightarrow> bool" where
  "mb_quiet A w w' \<longleftrightarrow> trace w' = trace w \<and> (mb_sys_ok A \<longrightarrow> oob w' = oob w)"

lemma mb_quiet_refl [simp]: "mb_quiet A w w" "mb_quiet A w (w\<lparr>env := e\<rparr>)"
  by (simp_all add: mb_quiet_def)

lemma mb_quiet_trans: "mb_quiet A w w' \<Longrightarrow> mb_quiet A w' w'' \<Longrightarrow> mb_quiet A w w''"
  by (simp add: mb_quiet_def)

lemma mb_quiet_call: "call f w = (x, w') \<Longrightarrow> mb_quiet A w w'"
  by (auto simp: call_eq)

lemma mb_quiet_env: "mb_quiet A (w\<lparr>env := e\<rparr>) w' \<longleftrightarrow> mb_quiet A w w'"
  by (simp add: mb_quiet_def)

lemma plat_wait_linux_quiet: "plat_wait_linux A fd fw dl now w = Some y \<Longrightarrow> mb_quiet A w (snd y)"
proof (induction rule: plat_wait_linux_induct)
  case (step rec A fd fw dl now w y)
  show ?case
  proof (cases "plat_left 1 dl now")
    case (Some tsp)
    obtain rc w1 where c: "call (mb_ppoll A fd fw tsp) w = (rc, w1)" by fastforce
    show ?thesis using step(2) Some c mb_quiet_call [OF c] step(1) [of A fd fw dl now w1 y]
      by (auto split: if_splits intro: mb_quiet_trans)
  qed (use step(2) in auto)
qed

lemma plat_wait_darwin_loop_quiet: "plat_wait_darwin_loop A fd fw dl now w = Some y \<Longrightarrow> fd < 1024 \<Longrightarrow> mb_quiet A w (snd y)"
proof (induction rule: plat_wait_darwin_loop_induct)
  case (step rec A fd fw dl now w y)
  have w0: "mb_quiet A w (check (fd div 32 < 32) w)" using fd_word [OF step(3)] by (simp add: mb_quiet_def)
  show ?case
  proof (cases "plat_left 1000 dl now")
    case (Some tvp)
    obtain rc w1 where c: "call (mb_select A fd fw tvp) (check (fd div 32 < 32) w) = (rc, w1)" by fastforce
    have w1: "mb_quiet A w w1" by (rule mb_quiet_trans [OF w0 mb_quiet_call [OF c]])
    show ?thesis using step(2,3) Some c w1 step(1) [of A fd fw dl now w1 y]
      by (auto split: if_splits intro: mb_quiet_trans)
  qed (use step(2) w0 in auto)
qed

lemma plat_wait_quiet: "plat_wait A fd fw dl now w = Some y \<Longrightarrow> mb_quiet A w (snd y)"
  by (auto simp: plat_wait_def plat_wait_darwin_def split: plat.splits if_splits
      dest: plat_wait_linux_quiet plat_wait_darwin_loop_quiet)

lemma plat_random_linux_quiet: "plat_random_linux A len got w = Some y \<Longrightarrow> mb_quiet A w (snd y)"
proof (induction rule: plat_random_linux_induct)
  case (step rec A len got w y)
  obtain n w1 where c: "call (mb_getrandom A (len - length got)) w = (n, w1)" by fastforce
  note w1 = mb_quiet_call [OF c, of A]
  have w2: "mb_quiet A w (check (length bs \<le> len - length got) w1)" if "n = Inr bs" for bs
    using w1 c that by (auto simp: mb_quiet_def mb_sys_ok_def call_eq)
  consider "\<not> length got < len" | "length got < len" "n = Inl (- 4)" | e where "length got < len" "n = Inl e" "e \<noteq> - 4"
    | "length got < len" "n = Inr []" | bs where "length got < len" "n = Inr bs" "bs \<noteq> []"
    by (cases n) auto
  then show ?case
  proof cases
    case 2
    then show ?thesis using step(2) c step(1) [of A len got w1 y] w1 by (auto intro: mb_quiet_trans)
  next
    case (5 bs)
    then show ?thesis using step(2) c step(1) [of A len "got @ bs" _ y] w2 [of bs] by (auto intro: mb_quiet_trans)
  qed (use step(2) c w1 in auto)
qed

lemma entropy_platform_quiet: "entropy_platform A len w = Some (x, w') \<Longrightarrow> mb_quiet A w w'"
  by (auto simp: entropy_platform_def plat_random_def split: bind_splits plat.splits prod.splits
      dest: plat_random_linux_quiet mb_quiet_call)

lemma mb_now_ns_quiet: "mb_now_ns A w = (t, w') \<Longrightarrow> mb_quiet A w w'"
  by (auto simp: mb_now_ns_def split: prod.splits dest: mb_quiet_call)

lemma mb_wait_quiet:
  "(if mb_deadline_ns s \<noteq> 0 then mb_wait_ready A s fw w else Some (0, w)) = Some (r, w') \<Longrightarrow> mb_quiet A w w'"
  by (auto simp: mb_wait_ready_def split: if_splits prod.splits dest!: plat_wait_quiet mb_now_ns_quiet intro: mb_quiet_trans)

text \<open>While mbedTLS runs, only the flag of a timeout changes in a connection.\<close>

definition mb_kept :: "'w mb_api \<Rightarrow> https_mbed \<Rightarrow> 'w mbio \<Rightarrow> https_mbed \<Rightarrow> 'w mbio \<Rightarrow> bool" where
  "mb_kept A s w s' w' \<longleftrightarrow> s'\<lparr>mb_timed_out := False\<rparr> = s\<lparr>mb_timed_out := False\<rparr> \<and> mb_quiet A w w'"

lemma mb_kept_trans: "mb_kept A s w s' w' \<Longrightarrow> mb_kept A s' w' s'' w'' \<Longrightarrow> mb_kept A s w s'' w''"
  by (auto simp: mb_kept_def intro: mb_quiet_trans)

lemma bio_send_kept:
  assumes "bio_send A bs s w = Some (rc, s', w')"
  shows "mb_kept A s w s' w'"
proof -
  obtain r w1 where r: "(if mb_deadline_ns s \<noteq> 0 then mb_wait_ready A s True w else Some (0, w)) = Some (r, w1)"
    using assms by (auto simp: bio_send_def split: bind_splits)
  obtain n w2 where n: "call (mb_sys_write A (mb_fd s) bs) w1 = (n, w2)" by fastforce
  show ?thesis using assms r n mb_wait_quiet [OF r] mb_quiet_trans [OF mb_wait_quiet [OF r] mb_quiet_call [OF n]]
    by (auto simp: bio_send_def mb_kept_def split: if_splits)
qed

lemma bio_recv_kept:
  assumes "bio_recv A len s w = Some (x, s', w')"
  shows "mb_kept A s w s' w'"
proof -
  obtain r w1 where r: "(if mb_deadline_ns s \<noteq> 0 then mb_wait_ready A s False w else Some (0, w)) = Some (r, w1)"
    using assms by (auto simp: bio_recv_def split: bind_splits)
  obtain n w2 where n: "call (mb_sys_read A (mb_fd s) len) w1 = (n, w2)" by fastforce
  have w2: "mb_quiet A w w2" by (rule mb_quiet_trans [OF mb_wait_quiet [OF r] mb_quiet_call [OF n]])
  have "mb_quiet A w (check (length bs \<le> len) w2)" if "n = Some bs" for bs
    using w2 n that by (auto simp: mb_quiet_def mb_sys_ok_def call_eq)
  then show ?thesis using assms r n w2 mb_wait_quiet [OF r]
    by (auto simp: bio_recv_def mb_kept_def split: if_splits option.splits)
qed

lemma mb_call_induct [case_names MbDone MbRecv MbSend MbRandom]:
  assumes "\<And>x e. P (MbDone x e)"
    and "\<And>n e k. (\<And>rc bs e. P (k rc bs e)) \<Longrightarrow> P (MbRecv n e k)"
    and "\<And>bs e k. (\<And>rc e. P (k rc e)) \<Longrightarrow> P (MbSend bs e k)"
    and "\<And>n e k. (\<And>rc bs e. P (k rc bs e)) \<Longrightarrow> P (MbRandom n e k)"
  shows "P t"
proof (induction t)
  case (MbRecv n e k)
  show ?case by (rule assms(2)) (rule MbRecv [OF rangeI rangeI rangeI])
next
  case (MbSend bs e k)
  show ?case by (rule assms(3)) (rule MbSend [OF rangeI rangeI])
next
  case (MbRandom n e k)
  show ?case by (rule assms(4)) (rule MbRandom [OF rangeI rangeI rangeI])
qed (rule assms(1))

lemma mb_run_kept: "mb_run A t s w = Some (x, s', w') \<Longrightarrow> mb_kept A s w s' w'"
proof (induction t arbitrary: s w rule: mb_call_induct)
  case (MbRecv n e k)
  then obtain rc bs s1 w1 where *: "bio_recv A n s (w\<lparr>env := e\<rparr>) = Some ((rc, bs), s1, w1)"
    "mb_run A (k rc bs (env w1)) s1 w1 = Some (x, s', w')" by (auto split: bind_splits)
  have "mb_kept A s w s1 w1" using bio_recv_kept [OF *(1)] by (simp add: mb_kept_def mb_quiet_env)
  from mb_kept_trans [OF this MbRecv.IH [OF *(2)]] show ?case .
next
  case (MbSend bs e k)
  then obtain rc s1 w1 where *: "bio_send A bs s (w\<lparr>env := e\<rparr>) = Some (rc, s1, w1)"
    "mb_run A (k rc (env w1)) s1 w1 = Some (x, s', w')" by (auto split: bind_splits)
  have "mb_kept A s w s1 w1" using bio_send_kept [OF *(1)] by (simp add: mb_kept_def mb_quiet_env)
  from mb_kept_trans [OF this MbSend.IH [OF *(2)]] show ?case .
next
  case (MbRandom n e k)
  then obtain rc bs w1 where *: "entropy_platform A n (w\<lparr>env := e\<rparr>) = Some ((rc, bs), w1)"
    "mb_run A (k rc bs (env w1)) s w1 = Some (x, s', w')" by (auto split: bind_splits)
  have "mb_kept A s w s w1" using entropy_platform_quiet [OF *(1)] by (simp add: mb_kept_def mb_quiet_env)
  from mb_kept_trans [OF this MbRandom.IH [OF *(2)]] show ?case .
qed (auto simp: mb_kept_def)

section \<open>Ownership\<close>

fun mb_owned :: "https_mbed \<Rightarrow> mb_res \<Rightarrow> int" where
  "mb_owned s (MbCliCert p) = of_bool (p = mb_addr s \<and> mb_has_clicert s)"
| "mb_owned s (MbKey p) = of_bool (p = mb_addr s \<and> mb_has_clicert s)"
| "mb_owned s (MbMem p) = of_bool (p = mb_addr s)"
| "mb_owned s (MbSsl p) = of_bool (p = mb_addr s)"
| "mb_owned s (MbConf p) = of_bool (p = mb_addr s)"
| "mb_owned s (MbCaCert p) = of_bool (p = mb_addr s)"
| "mb_owned s (MbEntropy p) = of_bool (p = mb_addr s)"
| "mb_owned s (MbDrbg p) = of_bool (p = mb_addr s)"

lemma mb_owned_cong: "mb_addr s' = mb_addr s \<Longrightarrow> mb_has_clicert s' = mb_has_clicert s \<Longrightarrow> mb_owned s' r = mb_owned s r"
  by (cases r) simp_all

lemma mb_free_state_net [simp]:
  "net (mb_free_state A (Some s) w) r = net w r - mb_owned s r" "oob (mb_free_state A (Some s) w) = oob w"
  by (cases r; simp add: mb_free_state_def mb_fini_ctx_def Let_def)
    (simp add: mb_free_state_def mb_fini_ctx_def Let_def)

lemma mb_quiet_net: "mb_quiet A w w' \<Longrightarrow> net w' r = net w r" "mb_quiet A w w' \<Longrightarrow> noted w' = noted w"
  by (simp_all add: mb_quiet_def net_def noted_def)

lemma mb_kept_facts:
  assumes "mb_kept A s w s' w'"
  shows "net w' r = net w r" "noted w' = noted w" "mb_owned s' r = mb_owned s r" "mb_addr s' = mb_addr s" "mb_fd s' = mb_fd s"
    "mb_has_clicert s' = mb_has_clicert s" "mb_deadline_ns s' = mb_deadline_ns s" "mb_sys_ok A \<Longrightarrow> oob w' = oob w"
proof -
  have "mb_addr s' = mb_addr s \<and> mb_fd s' = mb_fd s \<and> mb_has_clicert s' = mb_has_clicert s \<and> mb_deadline_ns s' = mb_deadline_ns s"
    using assms by (cases s, cases s') (simp add: mb_kept_def)
  then show "mb_addr s' = mb_addr s" "mb_fd s' = mb_fd s" "mb_has_clicert s' = mb_has_clicert s"
    "mb_deadline_ns s' = mb_deadline_ns s" by simp_all
  then show "mb_owned s' r = mb_owned s r" by (intro mb_owned_cong)
  show "net w' r = net w r" "noted w' = noted w" "mb_sys_ok A \<Longrightarrow> oob w' = oob w"
    using assms mb_quiet_net [of A w w'] by (simp_all add: mb_kept_def mb_quiet_def)
qed

lemma mb_late_quiet: "mb_late A s w = (b, w') \<Longrightarrow> mb_quiet A w w'"
  by (auto simp: mb_late_def split: if_splits prod.splits dest: mb_now_ns_quiet)

lemma mb_deadline_from_quiet: "mb_deadline_from A t w = (d, w') \<Longrightarrow> mb_quiet A w w'"
  by (auto simp: mb_deadline_from_def split: if_splits prod.splits dest: mb_now_ns_quiet)

section \<open>The handshake\<close>

text \<open>
  A stage of the handshake takes a connection from \<open>s\<close> to \<open>s'\<close>. What is held beyond what the connection owns stays the
  same, and the stage leaves the notes \<open>ns\<close>.
\<close>

definition mb_spare :: "https_mbed \<Rightarrow> 'w mbio \<Rightarrow> mb_res \<Rightarrow> int" where
  "mb_spare s w r = net w r - mb_owned s r"

definition mb_stage :: "'w mb_api \<Rightarrow> https_mbed \<Rightarrow> 'w mbio \<Rightarrow> mb_note list \<Rightarrow> https_mbed \<Rightarrow> 'w mbio \<Rightarrow> bool" where
  "mb_stage A s w ns s' w' \<longleftrightarrow> mb_addr s' = mb_addr s \<and> mb_fd s' = mb_fd s \<and> (\<forall>r. mb_spare s' w' r = mb_spare s w r)
     \<and> noted w' = noted w @ ns \<and> (mb_sys_ok A \<longrightarrow> oob w' = oob w)"

text \<open>What a finished handshake leaves; \<open>N\<close> is what the notes of a successful one satisfy.\<close>

definition mb_end :: "'w mb_api \<Rightarrow> https_mbed \<Rightarrow> (mb_note list \<Rightarrow> bool) \<Rightarrow> 'w mbio \<Rightarrow> (int \<times> int \<times> nat) \<times> https_mbed option \<times> 'w mbio \<Rightarrow> bool" where
  "mb_end A s N w y \<longleftrightarrow> (case y of ((rc, tls_err, flags), out, w') \<Rightarrow>
     (mb_sys_ok A \<longrightarrow> oob w' = oob w) \<and>
     (case out of
        Some s' \<Rightarrow> rc = HTTPS_MBED_OK \<and> tls_err = 0 \<and> mb_deadline_ns s' = 0 \<and> (\<exists>ns. N ns \<and> mb_stage A s w ns s' w')
      | None \<Rightarrow> rc < 0 \<and> (\<forall>r. net w' r = mb_spare s w r)))"

lemma mb_stage_trans: "mb_stage A s w ns s' w' \<Longrightarrow> mb_stage A s' w' ms s'' w'' \<Longrightarrow> mb_stage A s w (ns @ ms) s'' w''"
  by (simp add: mb_stage_def)

lemma mb_stage_kept: "mb_kept A s w s' w' \<Longrightarrow> mb_stage A s w [] s' w'"
  using mb_kept_facts [of A s w s' w'] by (simp add: mb_stage_def mb_spare_def)

lemma mb_stage_quiet: "mb_quiet A w w' \<Longrightarrow> mb_stage A s w [] s w'"
  by (rule mb_stage_kept) (simp add: mb_kept_def)

lemmas mb_stage_call = mb_stage_quiet [OF mb_quiet_call]

lemma mb_stage_act: "mb_stage A s w [] s (act f w)"
  by (simp add: mb_stage_def mb_spare_def)

lemma mb_stage_note: "mb_stage A s w [n] s (emit (Note n) w)"
  by (simp add: mb_stage_def mb_spare_def)

lemma mb_stage_noting:
  "mbn_parse A q pem w = (rc, w') \<Longrightarrow> mb_stage A s w [Parsed q pem rc] s w'"
  "mbn_defaults A p w = (rc, w') \<Longrightarrow> mb_stage A s w [Defaults p rc] s w'"
  "mbn_own_cert A p w = (rc, w') \<Longrightarrow> mb_stage A s w [OwnCert p rc] s w'"
  "mbn_setup A p w = (rc, w') \<Longrightarrow> mb_stage A s w [SslSetup p rc] s w'"
  "mbn_hostname A p host w = (rc, w') \<Longrightarrow> mb_stage A s w [HostName p host rc] s w'"
  by (auto simp: mbn_parse_def mbn_defaults_def mbn_own_cert_def mbn_setup_def mbn_hostname_def mb_stage_def mb_spare_def call_def
      split: prod.splits)

lemma mb_stage_running:
  "mbn_seed A p pers s w = Some (rc, s', w') \<Longrightarrow> mb_stage A s w [Seeded p pers rc] s' w'"
  "mbn_key A p pem s w = Some (rc, s', w') \<Longrightarrow> mb_stage A s w [KeyParsed p pem rc] s' w'"
  "mbn_shake A p s w = Some (rc, s', w') \<Longrightarrow> mb_stage A s w [Shook p rc] s' w'"
proof -
  have k: "mb_run A t s w = Some (rc, s', w1) \<Longrightarrow> mb_stage A s w [n] s' (emit (Note n) w1)" for t w1 n
    using mb_stage_trans [OF mb_stage_kept [OF mb_run_kept] mb_stage_note] by fastforce
  show "mbn_seed A p pers s w = Some (rc, s', w') \<Longrightarrow> mb_stage A s w [Seeded p pers rc] s' w'"
    "mbn_key A p pem s w = Some (rc, s', w') \<Longrightarrow> mb_stage A s w [KeyParsed p pem rc] s' w'"
    "mbn_shake A p s w = Some (rc, s', w') \<Longrightarrow> mb_stage A s w [Shook p rc] s' w'"
    by (auto simp: mbn_seed_def mbn_key_def mbn_shake_def bind_eq_Some_conv intro: k)
qed

lemma mb_end_stage:
  assumes "mb_stage A s w ns s' w'" "mb_end A s' N w' y" "\<And>ms. N ms \<Longrightarrow> M (ns @ ms)"
  shows "mb_end A s M w y"
  using assms mb_stage_trans [OF assms(1)]
  by (cases y) (auto simp: mb_end_def split: option.splits, auto simp: mb_stage_def)

lemma mb_end_fail: "mb_fail A s code e w = Some y \<Longrightarrow> code < 0 \<Longrightarrow> mb_end A s N w y"
  by (auto simp: mb_fail_def mb_end_def mb_spare_def)

text \<open>A failure after a stage: nothing is claimed of the notes.\<close>

lemma mb_end_stage_fail:
  "mb_stage A s w ns s' w' \<Longrightarrow> mb_fail A s' code e w' = Some y \<Longrightarrow> code < 0 \<Longrightarrow> mb_end A s N w y"
  by (rule mb_end_stage [where N = "\<lambda>_. False"]) (auto intro: mb_end_fail)

text \<open>A handshake that succeeds was told so by the last call of \<open>mbedtls_ssl_handshake\<close>; the ones before asked to be repeated.\<close>

definition mb_shaken :: "nat \<Rightarrow> mb_note list \<Rightarrow> bool" where
  "mb_shaken p ns \<longleftrightarrow> (\<exists>rs. list_all mb_want rs \<and> ns = map (Shook p) (rs @ [0]))"

lemma mb_handshake_loop_spec: "mb_handshake_loop A s w = Some y \<Longrightarrow> mb_end A s (mb_shaken (mb_addr s)) w y"
proof (induction rule: mb_handshake_loop_induct)
  case (step rec A s w y)
  then obtain rc s1 w1 where run: "mbn_shake A (mb_addr s) s w = Some (rc, s1, w1)"
    by (auto split: bind_splits)
  note k = mb_stage_running(3) [OF run]
  have p: "mb_addr s1 = mb_addr s" using k by (simp add: mb_stage_def)
  obtain late w2 where late: "mb_late A s1 w1 = (late, w2)" by fastforce
  note k2 = mb_stage_trans [OF k mb_stage_quiet [OF mb_late_quiet [OF late]]]
  consider "rc = 0" | "rc \<noteq> 0" "mb_want rc" late | "rc \<noteq> 0" "mb_want rc" "\<not> late" | "rc \<noteq> 0" "\<not> mb_want rc" by blast
  then show ?case
  proof cases
    case 1
    then have "y = ((HTTPS_MBED_OK, 0, 0), Some (s1\<lparr>mb_deadline_ns := 0\<rparr>), w1)" using step(2) run by simp
    moreover have "mb_shaken (mb_addr s) [Shook (mb_addr s) rc]" using 1 by (auto simp: mb_shaken_def intro: exI [of _ "[]"])
    ultimately show ?thesis using k mb_owned_cong [of "s1\<lparr>mb_deadline_ns := 0\<rparr>" s1]
      by (auto simp: mb_end_def mb_stage_def mb_spare_def)
  next
    case 2
    then have "mb_fail A s1 HTTPS_MBED_ERR_TIMEOUT 0 w2 = Some y" using step(2) run late by simp
    from mb_end_stage_fail [OF k2 this] show ?thesis by (simp add: mb_codes)
  next
    case 3
    then have "rec A s1 w2 = Some y" using step(2) run late by simp
    note r = step(1) [OF this]
    show ?thesis
    proof (rule mb_end_stage [OF k2 r])
      fix ms assume "mb_shaken (mb_addr s1) ms"
      then obtain rs where "list_all mb_want rs" "ms = map (Shook (mb_addr s)) (rs @ [0])" unfolding mb_shaken_def p by blast
      then show "mb_shaken (mb_addr s) (([Shook (mb_addr s) rc] @ []) @ ms)"
        unfolding mb_shaken_def using 3 by (intro exI [of _ "rc # rs"]) simp
    qed
  next
    case 4
    then have "y = ((if mb_timed_out s1 then HTTPS_MBED_ERR_TIMEOUT else HTTPS_MBED_ERR_HANDSHAKE, rc,
        mb_verify_result A (mb_addr s1) (env w1)), None, mb_free_state A (Some s1) w1)" using step(2) run by (simp add: Let_def)
    then show ?thesis using k by (simp add: mb_end_def mb_codes mb_stage_def mb_spare_def)
  qed
qed

lemma mb_connect_spec:
  assumes "mb_connect A host s w = Some y"
  shows "mb_end A s (\<lambda>ns. \<exists>ms. mb_shaken (mb_addr s) ms \<and> ns = SslSetup (mb_addr s) 0 # HostName (mb_addr s) host 0 # ms) w y"
proof -
  obtain rc w1 where 1: "mbn_setup A (mb_addr s) w = (rc, w1)" by fastforce
  note k1 = mb_stage_noting(4) [OF 1, of s]
  obtain rc2 w2 where 2: "mbn_hostname A (mb_addr s) host w1 = (rc2, w2)" by fastforce
  note k2 = mb_stage_trans [OF k1 mb_stage_noting(5) [OF 2]]
  note k3 = mb_stage_trans [OF k2 mb_stage_act]
  consider "rc \<noteq> 0" | "rc = 0" "rc2 \<noteq> 0" | "rc = 0" "rc2 = 0" by blast
  then show ?thesis
  proof cases
    case r: 1
    then have "mb_fail A s HTTPS_MBED_ERR_SETUP rc w1 = Some y" using assms 1 by (simp add: mb_connect_def)
    from mb_end_stage_fail [OF k1 this] show ?thesis by (simp add: mb_codes)
  next
    case r: 2
    then have "mb_fail A s HTTPS_MBED_ERR_SETUP rc2 w2 = Some y" using assms 1 2 by (simp add: mb_connect_def)
    from mb_end_stage_fail [OF k2 this] show ?thesis by (simp add: mb_codes)
  next
    case r: 3
    then have "mb_handshake_loop A s (act (mb_set_bio A (mb_addr s)) w2) = Some y" using assms 1 2 by (simp add: mb_connect_def)
    from mb_end_stage [OF k3 mb_handshake_loop_spec [OF this]] show ?thesis using r by simp
  qed
qed

lemma mb_init_ctx_net [simp]:
  "net (mb_init_ctx A q w) r = net w r + of_bool (r = q)" "noted (mb_init_ctx A q w) = noted w" "oob (mb_init_ctx A q w) = oob w"
  by (simp_all add: mb_init_ctx_def)

text \<open>The calls that install the client's certificate, all successful.\<close>

definition mb_own_notes :: "nat \<Rightarrow> bytes option \<Rightarrow> bytes option \<Rightarrow> mb_note list" where
  "mb_own_notes p cert key = (if given cert \<and> given key
     then [Parsed (MbCliCert p) (the cert) 0, KeyParsed p (the key) 0, OwnCert p 0] else [])"

lemma mb_client_cert_stage:
  assumes "mb_client_cert A cert key s w = Some (rc, s', w')" "\<not> mb_has_clicert s"
  shows "\<exists>ns. mb_stage A s w ns s' w' \<and> (rc = 0 \<longrightarrow> ns = mb_own_notes (mb_addr s) cert key)"
proof (cases "given cert \<and> given key")
  case False
  then show ?thesis using assms(1) by (auto simp: mb_client_cert_def mb_own_notes_def mb_stage_def)
next
  case True
  let ?w = "mb_init_ctx A (MbKey (mb_addr s)) (mb_init_ctx A (MbCliCert (mb_addr s)) w)"
  let ?s = "s\<lparr>mb_has_clicert := True\<rparr>"
  have k0: "mb_stage A s w [] ?s ?w"
  proof -
    have "mb_spare ?s ?w r = mb_spare s w r" for r using assms(2) by (cases r) (simp_all add: mb_spare_def)
    then show ?thesis by (simp add: mb_stage_def)
  qed
  obtain rc1 w1 where 1: "mbn_parse A (MbCliCert (mb_addr s)) (the cert) ?w = (rc1, w1)" by fastforce
  note k1 = mb_stage_trans [OF k0 mb_stage_noting(1) [OF 1]]
  show ?thesis
  proof (cases "rc1 = 0")
    case False
    then show ?thesis using assms(1) True 1 k1 by (auto simp: mb_client_cert_def)
  next
    case rc1: True
    then obtain rc2 s2 w2 where 2: "mbn_key A (mb_addr s) (the key) ?s w1 = Some (rc2, s2, w2)"
      using assms(1) True 1 by (auto simp: mb_client_cert_def Let_def split: bind_splits)
    note k2 = mb_stage_trans [OF k1 mb_stage_running(2) [OF 2]]
    obtain rc3 w3 where 3: "mbn_own_cert A (mb_addr s) w2 = (rc3, w3)" by fastforce
    note k3 = mb_stage_trans [OF k2 mb_stage_noting(3) [OF 3]]
    show ?thesis
    proof (cases "rc2 = 0")
      case False
      then show ?thesis using assms(1) True 1 rc1 2 k2 by (auto simp: mb_client_cert_def Let_def)
    next
      case rc2: True
      then have "rc = rc3" "s' = s2" "w' = w3" using assms(1) True 1 rc1 2 3 by (auto simp: mb_client_cert_def Let_def)
      then show ?thesis using k3 rc1 rc2 True by (auto simp: mb_own_notes_def)
    qed
  qed
qed

text \<open>
  What the library was asked and answered in a handshake that succeeds: the generator was seeded, the certificates of the
  caller were parsed (a positive result counts those that were not) and made the chain to verify against, verification was
  required, unless it is switched off, and the host name was set, before the handshake itself was reported complete.
\<close>

definition mb_verification :: "nat \<Rightarrow> bool \<Rightarrow> int \<Rightarrow> bytes option \<Rightarrow> bytes option \<Rightarrow> bytes option \<Rightarrow> string option \<Rightarrow> mb_note list \<Rightarrow> bool" where
  "mb_verification p skip_verify min_version ca cert key host ns \<longleftrightarrow> (\<exists>c ms. 0 \<le> c \<and> mb_shaken p ms \<and>
     ns = [Seeded p mbed_pers 0] @ (if \<not> skip_verify \<and> given ca then [Parsed (MbCaCert p) (the ca) c] else []) @
       [Defaults p 0, AuthRequired p (\<not> skip_verify)] @ (if skip_verify then [] else [CaChain p]) @
       (if min_version \<noteq> 0 then [MinVersion p min_version] else []) @ mb_own_notes p cert key @
       [SslSetup p 0, HostName p host 0] @ ms)"

lemma mb_configure_stage:
  "mb_stage A s w ([AuthRequired p (\<not> skip)] @ (if skip then [] else [CaChain p]) @ (if mv \<noteq> 0 then [MinVersion p mv] else [])) s
     (mb_configure A p skip mv w)"
  by (simp add: mb_configure_def mbn_authmode_def mbn_ca_chain_def mbn_min_version_def mb_stage_def mb_spare_def Let_def)

lemma mb_load_ca_stage:
  "mb_load_ca A p skip ca w = (rc, w') \<Longrightarrow>
     mb_stage A s w (if \<not> skip \<and> given ca then [Parsed (MbCaCert p) (the ca) rc] else []) s w'"
  by (auto simp: mb_load_ca_def mb_stage_def mb_spare_def mbn_parse_def call_def split: if_splits prod.splits)

lemma mb_new_facts:
  assumes "mb_new A p fd t w = (s, w')"
  shows "mb_addr s = p" "mb_fd s = fd" "\<not> mb_has_clicert s" "noted w' = noted w" "mb_sys_ok A \<Longrightarrow> oob w' = oob w"
    "net w' r = net w r + mb_owned s r - of_bool (r = MbMem p)"
proof -
  obtain d w1 where d: "mb_deadline_from A t w = (d, w1)" by fastforce
  note q = mb_deadline_from_quiet [OF d]
  show "mb_addr s = p" "mb_fd s = fd" "\<not> mb_has_clicert s" using assms d by (auto simp: mb_new_def Let_def)
  show "noted w' = noted w" "mb_sys_ok A \<Longrightarrow> oob w' = oob w"
    using assms d mb_quiet_net [OF q] q by (auto simp: mb_new_def Let_def mb_quiet_def)
  show "net w' r = net w r + mb_owned s r - of_bool (r = MbMem p)"
    using assms d mb_quiet_net(1) [OF q, of r] by (cases r) (auto simp: mb_new_def Let_def)
qed

lemma mb_middle_spec:
  assumes "(if rc \<noteq> 0 then mb_fail A s HTTPS_MBED_ERR_SETUP rc w
            else
              let (rc, w) = mb_load_ca A p skip_verify ca_pem w
              in if rc < 0 then mb_fail A s HTTPS_MBED_ERR_CA rc w
                 else
                   let (rc, w) = mbn_defaults A p w
                   in if rc \<noteq> 0 then mb_fail A s HTTPS_MBED_ERR_SETUP rc w
                      else do {
                        (rc, s, w) \<leftarrow> mb_client_cert A cert_pem key_pem s (mb_configure A p skip_verify min_version w);
                        (if rc \<noteq> 0 then mb_fail A s HTTPS_MBED_ERR_CLIENT_CERT rc w else mb_connect A host s w) }) = Some y"
    "\<not> mb_has_clicert s" "mb_addr s = p"
  shows "mb_end A s (\<lambda>ns. rc = 0 \<and> mb_verification p skip_verify min_version ca_pem cert_pem key_pem host ([Seeded p mbed_pers rc] @ ns)) w y"
proof -
  obtain rc1 w1 where 1: "mb_load_ca A p skip_verify ca_pem w = (rc1, w1)" by fastforce
  note k1 = mb_load_ca_stage [OF 1, of s]
  obtain rc2 w2 where 2: "mbn_defaults A p w1 = (rc2, w2)" by fastforce
  note k2 = mb_stage_trans [OF k1 mb_stage_noting(2) [OF 2]]
  note k3 = mb_stage_trans [OF k2 mb_configure_stage [of A s w2 p skip_verify min_version]]
  consider "rc \<noteq> 0" | "rc = 0" "rc1 < 0" | "rc = 0" "\<not> rc1 < 0" "rc2 \<noteq> 0" | "rc = 0" "\<not> rc1 < 0" "rc2 = 0" by blast
  then show ?thesis
  proof cases
    case 4
    then obtain rc3 s3 w3 where 3: "mb_client_cert A cert_pem key_pem s (mb_configure A p skip_verify min_version w2) = Some (rc3, s3, w3)"
      using assms(1) 1 2 by (auto split: bind_splits)
    obtain ns where ns: "mb_stage A s (mb_configure A p skip_verify min_version w2) ns s3 w3" "rc3 = 0 \<longrightarrow> ns = mb_own_notes p cert_pem key_pem"
      using mb_client_cert_stage [OF 3 assms(2)] assms(3) by blast
    note k4 = mb_stage_trans [OF k3 ns(1)]
    have p: "mb_addr s3 = p" using ns(1) assms(3) by (simp add: mb_stage_def)
    show ?thesis
    proof (cases "rc3 = 0")
      case True
      then have c: "mb_connect A host s3 w3 = Some y" using assms(1) 1 2 3 4 by simp
      have "0 \<le> rc1" using 4 by simp
      then show ?thesis using 4 ns(2) True
        by (intro mb_end_stage [OF k4 mb_connect_spec [OF c]]) (auto simp: mb_verification_def p)
    next
      case False
      then have "mb_fail A s3 HTTPS_MBED_ERR_CLIENT_CERT rc3 w3 = Some y" using assms(1) 1 2 3 4 by simp
      from mb_end_stage_fail [OF k4 this] show ?thesis by (simp add: mb_codes)
    qed
  next
    case 1
    with assms(1) show ?thesis by (intro mb_end_fail) (auto simp: mb_codes)
  next
    case 2
    then have "mb_fail A s HTTPS_MBED_ERR_CA rc1 w1 = Some y" using assms(1) 1 by simp
    from mb_end_stage_fail [OF k1 this] show ?thesis by (simp add: mb_codes)
  next
    case 3
    then have "mb_fail A s HTTPS_MBED_ERR_SETUP rc2 w2 = Some y" using assms(1) 1 2 by simp
    from mb_end_stage_fail [OF k2 this] show ?thesis by (simp add: mb_codes)
  qed
qed

lemma https_mbed_handshake_spec:
  assumes "https_mbed_handshake A fd host skip mv ca cert key timeout w = Some ((rc, tls_err, flags), out, w')"
  shows "(mb_sys_ok A \<longrightarrow> oob w' = oob w) \<and> (case out of
      None \<Rightarrow> rc < 0 \<and> (\<forall>r. net w' r = net w r)
    | Some s \<Rightarrow> rc = HTTPS_MBED_OK \<and> tls_err = 0 \<and> mb_fd s = fd \<and> mb_deadline_ns s = 0
        \<and> (\<forall>r. net w' r = net w r + mb_owned s r)
        \<and> (\<exists>ns. noted w' = noted w @ ns \<and> mb_verification (mb_addr s) skip mv ca cert key host ns))"
proof -
  obtain m w1 where m: "obtain_res MbMem (mb_calloc A) w = (m, w1)" by fastforce
  note nm = obtain_res_net [OF m]
  show ?thesis
  proof (cases m)
    case None
    then show ?thesis using assms nm m by (auto simp: https_mbed_handshake_def mb_codes)
  next
    case (Some p)
    obtain s2 w2 where 2: "mb_new A p fd timeout w1 = (s2, w2)" by fastforce
    note f = mb_new_facts [OF 2]
    obtain rc3 s3 w3 where 3: "mbn_seed A p mbed_pers s2 w2 = Some (rc3, s3, w3)"
      using assms m Some 2 by (auto simp: https_mbed_handshake_def split: bind_splits)
    note k3 = mb_stage_running(1) [OF 3]
    have s3: "\<not> mb_has_clicert s3" "mb_addr s3 = p"
      using 3 f(1,3) by (auto simp: mbn_seed_def bind_eq_Some_conv dest: mb_kept_facts(4,6) [OF mb_run_kept])
    let ?N = "mb_verification p skip mv ca cert key host"
    have "mb_end A s3 (\<lambda>ns. rc3 = 0 \<and> ?N ([Seeded p mbed_pers rc3] @ ns)) w3 ((rc, tls_err, flags), out, w')"
      by (rule mb_middle_spec) (use assms m Some 2 3 s3 in \<open>simp_all add: https_mbed_handshake_def\<close>)
    then have e: "mb_end A s2 ?N w2 ((rc, tls_err, flags), out, w')" by (rule mb_end_stage [OF k3]) blast
    have n: "mb_spare s2 w2 r = net w r" for r using nm Some f(6) [of r] by (simp add: mb_spare_def)
    show ?thesis
    proof (cases out)
      case None
      then show ?thesis using e n f nm by (auto simp: mb_end_def)
    next
      case (Some s)
      then obtain ns where st: "?N ns" "mb_stage A s2 w2 ns s w'" using e by (auto simp: mb_end_def)
      then have "mb_spare s w' r = net w r" for r using n [of r] by (simp add: mb_stage_def)
      then have "net w' r = net w r + mb_owned s r" for r by (simp add: mb_spare_def diff_eq_eq)
      then show ?thesis using Some e st f nm by (auto simp: mb_end_def mb_stage_def)
    qed
  qed
qed

section \<open>Transfers and whole sessions\<close>

definition mb_same :: "https_mbed \<Rightarrow> 'w mbio \<Rightarrow> https_mbed \<Rightarrow> 'w mbio \<Rightarrow> bool" where
  "mb_same s w s' w' \<longleftrightarrow> (\<forall>r. net w' r = net w r \<and> mb_owned s' r = mb_owned s r)"

lemma mb_same_trans: "mb_same s w s' w' \<Longrightarrow> mb_same s' w' s'' w'' \<Longrightarrow> mb_same s w s'' w''"
  by (simp add: mb_same_def)

lemma mb_same_kept: "mb_kept A s w s' w' \<Longrightarrow> mb_same s w s' w'"
  using mb_kept_facts [of A s w s' w'] by (simp add: mb_same_def)

lemma mb_same_quiet: "mb_quiet A w w' \<Longrightarrow> mb_same s w s w'"
  using mb_quiet_net [of A w w'] by (simp add: mb_same_def)

lemma mb_same_check: "mb_same s w s (check c w)"
  by (simp add: mb_same_def)

lemma mb_read_loop_same: "mb_read_loop A len s w = Some y \<Longrightarrow> mb_same s w (fst (snd y)) (snd (snd y))"
proof (induction rule: mb_read_loop_induct)
  case (step rec A len s w y)
  then obtain rc bs s1 w1 where run: "mb_run A (mb_ssl_read A (mb_addr s) len (env w)) s w = Some ((rc, bs), s1, w1)"
    by (auto split: bind_splits)
  let ?w = "check (length bs \<le> len) w1"
  have k: "mb_same s w s1 ?w" by (rule mb_same_trans [OF mb_same_kept [OF mb_run_kept [OF run]] mb_same_check])
  obtain late w2 where late: "mb_late A s1 ?w = (late, w2)" by fastforce
  have k2: "mb_same s w s1 w2" by (rule mb_same_trans [OF k mb_same_quiet [OF mb_late_quiet [OF late]]])
  show ?case using step(2) run k late k2 mb_same_trans [OF k2 step(1) [of A len s1 w2 y]] by (auto simp: Let_def split: if_splits)
qed

lemma mb_write_loop_same: "mb_write_loop A buf n s w = Some y \<Longrightarrow> mb_same s w (fst (snd y)) (snd (snd y))"
proof (induction rule: mb_write_loop_induct)
  case (step rec A buf n s w y)
  show ?case
  proof (cases "n < length buf")
    case False
    then show ?thesis using step(2) by (auto simp: mb_same_def)
  next
    case True
    then obtain rc s1 w1 where run: "mb_run A (mb_ssl_write A (mb_addr s) (drop n buf) (env w)) s w = Some (rc, s1, w1)"
      using step(2) by (auto split: bind_splits)
    note k = mb_same_kept [OF mb_run_kept [OF run]]
    obtain late w2 where late: "mb_late A s1 w1 = (late, w2)" by fastforce
    have k2: "mb_same s w s1 w2" by (rule mb_same_trans [OF k mb_same_quiet [OF mb_late_quiet [OF late]]])
    show ?thesis using step(2) True run k late k2 mb_same_trans [OF k step(1) [of A buf "n + nat rc" s1 w1 y]]
        mb_same_trans [OF k2 step(1) [of A buf n s1 w2 y]] by (auto split: if_splits)
  qed
qed

definition mb_handle :: "https_mbed option \<Rightarrow> mb_res \<Rightarrow> int" where
  "mb_handle h r = (case h of None \<Rightarrow> 0 | Some s \<Rightarrow> mb_owned s r)"

datatype mb_op = MbRead int int | MbWrite bytes int int

definition mb_step :: "'w mb_api \<Rightarrow> mb_op \<Rightarrow> https_mbed option \<Rightarrow> 'w mbio \<Rightarrow> (https_mbed option \<times> 'w mbio) option" where
  "mb_step A op h w = (case op of
     MbRead len timeout \<Rightarrow> map_option snd (https_mbed_read A h len timeout w)
   | MbWrite buf len timeout \<Rightarrow> map_option snd (https_mbed_write A h buf len timeout w))"

lemma mb_same_start:
  assumes "mb_deadline_from A timeout (check c w) = (d, w1)" "mb_same (s\<lparr>mb_deadline_ns := d, mb_timed_out := False\<rparr>) w1 s' w'"
  shows "net w' r = net w r \<and> mb_owned s' r = mb_owned s r"
  using assms(2) mb_quiet_net(1) [OF mb_deadline_from_quiet [OF assms(1)], of r]
    mb_owned_cong [of "s\<lparr>mb_deadline_ns := d, mb_timed_out := False\<rparr>" s r] by (simp add: mb_same_def)

lemma https_mbed_read_same:
  assumes "https_mbed_read A h len timeout w = Some (x, h', w')"
  shows "net w' r = net w r \<and> mb_handle h' r = mb_handle h r"
proof (cases "h = None \<or> len \<le> 0")
  case True
  then show ?thesis using assms by (auto simp: https_mbed_read_def split: option.splits)
next
  case False
  then obtain s where s: "h = Some s" by auto
  obtain d w1 where d: "mb_deadline_from A timeout w = (d, w1)" by fastforce
  obtain s' where s': "h' = Some s'"
    and l: "mb_read_loop A (nat len) (s\<lparr>mb_deadline_ns := d, mb_timed_out := False\<rparr>) w1 = Some (x, s', w')"
    using assms False s d by (auto simp: https_mbed_read_def)
  have "mb_deadline_from A timeout (check True w) = (d, w1)" using d by (simp add: check_def)
  from mb_same_start [OF this, of s s' w'] mb_read_loop_same [OF l] show ?thesis using s s' by (simp add: mb_handle_def)
qed

lemma https_mbed_write_same:
  assumes "https_mbed_write A h buf len timeout w = Some (x, h', w')"
  shows "net w' r = net w r \<and> mb_handle h' r = mb_handle h r"
proof (cases "h = None \<or> len \<le> 0")
  case True
  then show ?thesis using assms by (auto simp: https_mbed_write_def split: option.splits)
next
  case False
  then obtain s where s: "h = Some s" by auto
  obtain d w1 where d: "mb_deadline_from A timeout (check (nat len \<le> length buf) w) = (d, w1)" by fastforce
  obtain s' where s': "h' = Some s'"
    and l: "mb_write_loop A (take (nat len) buf) 0 (s\<lparr>mb_deadline_ns := d, mb_timed_out := False\<rparr>) w1 = Some (x, s', w')"
    using assms False s d by (auto simp: https_mbed_write_def)
  from mb_same_start [OF d, of s s' w'] mb_write_loop_same [OF l] show ?thesis using s s' by (simp add: mb_handle_def)
qed

lemma https_mbed_close_net:
  assumes "https_mbed_close A h w = Some w'"
  shows "net w' r = net w r - mb_handle h r"
proof (cases h)
  case None
  then show ?thesis using assms by (simp add: https_mbed_close_def mb_handle_def)
next
  case (Some s)
  obtain now w1 where now: "mb_now_ns A w = (now, w1)" by fastforce
  let ?s = "s\<lparr>mb_deadline_ns := now + 100000000\<rparr>"
  obtain x s2 w2 where run: "mb_run A (mb_close_notify A (mb_addr ?s) (env w1)) ?s w1 = Some (x, s2, w2)"
    and w': "w' = mb_free_state A (Some s2) w2"
    using assms Some now by (auto simp: https_mbed_close_def Let_def split: bind_splits)
  show ?thesis using mb_kept_facts(1,3) [OF mb_run_kept [OF run], of r] mb_quiet_net(1) [OF mb_now_ns_quiet [OF now], of r]
      mb_owned_cong [of ?s s r] w' Some by (simp add: mb_handle_def)
qed

abbreviation mb_open_conn ::
  "'w mb_api \<Rightarrow> int \<Rightarrow> string option \<Rightarrow> bool \<Rightarrow> int \<Rightarrow> bytes option \<Rightarrow> bytes option \<Rightarrow> bytes option \<Rightarrow> int \<Rightarrow> 'w mbio
   \<Rightarrow> (int \<times> https_mbed option \<times> 'w mbio) option" where
  "mb_open_conn A fd host skip mv ca cert key timeout w \<equiv>
     map_option (\<lambda>((rc, tls_err, flags), h, w). (rc, h, w)) (https_mbed_handshake A fd host skip mv ca cert key timeout w)"

interpretation mb_tls: tls_transport "mb_open_conn A fd host skip mv ca cert key timeout" "mb_step A" "https_mbed_close A"
  net mb_handle "\<lambda>r. 0"
proof (unfold_locales, goal_cases)
  case (1 w rc h w' r)
  then obtain e flags where "https_mbed_handshake A fd host skip mv ca cert key timeout w = Some ((rc, e, flags), h, w')" by auto
  from https_mbed_handshake_spec [OF this] show ?case by (auto simp: mb_handle_def split: option.splits)
next
  case (2 x h w h' w' r)
  then show ?case by (auto simp: mb_step_def split: mb_op.splits dest: https_mbed_read_same https_mbed_write_same)
next
  case (3 h w w' r)
  then show ?case by (rule https_mbed_close_net)
qed

section \<open>A wait that no deadline ends\<close>

lemma plat_wait_darwin_loop_spins:
  "plat_wait_darwin_loop A fd fw dl now w = Some y \<Longrightarrow> (\<forall>tv e. fst (mb_select A fd fw tv e) < 0) \<Longrightarrow> plat_left 1000 dl now \<noteq> None \<Longrightarrow> False"
proof (induction rule: plat_wait_darwin_loop_induct)
  case (step rec A fd fw dl now w y)
  obtain tvp where tv: "plat_left 1000 dl now = Some tvp" using step(4) by auto
  obtain rc w1 where c: "call (mb_select A fd fw tvp) (check (fd div 32 < 32) w) = (rc, w1)" by fastforce
  then have "rc < 0" using step(3) by (auto simp: call_eq)
  then have "rec A fd fw dl now w1 = Some y" using step(2) tv c by simp
  from step(1) [OF this step(3,4)] show ?case .
qed

section \<open>Properties\<close>

text \<open>C14. A handshake that succeeds had required the verification of the server, against the loaded certificates, unless the
  caller switched verification off, and had set the host name the certificate is checked against; every call of mbedTLS on the
  way reported success, and the last \<open>mbedtls_ssl_handshake\<close> reported that the handshake is complete, those before it
  only that it wants to read or to write. The caller then has an
  open connection without a deadline that owns its memory and its contexts. A handshake that fails, at any of its stages, returns a negative code and has given back
  all it obtained. When the system calls keep to their buffers, no access leaves its object.\<close>

theorem https_mbed_handshake_verified:
  assumes "https_mbed_handshake A fd host skip_verify min_version ca_pem cert_pem key_pem timeout_ns w = Some ((rc, tls_err, flags), out, w')"
  shows "(mb_sys_ok A \<longrightarrow> oob w' = oob w) \<and> (case out of
      None \<Rightarrow> rc < 0 \<and> (\<forall>r. net w' r = net w r)
    | Some s \<Rightarrow> rc = HTTPS_MBED_OK \<and> tls_err = 0 \<and> mb_fd s = fd \<and> mb_deadline_ns s = 0
        \<and> (\<forall>r. net w' r = net w r + mb_owned s r)
        \<and> (\<exists>ns. noted w' = noted w @ ns
             \<and> mb_verification (mb_addr s) skip_verify min_version ca_pem cert_pem key_pem host ns))"
  using assms by (rule https_mbed_handshake_spec)

text \<open>C15. Whatever mbedTLS and the system do, a session that returns - handshake, any sequence of reads and writes, close - gives
  back every block and context it obtained, and nothing else.\<close>

theorem https_mbed_session_balanced:
  assumes "tls_session (mb_open_conn A fd host skip_verify min_version ca_pem cert_pem key_pem timeout_ns) (mb_step A)
    (https_mbed_close A) ops w = Some (rc, w')"
  shows "net w' r = net w r"
  using mb_tls.tls_session_law [OF assms] by simp

text \<open>A platform for the witnesses: its world counts the calls of the handshake.\<close>

definition demo_mb :: "nat mb_api" where
  "demo_mb = \<lparr>mb_plat = Darwin, mb_clock_gettime = \<lambda>e. ((0, 5), e), mb_ppoll = \<lambda>fd fw tv e. (1, e),
     mb_select = \<lambda>fd fw tv e. (1, e), mb_getrandom = \<lambda>n e. (Inr (replicate n 9), e), mb_arc4random = \<lambda>n e. (replicate n 9, e),
     mb_sys_read = \<lambda>fd n e. (Some (take n [7]), e), mb_sys_write = \<lambda>fd bs e. (Some (length bs), e),
     mb_calloc = \<lambda>e. (Some 1, e), mb_free = \<lambda>p e. e, mb_init = \<lambda>r e. e, mb_fini = \<lambda>r e. e, mb_add_source = \<lambda>p e. e,
     mb_drbg_seed = \<lambda>p bs e. MbRandom 2 e (\<lambda>rc bs e. MbDone rc e), mb_crt_parse = \<lambda>r bs e. (0, e),
     mb_config_defaults = \<lambda>p e. (0, e), mb_conf_authmode = \<lambda>p b e. e, mb_conf_ca_chain = \<lambda>p e. e, mb_conf_rng = \<lambda>p e. e,
     mb_conf_min_tls_version = \<lambda>p v e. e, mb_pk_parse_key = \<lambda>p bs e. MbDone 0 e, mb_conf_own_cert = \<lambda>p e. (0, e),
     mb_ssl_setup = \<lambda>p e. (0, e), mb_set_hostname = \<lambda>p h e. (0, e), mb_set_bio = \<lambda>p e. e,
     mb_ssl_handshake = \<lambda>p e. if e = 0 then MbSend [22] e (\<lambda>rc e. MbDone (- 0x6900) 1)
       else MbRecv 1 e (\<lambda>rc bs e. MbDone 0 2),
     mb_verify_result = \<lambda>p e. 0, mb_ssl_read = \<lambda>p n e. MbDone (1, [7]) e, mb_ssl_write = \<lambda>p bs e. MbDone (int (length bs)) e,
     mb_close_notify = \<lambda>p e. MbDone 0 e\<rparr>"

definition demo_mbio :: "nat mbio" where
  "demo_mbio = \<lparr>env = 0, trace = [], oob = False\<rparr>"

definition demo_mb_conn :: https_mbed where
  "demo_mb_conn = \<lparr>mb_addr = 1, mb_fd = 3, mb_has_clicert = True, mb_deadline_ns = 0, mb_timed_out = False\<rparr>"

definition demo_mb_done :: "nat mbio" where
  "demo_mb_done = \<lparr>env = 2, trace = [Got (MbMem 1), Got (MbSsl 1), Got (MbConf 1), Got (MbCaCert 1), Got (MbEntropy 1), Got (MbDrbg 1),
     Note (Seeded 1 mbed_pers 0), Note (Parsed (MbCaCert 1) [1] 0), Note (Defaults 1 0), Note (AuthRequired 1 True), Note (CaChain 1),
     Got (MbCliCert 1), Got (MbKey 1), Note (Parsed (MbCliCert 1) [2] 0), Note (KeyParsed 1 [3] 0), Note (OwnCert 1 0),
     Note (SslSetup 1 0), Note (HostName 1 (Some ''db'') 0), Note (Shook 1 (- 0x6900)), Note (Shook 1 0)], oob = False\<rparr>"

text \<open>The same run \<open>n\<close> events earlier.\<close>

definition demo_mb_before :: "nat \<Rightarrow> nat \<Rightarrow> nat mbio" where
  "demo_mb_before n e = demo_mb_done\<lparr>env := e, trace := take (20 - n) (trace demo_mb_done)\<rparr>"

lemma demo_mb_bio:
  "mb_deadline_ns s = 0 \<Longrightarrow> bio_recv demo_mb (Suc 0) s w = Some ((1, [7]), s, w)"
  "mb_deadline_ns s = 0 \<Longrightarrow> bio_send demo_mb [b] s w = Some (1, s, w)"
  "entropy_platform demo_mb 2 w = Some ((0, [9, 9]), w)"
  by (simp_all add: bio_recv_def bio_send_def entropy_platform_def plat_random_def demo_mb_def call_def check_def numeral_2_eq_2)

lemma demo_mb_loop:
  "mb_handshake_loop demo_mb demo_mb_conn (demo_mb_before 2 0) = Some ((0, 0, 0), Some demo_mb_conn, demo_mb_done)"
proof -
  have hs: "mb_ssl_handshake demo_mb p e = (if e = 0 then MbSend [22] e (\<lambda>rc e. MbDone (- 0x6900) 1)
       else MbRecv 1 e (\<lambda>rc bs e. MbDone 0 2))" for p e by (simp add: demo_mb_def)
  have "mb_handshake_loop demo_mb demo_mb_conn (demo_mb_before 1 1) = Some ((0, 0, 0), Some demo_mb_conn, demo_mb_done)"
    by (subst mb_handshake_loop.simps) (simp add: mbn_shake_def hs demo_mb_bio demo_mb_conn_def demo_mb_before_def demo_mb_done_def mb_codes emit_def)
  then show ?thesis
    by (subst mb_handshake_loop.simps) (simp add: mbn_shake_def hs demo_mb_bio demo_mb_conn_def demo_mb_before_def demo_mb_done_def
      mb_codes mb_want_def mb_ssl_codes mb_late_def emit_def)
qed

lemma demo_mb_connect:
  "mb_connect demo_mb (Some ''db'') demo_mb_conn (demo_mb_before 4 0) = Some ((0, 0, 0), Some demo_mb_conn, demo_mb_done)"
proof -
  have "mb_ssl_setup demo_mb p e = (0, e)" "mb_set_hostname demo_mb p h e = (0, e)" "mb_set_bio demo_mb p e = e" for p h e
    by (simp_all add: demo_mb_def)
  then show ?thesis using demo_mb_loop
    by (simp add: mb_connect_def mbn_setup_def mbn_hostname_def call_def act_def emit_def demo_mb_before_def demo_mb_done_def demo_mb_conn_def)
qed

lemma demo_mb_handshake:
  "https_mbed_handshake demo_mb 3 (Some ''db'') False 0 (Some [1]) (Some [2]) (Some [3]) 0 demo_mbio
   = Some ((0, 0, 0), Some demo_mb_conn, demo_mb_done)"
proof -
  have seed: "mb_drbg_seed demo_mb p bs e = MbRandom 2 e (\<lambda>rc bs e. MbDone rc e)" for p bs e by (simp add: demo_mb_def)
  have fields: "mb_calloc demo_mb e = (Some 1, e)" "mb_init demo_mb r e = e" "mb_add_source demo_mb p e = e"
    "mb_crt_parse demo_mb r bs e = (0, e)" "mb_config_defaults demo_mb p e = (0, e)" "mb_conf_authmode demo_mb p b e = e"
    "mb_conf_ca_chain demo_mb p e = e" "mb_conf_rng demo_mb p e = e" "mb_pk_parse_key demo_mb p bs e = MbDone 0 e"
    "mb_conf_own_cert demo_mb p e = (0, e)" for p r bs b e by (simp_all add: demo_mb_def)
  show ?thesis using demo_mb_connect
    by (simp add: https_mbed_handshake_def demo_mbio_def obtain_res_def call_def fields seed mb_new_def mb_deadline_from_def
        mb_init_ctx_def init_ctx_def act_def emit_def demo_mb_bio mb_load_ca_def given_def mb_configure_def mb_client_cert_def
        mbn_seed_def mbn_parse_def mbn_defaults_def mbn_authmode_def mbn_ca_chain_def mbn_key_def mbn_own_cert_def
        demo_mb_conn_def demo_mb_before_def demo_mb_done_def)
qed

theorem https_mbed_handshake_verified_witness:
  "https_mbed_handshake demo_mb 3 (Some ''db'') False 0 (Some [1]) (Some [2]) (Some [3]) 0 demo_mbio
     = Some ((0, 0, 0), Some demo_mb_conn, demo_mb_done)
   \<and> mb_fd demo_mb_conn = 3 \<and> net demo_mb_done (MbKey 1) = net demo_mbio (MbKey 1) + mb_owned demo_mb_conn (MbKey 1)
   \<and> (\<exists>ns. noted demo_mb_done = noted demo_mbio @ ns \<and> mb_verification 1 False 0 (Some [1]) (Some [2]) (Some [3]) (Some ''db'') ns)"
  using https_mbed_handshake_verified [OF demo_mb_handshake] demo_mb_handshake
  by (simp add: demo_mb_conn_def)

lemma demo_mb_session:
  "tls_session (mb_open_conn demo_mb 3 (Some ''db'') False 0 (Some [1]) (Some [2]) (Some [3]) 0) (mb_step demo_mb)
     (https_mbed_close demo_mb) [] demo_mbio
   = Some (0, mb_free_state demo_mb (Some (demo_mb_conn\<lparr>mb_deadline_ns := 100000005\<rparr>)) demo_mb_done)"
proof -
  have "mb_close_notify demo_mb p e = MbDone 0 e" "mb_clock_gettime demo_mb e = ((0, 5), e)" for p e by (simp_all add: demo_mb_def)
  then show ?thesis by (simp add: tls_session_def demo_mb_handshake https_mbed_close_def mb_now_ns_def call_def)
qed

theorem https_mbed_session_balanced_witness:
  "\<exists>w'. tls_session (mb_open_conn demo_mb 3 (Some ''db'') False 0 (Some [1]) (Some [2]) (Some [3]) 0) (mb_step demo_mb)
     (https_mbed_close demo_mb) [] demo_mbio = Some (0, w') \<and> net w' (MbKey 1) = 0 \<and> net w' (MbMem 1) = 0"
proof -
  have "net demo_mbio r = 0" for r by (simp add: net_def demo_mbio_def)
  with https_mbed_session_balanced [OF demo_mb_session] demo_mb_session show ?thesis by auto
qed

text \<open>C40. On macOS a wait on a valid descriptor whose deadline has not passed does not return while \<open>select\<close> keeps failing, for
  instance because another thread has closed the descriptor: the time left is computed from a clock reading made
  before the loop.\<close>

theorem plat_wait_darwin_spins:
  assumes "0 \<le> fd" "fd < 1024" "now < deadline_ns" "deadline_ns \<noteq> 0" "\<forall>tv e. fst (mb_select A fd for_write tv e) < 0"
  shows "plat_wait_darwin A fd for_write deadline_ns now w = None"
proof (rule ccontr)
  assume "\<not> ?thesis"
  then obtain y where "plat_wait_darwin_loop A fd for_write deadline_ns now w = Some y"
    using assms(1,2) by (auto simp: plat_wait_darwin_def)
  from plat_wait_darwin_loop_spins [OF this assms(5)] show False using assms(3,4) by (auto simp: plat_left_def Let_def)
qed

theorem plat_wait_darwin_spins_witness:
  "plat_wait_darwin (demo_mb\<lparr>mb_select := \<lambda>fd fw tv e. (- 1, e)\<rparr>) 3 True 1000 7 demo_mbio = None"
  by (rule plat_wait_darwin_spins) simp_all

end
