(* ===== verification/Spec2Isabelle.thy ===== *)
theory Spec2Isabelle
  imports ByteAlg SimdHex SimdBase64_Enc Schannel_Session MbedBase64_Dec Asn1_Named_Correct Asn1Write_Correct RsaSign_Correct
    SecureTransport_Correct MbedTls_Correct
begin

text \<open>
  \<^bold>\<open>tinygodriver: the C code under the Go packages\<close>

  The repository provides database, HTTP and TLS packages for TinyGo. Where TinyGo has no suitable library, the Go code
  calls C: vector kernels for byte searching, hexadecimal and base64; TLS over the platform's own library (Schannel on
  Windows, Secure Transport on macOS) or over a vendored mbedTLS (Linux); and RSA signing over the same three libraries.
  This development models that C code and proves what its callers rely on.

  \<^bold>\<open>How the code is modelled.\<close> \<open>TG_Prelude\<close> has the types and the checked buffers: a buffer is a list of 8-bit words, a
  read or write outside it has no value, and \<open>size_t\<close> arithmetic is modulo \<open>size_mod\<close>, which is 2 to the power 64.
  \<open>OsIo\<close> is the state of code that talks to the platform: a world that only the platform's functions see, a trace, and a
  flag that an access outside its object raises. \<open>Ledger\<close> makes the trace an account of the resources obtained and given
  back. Functions that are not part of the repository, and the modules of mbedTLS that are not modelled, come as a record of
  functions, an argument of every definition; hypotheses about them are named predicates (\<open>win_ok\<close>, \<open>clock_ok\<close>, \<open>mem_ok\<close>,
  \<open>ssl_io_ok\<close>, ...) that state documented behaviour, and each has a witness on a concrete platform. A loop that ends by a condition of the
  world is a \<open>partial_function\<close> whose value is \<open>None\<close> when it never returns; no definition uses fuel. A library that calls
  back (Secure Transport, mbedTLS) is a tree of requests, run against the callbacks of the file.

  \<^bold>\<open>Vector kernels.\<close> \<open>Vec16\<close> is the 16-lane vector type with the two instruction sets. \<open>ByteAlg\<close>
  (\<open>internal/bytealg/vector_tinygo.c\<close>), \<open>SimdHex\<close> (\<open>encoding/simdhex/vector_tinygo.c\<close>) and \<open>SimdBase64\<close>, with its
  lemmas in \<open>SimdBase64_Lanes\<close>, \<open>SimdBase64_Dec\<close> and \<open>SimdBase64_Enc\<close> (\<open>encoding/simdbase64/vector_tinygo.c\<close>), have one definition per function and
  loop. The theorems say that on either architecture they stay inside their buffers and compute their byte-wise reference:
  the first index of a byte, the validity of a header value, XOR with a mask, hexadecimal, and RFC 4648 base64 as \<open>Base64Spec\<close> states
  it; and that decoding undoes encoding, up to the last characters, which these kernels leave to their caller.

  \<^bold>\<open>Schannel\<close> (\<open>internal/schannel/sspibridge.c\<close>). \<open>Schannel\<close> has the state \<open>https_sc\<close> and one definition per function. \<open>Schannel_IO\<close>,
  \<open>Schannel_Proto\<close>, \<open>Schannel_Rec\<close>, \<open>Schannel_Setup\<close> and \<open>Schannel_Live\<close> prove its parts; \<open>Schannel_Session\<close> has the step
  relation of a session and the theorems: the bytes a session reads are the records' plaintext in order, what it writes is what it
  sealed, a handshake succeeds only over a chain that Windows built with the right engine and accepted, every resource is released
  exactly once, and the loops end. What Windows was asked and answered about trust, and the data given to it to seal, are events of the
  trace that the wrappers of those calls record.

  \<^bold>\<open>Secure Transport\<close> (\<open>internal/securetransport/securetransport.c\<close>). \<open>SecureTransport\<close> has the state \<open>https_st\<close>, the two I/O
  callbacks, the anchors, the trust evaluation and the connection functions. \<open>SecureTransport_Correct\<close> proves that a
  successful handshake evaluated every chain with the configured anchors, that sessions give back what they obtained, and that transfers return.

  \<^bold>\<open>mbedTLS transport\<close> (\<open>internal/mbedtls/tls_mbedtls.c\<close>). \<open>MbedTls\<close> has the waits of both platforms, the callbacks, the stages of the handshake
  (\<open>mb_new\<close>, \<open>mb_load_ca\<close>, \<open>mb_configure\<close>, \<open>mb_client_cert\<close>, \<open>mb_connect\<close>) and the transfers. \<open>MbedTls_Correct\<close> proves how
  verification is configured and that a handshake succeeds only when every call of the library reported success, that every stage gives back on failure what was obtained, and that the wait of the
  macOS build does not end while \<open>select\<close> fails. \<open>TlsSession\<close> is the contract both transports keep, as a locale: a session over it is balanced.

  \<^bold>\<open>RSA signing\<close> (\<open>internal/rsasign\<close>, \<open>internal/mbedtls/rsasign_mbedtls.c\<close>). \<open>RsaSign\<close> has the three backends; \<open>RsaSign_Correct\<close> has their common
  contract as a locale, its three interpretations, and what follows for a client.

  \<^bold>\<open>mbedTLS codecs.\<close> \<open>MbedBase64\<close> (\<open>base64.c\<close>, with \<open>MbedBase64_Correct\<close> and \<open>MbedBase64_Dec\<close>) encodes and decodes RFC 4648 with
  padding and white space. \<open>Asn1\<close> and \<open>Asn1_Correct\<close> (the readers of \<open>asn1parse.c\<close>) are safe on every input and exact
  on DER; \<open>Asn1_Named\<close> and \<open>Asn1_Named_Correct\<close> (sequences and named data on the heap) refine a map and leak nothing;
  \<open>Asn1Write\<close> and \<open>Asn1Write_Correct\<close> (\<open>asn1write.c\<close>) write what the readers read back. Below, the mbedTLS decoder reads what the vector encoder wrote.

  \<^bold>\<open>Bounds.\<close> Buffers are shorter than \<open>size_mod\<close> where a theorem says so. 64-bit nanosecond clocks are unbounded
  integers. Conversions to \<open>int\<close>, \<open>long\<close> and \<open>ptrdiff_t\<close> are kept at their width in \<open>sspibridge.c\<close> for the time to wait and the size of the
  output buffer, in \<open>asn1write.c\<close> and in the byte search. The other conversions to \<open>int\<close> in \<open>sspibridge.c\<close> are of sizes inside a buffer of at
  most \<open>SC_ENC_MAX\<close> bytes, or of a token of Schannel, which is taken to be shorter than 2 GiB.

  \<^bold>\<open>Not modelled.\<close> The Network.framework backend \<open>https/tls_darwin_nw.c\<close>: blocks run by the platform's dispatch queues. The rest of
  the vendored mbedTLS (protocol engine, X.509, bignum, curves, ciphers, PSA), which is upstream code. \<open>tinygo_arm_neon.h\<close>: one
  instruction per function, in assembly. The SQLite amalgamation and the forwards of \<open>bridge.c\<close> and \<open>tinygo_libc.c\<close>. The
  Go packages. In the modelled files: \<open>mbedtls_asn1_get_mpi\<close> and \<open>mbedtls_asn1_write_mpi\<close>, which are bignum code, the self tests of mbedTLS, and
  the system call stubs.
\<close>

section \<open>Across the components\<close>

lemma full_enc_triples: "length bs mod 3 = 0 \<Longrightarrow> b64_full_enc url bs = b64_enc url bs"
proof -
  assume "length bs mod 3 = 0"
  then have "length bs div 3 * 3 = length bs" by (simp add: mod_0_imp_dvd)
  then show ?thesis by (simp add: b64_full_enc_def b64_last_def)
qed

text \<open>C24. The two base64 codecs of the repository agree: on either architecture, mbedTLS's decoder accepts what the
  vector encoder wrote with the standard alphabet and gives back exactly the bytes the encoder reports as consumed.\<close>

theorem simd_encode_mbedtls_decode:
  assumes "length src < size_mod" "length d1 < size_mod" "length src \<le> length d2"
  shows "\<exists>e n. tinygodriver_base64_encode a d1 src False = Some (e, n) \<and> n \<le> length src \<and>
    mbedtls_base64_decode (Some d2) (length d2) 0 (take (4 * (n div 3)) e) (4 * (n div 3)) =
      Some ((0, n), Some (take n src @ drop n d2))"
proof -
  let ?n = "enc_count a (length src) (length d1)"
  let ?e = "b64_full_enc False (take ?n src)"
  note b = enc_count_bound [of a "length src" "length d1"]
  have t: "length (take ?n src) = ?n" using b by simp
  have e: "?e = b64_enc False (take ?n src)" using full_enc_triples [of "take ?n src"] t enc_count_mod by simp
  have l: "length ?e = 4 * (?n div 3)" unfolding length_b64_full_enc t by (simp add: enc_count_mod)
  have "length ?e < size_mod" "length (take ?n src) \<le> length d2" using l b assms t by linarith+
  from mbed_decode_full_enc [OF this]
  have dec: "mbedtls_base64_decode (Some d2) (length d2) 0 ?e (4 * (?n div 3)) = Some ((0, ?n), Some (take ?n src @ drop ?n d2))"
    unfolding l t .
  have enc: "tinygodriver_base64_encode a d1 src False = Some (?e @ drop (4 * (?n div 3)) d1, ?n)"
    using encode_spec [OF assms(1), of a d1 False] e by (simp add: Let_def)
  have "take (4 * (?n div 3)) (?e @ drop (4 * (?n div 3)) d1) = ?e" using l by simp
  then show ?thesis using enc dec b by metis
qed

theorem simd_encode_mbedtls_decode_witness:
  "\<exists>e n. tinygodriver_base64_encode X86_64 (replicate 64 0) (replicate 40 1) False = Some (e, n) \<and>
     mbedtls_base64_decode (Some (replicate 48 5)) 48 0 (take (4 * (n div 3)) e) (4 * (n div 3)) =
       Some ((0, n), Some (take n (replicate 40 1) @ drop n (replicate 48 5)))"
proof -
  have p: "length (replicate 40 1 :: bytes) < size_mod" "length (replicate 64 0 :: bytes) < size_mod"
    "length (replicate 40 1 :: bytes) \<le> length (replicate 48 5 :: bytes)" by simp_all
  have len: "length (replicate 48 5 :: bytes) = 48" by simp
  from simd_encode_mbedtls_decode [OF p, of X86_64] show ?thesis unfolding len by blast
qed

end
